(* ===== verification/Prelude.thy ===== *)
theory Prelude imports
  "HOL-Library.Word"
  "HOL-Library.List_Lexorder"
  "HOL-Library.Char_ord"
  "HOL-Library.Monad_Syntax"
begin

text \<open>
  Shared vocabulary of the development: machine integers and the two build profiles of a Rust
  binary (overflow checks on or off), panics and error results, strings as UTF-8 byte sequences,
  decimal and hexadecimal printing, and SHA-256 as a parameter of the model.

  Conventions.
  \<^item> A Rust \<open>String\<close> is the list of its UTF-8 bytes, one \<^typ>\<open>char\<close> per byte; Rust compares
    strings byte by byte, which is the lexicographic order of \<^typ>\<open>string\<close> loaded here.
  \<^item> \<^typ>\<open>'e + 'a\<close> is Rust's \<open>Result\<close>: \<open>Inl\<close> an error, \<open>Inr\<close> a value.
  \<^item> Where code can panic, its model returns an option: \<open>None\<close> is the panic.
  \<^item> SHA-256 (crate \<open>sha2\<close>, not part of the repository) is an argument \<open>D\<close> of every definition
    that hashes. A theorem that needs the hash to separate inputs says which inputs: it assumes
    \<open>collision_free D S\<close> for the explicit set \<open>S\<close> of strings the compared computations hash.
\<close>

named_theorems print_simps "lengths and alphabets of printed numbers and digests"

section \<open>Machine integers\<close>

type_synonym u8 = "8 word"
type_synonym u16 = "16 word"
type_synonym u32 = "32 word"
type_synonym u64 = "64 word"
type_synonym bytes = "u8 list"

text \<open>
  Rust's integer \<open>+\<close> panics on overflow in a build with overflow checks (debug and test builds)
  and wraps in a build without them (the default release profile). The workspace sets no
  profile, so both behaviours occur.
\<close>

datatype profile = Checked | Wrapping

definition add_ov :: "profile \<Rightarrow> 'a::len word \<Rightarrow> 'a word \<Rightarrow> 'a word option" where
  "add_ov p a b = (if unat a + unat b < 2 ^ LENGTH('a) \<or> p = Wrapping then Some (a + b) else None)"

definition saturating_sub :: "'a::len word \<Rightarrow> 'a word \<Rightarrow> 'a word" where
  "saturating_sub a b = (if a < b then 0 else a - b)"

lemma add_ov_exact [simp]:
  "unat a + unat b < 2 ^ LENGTH('a) \<Longrightarrow> add_ov p a b = Some (a + b)" for a b :: "'a::len word"
  by (simp add: add_ov_def)

lemma add_ov_Some: "add_ov p a b = Some c \<Longrightarrow> c = a + b"
  by (auto simp: add_ov_def split: if_splits)

lemma add_ov_Checked:
  "add_ov Checked a b = Some c \<Longrightarrow> unat c = unat a + unat b" for a b :: "'a::len word"
  by (auto simp: add_ov_def unat_word_ariths split: if_splits)

lemma add_ov_Wrapping [simp]: "add_ov Wrapping a b = Some (a + b)"
  by (simp add: add_ov_def)

lemma unat_saturating_sub: "unat (saturating_sub a b) = unat a - unat b"
  by (simp add: saturating_sub_def unat_sub_if' word_less_nat_alt)

lemma unat_Suc_64: "n < 2 ^ 64 \<Longrightarrow> unat (of_nat n :: u64) = n"
  by (simp add: unat_of_nat)

text \<open>A counter that has been incremented \<open>n\<close> times.\<close>

lemma add_ov_count:
  assumes "Suc n < 2 ^ 64"
  shows "add_ov p (of_nat n :: u64) 1 = Some (of_nat (Suc n))"
proof -
  have "unat (of_nat n :: u64) = n" using assms by (intro unat_Suc_64) simp
  then have "unat (of_nat n :: u64) + unat (1 :: u64) < 2 ^ LENGTH(64)" using assms by simp
  then have "add_ov p (of_nat n :: u64) 1 = Some (of_nat n + 1)" by (rule add_ov_exact)
  also have "of_nat n + 1 = (of_nat (Suc n) :: u64)" by (simp only: of_nat_Suc add.commute)
  finally show ?thesis .
qed

section \<open>Strings and bytes\<close>

definition as_bytes :: "string \<Rightarrow> bytes" where
  "as_bytes s = map of_char s"

lemma unat_of_char_u8: "unat (of_char c :: u8) = of_char c"
proof -
  have "(of_char c :: u8) = of_nat (of_char c)"
    by (simp add: of_char_def)
  then show ?thesis
    by (simp add: unat_of_nat mod_less)
qed

lemma of_char_u8_inject: "(of_char c :: u8) = of_char d \<longleftrightarrow> c = d"
  by (metis unat_of_char_u8 of_char_eq_iff)

lemma inj_as_bytes: "inj as_bytes"
  unfolding as_bytes_def by (rule inj_mapI) (simp add: inj_def of_char_u8_inject)

lemma as_bytes_eq [simp]: "as_bytes s = as_bytes t \<longleftrightarrow> s = t"
  using inj_as_bytes by (auto dest: injD)

text \<open>
  Rust's \<open>s.trim().is_empty()\<close>: every character of the string is Unicode white space. The
  two- and three-byte patterns are the UTF-8 encodings of U+0085, U+00A0, U+1680,
  U+2000..U+200A, U+2028, U+2029, U+202F, U+205F and U+3000.
\<close>

definition ws2 :: "nat \<Rightarrow> nat \<Rightarrow> bool" where
  "ws2 a b \<longleftrightarrow> a = 0xC2 \<and> (b = 0x85 \<or> b = 0xA0)"

definition ws3 :: "nat \<Rightarrow> nat \<Rightarrow> nat \<Rightarrow> bool" where
  "ws3 a b c \<longleftrightarrow>
     (a = 0xE1 \<and> b = 0x9A \<and> c = 0x80) \<or>
     (a = 0xE2 \<and> b = 0x80 \<and> (0x80 \<le> c \<and> c \<le> 0x8A \<or> c = 0xA8 \<or> c = 0xA9 \<or> c = 0xAF)) \<or>
     (a = 0xE2 \<and> b = 0x81 \<and> c = 0x9F) \<or>
     (a = 0xE3 \<and> b = 0x80 \<and> c = 0x80)"

fun blank_codes :: "nat list \<Rightarrow> bool" where
  "blank_codes [] = True"
| "blank_codes (a # xs) =
     (if 9 \<le> a \<and> a \<le> 13 \<or> a = 32 then blank_codes xs
      else case xs of
        [] \<Rightarrow> False
      | b # ys \<Rightarrow> if ws2 a b then blank_codes ys
          else (case ys of [] \<Rightarrow> False | c # zs \<Rightarrow> ws3 a b c \<and> blank_codes zs))"

definition trim_is_empty :: "string \<Rightarrow> bool" where
  "trim_is_empty s = blank_codes (map of_char s)"

lemma trim_is_empty_head:
  "trim_is_empty (c # s) \<Longrightarrow> (of_char c :: nat) \<in> {9, 10, 11, 12, 13, 32, 0xC2, 0xE1, 0xE2, 0xE3}"
proof -
  have "blank_codes (a # xs) \<Longrightarrow> a \<in> {9, 10, 11, 12, 13, 32, 0xC2, 0xE1, 0xE2, 0xE3}" for a xs
    by (cases "(9 \<le> a \<and> a \<le> 13) \<or> a = 32") (auto simp: ws2_def ws3_def split: list.splits if_splits)
  then show "trim_is_empty (c # s) \<Longrightarrow> ?thesis"
    by (simp add: trim_is_empty_def)
qed

section \<open>Printing numbers\<close>

definition digit_char :: "nat \<Rightarrow> char" where
  "digit_char d = ''0123456789'' ! d"

fun show_nat :: "nat \<Rightarrow> string" where
  "show_nat n = (if n < 10 then [digit_char n] else show_nat (n div 10) @ [digit_char (n mod 10)])"

declare show_nat.simps [simp del]

text \<open>\<open>format!("{}", w)\<close> on an unsigned integer.\<close>

definition show_word :: "'a::len word \<Rightarrow> string" where
  "show_word w = show_nat (unat w)"

lemma of_char_digit: "d < 10 \<Longrightarrow> (of_char (digit_char d) :: nat) = 48 + d"
proof -
  assume "d < 10"
  then have "d \<in> {0, 1, 2, 3, 4, 5, 6, 7, 8, 9}" by auto
  then show ?thesis by (auto simp: digit_char_def)
qed

lemma show_nat_digits: "c \<in> set (show_nat n) \<Longrightarrow> \<exists>d < 10. c = digit_char d"
proof (induction n rule: show_nat.induct)
  case (1 n)
  show ?case
  proof (cases "n < 10")
    case True
    with "1.prems" show ?thesis by (auto simp: show_nat.simps [of n])
  next
    case False
    with "1.prems" have "c \<in> set (show_nat (n div 10)) \<or> c = digit_char (n mod 10)"
      by (auto simp: show_nat.simps [of n])
    then show ?thesis
      using "1.IH" [OF False] by (metis mod_less_divisor zero_less_numeral)
  qed
qed

lemma show_nat_nonempty [simp]: "show_nat n \<noteq> []"
  by (subst show_nat.simps) simp

lemma show_nat_code_range: "c \<in> set (show_nat n) \<Longrightarrow> 48 \<le> (of_char c :: nat) \<and> (of_char c :: nat) \<le> 57"
  by (auto dest!: show_nat_digits simp: of_char_digit)

lemma digit_char_inject: "a < 10 \<Longrightarrow> b < 10 \<Longrightarrow> digit_char a = digit_char b \<longleftrightarrow> a = b"
  by (metis of_char_digit add_left_cancel)

lemma length_show_nat_ge: "\<not> n < 10 \<Longrightarrow> 2 \<le> length (show_nat n)"
  by (subst show_nat.simps) (simp add: Suc_le_eq)

lemma show_nat_inject [simp]: "show_nat m = show_nat n \<longleftrightarrow> m = n"
proof
  show "show_nat m = show_nat n \<Longrightarrow> m = n"
  proof (induction m arbitrary: n rule: show_nat.induct)
    case (1 m)
    show ?case
    proof (cases "m < 10")
      case True
      with "1.prems" have "length (show_nat n) = 1"
        by (simp add: show_nat.simps [of m] flip: "1.prems")
      then have "n < 10" using length_show_nat_ge [of n] by force
      with True "1.prems" show ?thesis
        by (simp add: show_nat.simps [of m] show_nat.simps [of n] digit_char_inject)
    next
      case False
      then have "2 \<le> length (show_nat n)" using length_show_nat_ge "1.prems" by metis
      then have n: "\<not> n < 10" by (auto simp: show_nat.simps [of n])
      with False "1.prems" have "show_nat (m div 10) = show_nat (n div 10)" "m mod 10 = n mod 10"
        by (simp_all add: show_nat.simps [of m] show_nat.simps [of n] digit_char_inject)
      with False "1.IH" show ?thesis
        by (metis div_mult_mod_eq)
    qed
  qed
qed simp

lemma show_word_inject [simp]: "show_word a = show_word b \<longleftrightarrow> a = b"
  by (simp add: show_word_def flip: word_unat_eq_iff)

lemma bar_notin_show_nat [print_simps, simp]: "CHR ''|'' \<notin> set (show_nat n)"
  using show_nat_code_range [of "CHR ''|''" n] by auto

lemma bar_notin_show_word [print_simps, simp]: "CHR ''|'' \<notin> set (show_word w)"
  by (simp add: show_word_def)

text \<open>Splitting a printed record at a bar.\<close>

lemma bar_split:
  assumes "a @ CHR ''|'' # x = b @ CHR ''|'' # y" "CHR ''|'' \<notin> set a" "CHR ''|'' \<notin> set b"
  shows "a = b \<and> x = y"
  using assms
proof (induction a arbitrary: b)
  case Nil
  then show ?case by (cases b) auto
next
  case (Cons c a)
  then show ?case by (cases b) auto
qed

section \<open>Hexadecimal and SHA-256\<close>

definition hex_digit :: "nat \<Rightarrow> char" where
  "hex_digit d = ''0123456789abcdef'' ! d"

text \<open>\<open>format!("{b:02x}")\<close> on a byte, and its concatenation over a byte sequence.\<close>

definition hex_byte :: "u8 \<Rightarrow> string" where
  "hex_byte b = [hex_digit (unat b div 16), hex_digit (unat b mod 16)]"

definition hex :: "bytes \<Rightarrow> string" where
  "hex bs = concat (map hex_byte bs)"

lemma hex_digit_inject: "a < 16 \<Longrightarrow> b < 16 \<Longrightarrow> hex_digit a = hex_digit b \<longleftrightarrow> a = b"
  unfolding hex_digit_def by (rule nth_eq_iff_index_eq) simp_all

lemma hex_digit_in: "d < 16 \<Longrightarrow> hex_digit d \<in> set ''0123456789abcdef''"
  unfolding hex_digit_def by (rule nth_mem) simp

lemma hex_byte_inject: "hex_byte a = hex_byte b \<longleftrightarrow> a = b"
proof
  have lt: "unat a < 256" "unat b < 256"
    using unsigned_less [of a] unsigned_less [of b] by simp_all
  assume "hex_byte a = hex_byte b"
  then have "unat a div 16 = unat b div 16" "unat a mod 16 = unat b mod 16"
    using lt hex_digit_inject by (simp_all add: hex_byte_def less_mult_imp_div_less)
  then have "unat a = unat b" by (metis div_mult_mod_eq)
  then show "a = b" by (simp only: word_unat_eq_iff)
qed simp

lemma length_hex [print_simps, simp]: "length (hex bs) = 2 * length bs"
  by (induction bs) (simp_all add: hex_def hex_byte_def)

lemma hex_Cons: "hex (b # bs) = hex_byte b @ hex bs"
  by (simp add: hex_def)

lemma hex_inject [simp]: "hex as = hex bs \<longleftrightarrow> as = bs"
proof
  assume eq: "hex as = hex bs"
  then have "2 * length as = 2 * length bs" by (metis length_hex)
  then have "length as = length bs" by simp
  from this eq show "as = bs"
  proof (induction as bs rule: list_induct2)
    case (Cons a as b bs)
    from Cons.prems have "hex_byte a @ hex as = hex_byte b @ hex bs"
      by (simp add: hex_Cons)
    then have "hex_byte a = hex_byte b \<and> hex as = hex bs"
      by (simp add: hex_byte_def)
    with Cons.IH show ?case by (simp add: hex_byte_inject)
  qed simp
qed simp

lemma set_hex: "set (hex bs) \<subseteq> set ''0123456789abcdef''"
proof -
  have "unat b div 16 < 16" for b :: u8
  proof -
    have "unat b < 256" using unsigned_less [of b] by simp
    then show ?thesis by (simp add: less_mult_imp_div_less)
  qed
  then have "set (hex_byte b) \<subseteq> set ''0123456789abcdef''" for b
    using hex_digit_in [of "unat b div 16"] hex_digit_in [of "unat b mod 16"]
    by (simp only: hex_byte_def) simp
  then show ?thesis by (induction bs) (simp add: hex_def, simp only: hex_Cons set_append Un_subset_iff)
qed

lemma bar_notin_hex [print_simps, simp]: "CHR ''|'' \<notin> set (hex bs)"
  using set_hex [of bs] by auto

lemma upper_notin_hex: "CHR ''F'' \<notin> set (hex bs)"
  using set_hex [of bs] by auto

type_synonym digest = "bytes \<Rightarrow> bytes"

text \<open>
  \<open>sha_hex\<close> (crates state, pkg, ai) and the private \<open>sha256_hex\<close> helpers (wal.rs, node/audit.rs)
  are the same two lines: hash, then print every byte as two lower-case hexadecimal digits.
\<close>

definition sha_hex :: "digest \<Rightarrow> bytes \<Rightarrow> string" where
  "sha_hex D input = hex (D input)"

definition sha_str :: "digest \<Rightarrow> string \<Rightarrow> string" where
  "sha_str D s = sha_hex D (as_bytes s)"

text \<open>A SHA-256 digest has 32 bytes.\<close>

definition digest32 :: "digest \<Rightarrow> bool" where
  "digest32 D \<longleftrightarrow> (\<forall>x. length (D x) = 32)"

definition collision_free :: "digest \<Rightarrow> string set \<Rightarrow> bool" where
  "collision_free D S \<longleftrightarrow> inj_on D (as_bytes ` S)"

lemma length_sha_str [print_simps, simp]: "digest32 D \<Longrightarrow> length (sha_str D s) = 64"
  by (simp add: sha_str_def sha_hex_def digest32_def)

lemma bar_notin_sha_str [print_simps, simp]: "CHR ''|'' \<notin> set (sha_str D s)"
  by (simp add: sha_str_def sha_hex_def)

lemma collision_freeD:
  "collision_free D S \<Longrightarrow> s \<in> S \<Longrightarrow> t \<in> S \<Longrightarrow> sha_str D s = sha_str D t \<longleftrightarrow> s = t"
  by (auto simp: collision_free_def sha_str_def sha_hex_def dest: inj_onD)

lemma collision_free_mono: "collision_free D S \<Longrightarrow> T \<subseteq> S \<Longrightarrow> collision_free D T"
  unfolding collision_free_def by (meson image_mono inj_on_subset)

text \<open>
  A digest for the closed examples: SHA-256's documented value on the empty input, otherwise 31
  zero bytes and the length of the input modulo 256. It has the documented length, it is cheap to
  evaluate, and it separates inputs of different lengths, which is all the examples ask of it.
\<close>

definition demo_digest :: digest where
  "demo_digest x =
     (if x = [] then
        [227, 176, 196, 66, 152, 252, 28, 20, 154, 251, 244, 200, 153, 111, 185, 36,
         39, 174, 65, 228, 100, 155, 147, 76, 164, 149, 153, 27, 120, 82, 184, 85]
      else replicate 31 0 @ [of_nat (length x)])"

lemma digest32_demo [simp]: "digest32 demo_digest"
  by (simp add: digest32_def demo_digest_def)

lemma hex_zeros: "hex (replicate n 0) = replicate (2 * n) (CHR ''0'')"
  by (induction n) (simp_all add: hex_def hex_byte_def hex_digit_def)

lemma sha_str_demo:
  "s \<noteq> [] \<Longrightarrow>
   sha_str demo_digest s = replicate 62 (CHR ''0'') @ hex_byte (of_nat (length s))"
proof -
  have "hex (bs @ [b]) = hex bs @ hex_byte b" for bs b by (simp add: hex_def)
  then show "s \<noteq> [] \<Longrightarrow> ?thesis"
    using hex_zeros [of 31] by (simp add: sha_str_def sha_hex_def demo_digest_def as_bytes_def)
qed

text \<open>Inputs of pairwise different lengths below 256 do not collide.\<close>

lemma demo_head: "(0xe3 :: u8) \<noteq> 0"
  by simp

lemma demo_digest_length:
  assumes "demo_digest x = demo_digest y" "length x < 256" "length y < 256"
  shows "length x = length y"
proof (cases "x = [] \<or> y = []")
  case True
  have "hd (demo_digest z) = (if z = [] then 0xe3 else 0)" for z
    by (simp add: demo_digest_def hd_append)
  with True assms(1) show ?thesis by (metis list.size(3) demo_head)
next
  case False
  with assms(1) have "(of_nat (length x) :: u8) = of_nat (length y)"
    by (simp add: demo_digest_def)
  then have "unat (of_nat (length x) :: u8) = unat (of_nat (length y) :: u8)" by simp
  with assms(2,3) show ?thesis by (simp add: unat_of_nat)
qed

lemma collision_free_demo:
  assumes "S \<subseteq> set ss" "distinct (map length ss)" "\<forall>s \<in> set ss. length s < 256"
  shows "collision_free demo_digest S"
proof -
  have "s = t" if st: "s \<in> set ss" "t \<in> set ss"
    and eq: "demo_digest (as_bytes s) = demo_digest (as_bytes t)" for s t
  proof -
    have "length (as_bytes s) = length (as_bytes t)"
      using assms(3) st by (intro demo_digest_length [OF eq]) (simp_all add: as_bytes_def)
    then show "s = t" using assms(2) st by (auto simp: distinct_map inj_on_def as_bytes_def)
  qed
  then show ?thesis using assms(1) by (auto simp: collision_free_def inj_on_def)
qed

lemma collision_free_iff:
  "collision_free D S \<longleftrightarrow> (\<forall>s \<in> S. \<forall>t \<in> S. D (as_bytes s) = D (as_bytes t) \<longrightarrow> s = t)"
  by (auto simp: collision_free_def inj_on_def)

section \<open>Results\<close>

definition is_ok :: "'e + 'a \<Rightarrow> bool" where
  "is_ok r = (case r of Inl _ \<Rightarrow> False | Inr _ \<Rightarrow> True)"

lemma is_ok_simps [simp]: "\<not> is_ok (Inl e)" "is_ok (Inr v)"
  by (simp_all add: is_ok_def)

lemma is_ok_iff: "is_ok r \<longleftrightarrow> (\<exists>v. r = Inr v)"
  by (cases r) auto

text \<open>Rust's \<open>slice.join(sep)\<close>.\<close>

fun join :: "string \<Rightarrow> string list \<Rightarrow> string" where
  "join sep [] = []"
| "join sep [x] = x"
| "join sep (x # y # zs) = x @ sep @ join sep (y # zs)"

text \<open>Rust's \<open>s.split(c)\<close>: always at least one piece.\<close>

fun split_on :: "char \<Rightarrow> string \<Rightarrow> string list" where
  "split_on c [] = [[]]"
| "split_on c (x # xs) =
     (if x = c then [] # split_on c xs
      else case split_on c xs of [] \<Rightarrow> [[x]] | p # ps \<Rightarrow> (x # p) # ps)"

lemma split_on_nonempty [simp]: "split_on c s \<noteq> []"
  by (induction s) (auto split: list.splits)

lemma split_on_plain: "c \<notin> set s \<Longrightarrow> split_on c s = [s]"
  by (induction s) auto

lemma split_on_append: "c \<notin> set s \<Longrightarrow> split_on c (s @ c # t) = s # split_on c t"
  by (induction s) auto

lemma split_on_join:
  "ss \<noteq> [] \<Longrightarrow> \<forall>s \<in> set ss. c \<notin> set s \<Longrightarrow> split_on c (join [c] ss) = ss"
  by (induction "[c]" ss rule: join.induct) (auto simp: split_on_plain split_on_append)

section \<open>Parsing numbers\<close>

text \<open>
  \<open>str::parse::<u64>()\<close>: an optional plus sign, then one or more decimal digits, with a value
  below 2^64. Every error is mapped to another value by the callers, so \<open>None\<close> stands for it.
\<close>

definition digit_value :: "char \<Rightarrow> nat option" where
  "digit_value c = (let n = of_char c in if 48 \<le> n \<and> n \<le> 57 then Some (n - 48) else None)"

fun digits_value :: "nat \<Rightarrow> string \<Rightarrow> nat option" where
  "digits_value acc [] = Some acc"
| "digits_value acc (c # cs) = do { d \<leftarrow> digit_value c; digits_value (10 * acc + d) cs }"

definition parse_word :: "string \<Rightarrow> 'a::len word option" where
  "parse_word s =
     (let ds = (case s of c # cs \<Rightarrow> if c = CHR ''+'' \<and> cs \<noteq> [] then cs else s | [] \<Rightarrow> [])
      in if ds = [] then None
         else do { n \<leftarrow> digits_value 0 ds; if n < 2 ^ LENGTH('a) then Some (of_nat n) else None })"

lemma digit_value_digit_char: "d < 10 \<Longrightarrow> digit_value (digit_char d) = Some d"
  by (simp add: digit_value_def of_char_digit Let_def)

lemma digits_value_append:
  "digits_value acc (s @ t) = do { a \<leftarrow> digits_value acc s; digits_value a t }"
  by (induction s arbitrary: acc) (simp_all add: bind_assoc)

lemma digits_value_show_nat: "digits_value 0 (show_nat n) = Some n"
proof (induction n rule: show_nat.induct)
  case (1 n)
  then show ?case
    by (cases "n < 10")
      (simp_all add: show_nat.simps [of n] digits_value_append digit_value_digit_char)
qed

lemma parse_show_word [simp]: "parse_word (show_word w) = Some (w :: 'a::len word)"
proof -
  obtain c cs where s: "show_nat (unat w) = c # cs" by (cases "show_nat (unat w)") auto
  then have "c \<noteq> CHR ''+''" using show_nat_code_range [of c "unat w"] by auto
  with s have "(case show_nat (unat w) of c # cs \<Rightarrow> if c = CHR ''+'' \<and> cs \<noteq> [] then cs
      else show_nat (unat w) | [] \<Rightarrow> []) = show_nat (unat w)" by simp
  then show ?thesis
    by (simp add: parse_word_def show_word_def digits_value_show_nat Let_def unsigned_less
        del: list.case)
qed

section \<open>UTF-8\<close>

text \<open>
  \<open>std::str::from_utf8\<close>'s check, which \<open>read_to_string\<close> and \<open>BufRead::lines\<close> make: no overlong
  forms, no surrogates, nothing above U+10FFFF.
\<close>

definition cont_byte :: "nat \<Rightarrow> bool" where
  "cont_byte b \<longleftrightarrow> 0x80 \<le> b \<and> b \<le> 0xBF"

definition second3 :: "nat \<Rightarrow> nat \<Rightarrow> bool" where
  "second3 a b \<longleftrightarrow> (if a = 0xE0 then 0xA0 \<le> b \<and> b \<le> 0xBF
     else if a = 0xED then 0x80 \<le> b \<and> b \<le> 0x9F else cont_byte b)"

definition second4 :: "nat \<Rightarrow> nat \<Rightarrow> bool" where
  "second4 a b \<longleftrightarrow> (if a = 0xF0 then 0x90 \<le> b \<and> b \<le> 0xBF
     else if a = 0xF4 then 0x80 \<le> b \<and> b \<le> 0x8F else cont_byte b)"

fun utf8_codes :: "nat list \<Rightarrow> bool" where
  "utf8_codes [] = True"
| "utf8_codes (a # xs) =
     (if a < 0x80 then utf8_codes xs
      else if 0xC2 \<le> a \<and> a \<le> 0xDF then
        (case xs of b # ys \<Rightarrow> cont_byte b \<and> utf8_codes ys | [] \<Rightarrow> False)
      else if 0xE0 \<le> a \<and> a \<le> 0xEF then
        (case xs of b # c # ys \<Rightarrow> second3 a b \<and> cont_byte c \<and> utf8_codes ys | _ \<Rightarrow> False)
      else if 0xF0 \<le> a \<and> a \<le> 0xF4 then
        (case xs of b # c # d # ys \<Rightarrow> second4 a b \<and> cont_byte c \<and> cont_byte d \<and> utf8_codes ys
         | _ \<Rightarrow> False)
      else False)"

definition utf8_ok :: "string \<Rightarrow> bool" where
  "utf8_ok s = utf8_codes (map of_char s)"

definition ascii :: "string \<Rightarrow> bool" where
  "ascii s \<longleftrightarrow> (\<forall>c \<in> set s. (of_char c :: nat) < 128)"

lemma ascii_simps [simp]: "ascii []" "ascii (c # s) \<longleftrightarrow> (of_char c :: nat) < 128 \<and> ascii s"
    "ascii (s @ t) \<longleftrightarrow> ascii s \<and> ascii t"
  by (auto simp: ascii_def)

lemma ascii_hex [print_simps, simp]: "ascii (hex bs)"
proof -
  have "ascii ''0123456789abcdef''" by simp
  then show ?thesis using set_hex [of bs] unfolding ascii_def by blast
qed

lemma ascii_sha_str [print_simps, simp]: "ascii (sha_str D s)"
  by (simp add: sha_str_def sha_hex_def)

text \<open>The shape of a digest in the strings of the crates: 64 lower-case hexadecimal digits.\<close>

definition digest_text :: "string \<Rightarrow> bool" where
  "digest_text s \<longleftrightarrow> length s = 64 \<and> set s \<subseteq> set ''0123456789abcdef''"

lemma digest_text_sha [print_simps, simp]: "digest32 D \<Longrightarrow> digest_text (sha_str D s)"
  using set_hex [of "D (as_bytes s)"] length_sha_str [of D s]
  by (simp add: digest_text_def) (simp add: sha_str_def sha_hex_def)

lemma digest_text_parts:
  "digest_text s \<Longrightarrow> length s = 64" "digest_text s \<Longrightarrow> CHR ''|'' \<notin> set s" "digest_text s \<Longrightarrow> ascii s"
  by (auto simp: digest_text_def ascii_def)

lemma ascii_utf8: "ascii s \<Longrightarrow> utf8_ok s"
  by (induction s) (auto simp: ascii_def utf8_ok_def)

lemma utf8_codes_cases:
  assumes "utf8_codes xs" "xs \<noteq> []"
  obtains us vs where "xs = us @ vs" "utf8_codes vs" "length vs < length xs"
    "\<And>ys. utf8_codes (us @ ys) = utf8_codes ys"
proof -
  obtain a xs' where xs: "xs = a # xs'" using assms(2) by (cases xs) auto
  consider "a < 0x80" | "0xC2 \<le> a" "a \<le> 0xDF" | "0xE0 \<le> a" "a \<le> 0xEF" | "0xF0 \<le> a" "a \<le> 0xF4"
    using assms(1) unfolding xs by (simp split: if_splits)
  then show thesis
  proof cases
    case 1
    then show thesis using assms(1) that [of "[a]" xs'] by (simp add: xs)
  next
    case 2
    with assms(1) obtain b ys where "xs' = b # ys" "cont_byte b" "utf8_codes ys"
      by (cases xs') (simp_all add: xs)
    with 2 show thesis using that [of "[a, b]" ys] by (simp add: xs)
  next
    case 3
    with assms(1) obtain b c ys where "xs' = b # c # ys" "second3 a b" "cont_byte c" "utf8_codes ys"
      by (cases xs' rule: utf8_codes.cases; cases "tl xs'") (simp_all add: xs)
    with 3 show thesis using that [of "[a, b, c]" ys] by (simp add: xs)
  next
    case 4
    with assms(1) obtain b c d ys where "xs' = b # c # d # ys" "second4 a b" "cont_byte c"
      "cont_byte d" "utf8_codes ys"
      by (cases xs'; cases "tl xs'"; cases "tl (tl xs')") (simp_all add: xs)
    with 4 show thesis using that [of "[a, b, c, d]" ys] by (simp add: xs)
  qed
qed

lemma utf8_codes_append: "utf8_codes xs \<Longrightarrow> utf8_codes ys \<Longrightarrow> utf8_codes (xs @ ys)"
proof (induction "length xs" arbitrary: xs rule: less_induct)
  case less
  show ?case
  proof (cases "xs = []")
    case False
    with less.prems(1) obtain us vs where "xs = us @ vs" "utf8_codes vs" "length vs < length xs"
      "\<And>ys. utf8_codes (us @ ys) = utf8_codes ys"
      by (rule utf8_codes_cases) blast
    then show ?thesis using less.hyps [of vs] less.prems(2) by simp
  qed (use less.prems in simp)
qed

lemma utf8_append: "utf8_ok s \<Longrightarrow> utf8_ok t \<Longrightarrow> utf8_ok (s @ t)"
  by (simp add: utf8_ok_def utf8_codes_append)

text \<open>Rust's \<open>&s[..n]\<close>, which panics when \<open>n\<close> is past the end or inside a character.\<close>

definition slice_to :: "string \<Rightarrow> nat \<Rightarrow> string option" where
  "slice_to s n =
     (if length s < n \<or> (n < length s \<and> cont_byte (of_char (s ! n))) then None else Some (take n s))"

lemma slice_to_ascii: "ascii s \<Longrightarrow> n \<le> length s \<Longrightarrow> slice_to s n = Some (take n s)"
proof -
  assume "ascii s" "n \<le> length s"
  then have "n < length s \<Longrightarrow> (of_char (s ! n) :: nat) < 128" by (simp add: ascii_def)
  with \<open>n \<le> length s\<close> show ?thesis by (auto simp: slice_to_def cont_byte_def)
qed

end
