(* ===== verification/BTree_Map.thy ===== *)
theory BTree_Map imports Prelude "HOL-Library.Product_Lexorder" begin

text \<open>
  \<open>std::collections::BTreeMap\<close>, the ordered finite map most components of the repository keep
  their state in. A value is the list of its entries in strictly ascending key order, which is
  what the code observes of it: \<open>get\<close>, \<open>insert\<close>, \<open>remove\<close>, \<open>contains_key\<close>, \<open>len\<close> and
  ordered iteration. The type carries the order, so equal contents are equal values.

  The locale \<open>finite_map\<close> is the interface the other components use: the laws of the operations
  and what follows from them for any client, chiefly that inserting the entries of a map one by
  one, in any order, rebuilds it (snapshots are stored and sent as entry lists). It is
  interpreted on the ordered map at the end.
\<close>

section \<open>Association lists in ascending key order\<close>

abbreviation ascending :: "('k::linorder \<times> 'v) list \<Rightarrow> bool" where
  "ascending xs \<equiv> sorted_wrt (<) (map fst xs)"

fun asc_insert :: "'k::linorder \<Rightarrow> 'v \<Rightarrow> ('k \<times> 'v) list \<Rightarrow> ('k \<times> 'v) list" where
  "asc_insert k v [] = [(k, v)]"
| "asc_insert k v (e # es) =
     (if fst e < k then e # asc_insert k v es
      else if fst e = k then (k, v) # es
      else (k, v) # e # es)"

definition asc_remove :: "'k \<Rightarrow> ('k \<times> 'v) list \<Rightarrow> ('k \<times> 'v) list" where
  "asc_remove k es = filter (\<lambda>e. fst e \<noteq> k) es"

lemma asc_insert_keys: "fst ` set (asc_insert k v es) = insert k (fst ` set es)"
  by (induction es) (auto simp: image_iff)

lemma ascending_insert: "ascending es \<Longrightarrow> ascending (asc_insert k v es)"
proof (induction es)
  case (Cons e es)
  have "x \<in> set (asc_insert k v es) \<Longrightarrow> fst x = k \<or> fst x \<in> fst ` set es" for x
    using asc_insert_keys [of k v es] by (metis image_eqI insert_iff)
  with Cons show ?case by fastforce
qed simp

lemma ascending_remove: "ascending es \<Longrightarrow> ascending (asc_remove k es)"
  unfolding asc_remove_def sorted_wrt_map by (rule sorted_wrt_filter)

lemma map_of_asc_insert: "ascending es \<Longrightarrow> map_of (asc_insert k v es) = (map_of es)(k \<mapsto> v)"
proof (induction es)
  case (Cons e es)
  then show ?case by (cases e) (auto simp: fun_eq_iff)
qed simp

lemma map_of_asc_remove: "map_of (asc_remove k es) = (map_of es)(k := None)"
  by (induction es) (auto simp: asc_remove_def fun_eq_iff)

lemma ascending_distinct: "ascending es \<Longrightarrow> distinct (map fst es)"
  by (simp add: strict_sorted_iff)

lemma ascending_rebuild: "ascending es \<Longrightarrow> es = map (\<lambda>k. (k, the (map_of es k))) (map fst es)"
proof (rule nth_equalityI)
  fix i assume asc: "ascending es" and i: "i < length es"
  then have "map_of es (fst (es ! i)) = Some (snd (es ! i))"
    by (metis ascending_distinct map_of_eq_Some_iff nth_mem prod.collapse)
  with i show "es ! i = map (\<lambda>k. (k, the (map_of es k))) (map fst es) ! i"
    by (simp add: prod_eq_iff)
qed simp

lemma ascending_ext:
  assumes "ascending xs" "ascending ys" "map_of xs = map_of ys"
  shows "xs = ys"
proof -
  have "set (map fst xs) = set (map fst ys)"
    using assms(3) by (metis dom_map_of_conv_image_fst list.set_map)
  then have "map fst xs = map fst ys"
    using assms(1,2) by (metis strict_sorted_equal)
  then show ?thesis
    using ascending_rebuild [OF assms(1)] ascending_rebuild [OF assms(2)] assms(3) by simp
qed

section \<open>The map type\<close>

typedef (overloaded) ('k::linorder, 'v) bmap = "{es :: ('k \<times> 'v) list. ascending es}"
  morphisms bm_entries Bmap
  by (rule exI [of _ "[]"]) simp

setup_lifting type_definition_bmap

lift_definition bm_empty :: "('k::linorder, 'v) bmap" is "[]" by simp

lift_definition bm_insert :: "'k::linorder \<Rightarrow> 'v \<Rightarrow> ('k, 'v) bmap \<Rightarrow> ('k, 'v) bmap" is asc_insert
  by (rule ascending_insert)

lift_definition bm_remove :: "'k::linorder \<Rightarrow> ('k, 'v) bmap \<Rightarrow> ('k, 'v) bmap" is asc_remove
  by (rule ascending_remove)

text \<open>\<open>values_mut\<close>: every value is replaced in place.\<close>

lift_definition bm_update_all :: "('v \<Rightarrow> 'v) \<Rightarrow> ('k::linorder, 'v) bmap \<Rightarrow> ('k, 'v) bmap"
  is "\<lambda>f. map (\<lambda>e. (fst e, f (snd e)))"
  by (simp add: comp_def)

definition bm_get :: "('k::linorder, 'v) bmap \<Rightarrow> 'k \<Rightarrow> 'v option" where
  "bm_get m k = map_of (bm_entries m) k"

definition bm_contains :: "('k::linorder, 'v) bmap \<Rightarrow> 'k \<Rightarrow> bool" where
  "bm_contains m k = (bm_get m k \<noteq> None)"

definition bm_keys :: "('k::linorder, 'v) bmap \<Rightarrow> 'k list" where
  "bm_keys m = map fst (bm_entries m)"

definition bm_values :: "('k::linorder, 'v) bmap \<Rightarrow> 'v list" where
  "bm_values m = map snd (bm_entries m)"

definition bm_len :: "('k::linorder, 'v) bmap \<Rightarrow> nat" where
  "bm_len m = length (bm_entries m)"

text \<open>\<open>iter().collect()\<close> into a map: later entries replace earlier ones.\<close>

definition bm_of_list :: "('k::linorder \<times> 'v) list \<Rightarrow> ('k, 'v) bmap" where
  "bm_of_list es = foldl (\<lambda>m (k, v). bm_insert k v m) bm_empty es"

lemma bm_entries_simps [simp]:
  "bm_entries bm_empty = []"
  "bm_entries (bm_insert k v m) = asc_insert k v (bm_entries m)"
  "bm_entries (bm_remove k m) = asc_remove k (bm_entries m)"
  "bm_entries (bm_update_all f m) = map (\<lambda>e. (fst e, f (snd e))) (bm_entries m)"
  by (transfer, simp)+

lemma ascending_bm_entries [simp]: "ascending (bm_entries m)"
  using bm_entries [of m] by simp

lemma distinct_bm_keys [simp]: "distinct (bm_keys m)"
  by (simp add: bm_keys_def ascending_distinct)

lemma ascending_bm_keys [simp]: "sorted_wrt (<) (bm_keys m)"
  by (simp add: bm_keys_def)

lemma bm_get_simps [simp]:
  "bm_get bm_empty = Map.empty"
  "bm_get (bm_insert k v m) = (bm_get m)(k \<mapsto> v)"
  "bm_get (bm_remove k m) = (bm_get m)(k := None)"
  by (auto simp: bm_get_def map_of_asc_insert map_of_asc_remove)

lemma bm_get_update_all [simp]: "bm_get (bm_update_all f m) k = map_option f (bm_get m k)"
  by (simp add: bm_get_def map_of_map [unfolded case_prod_beta])

lemma bm_eqI: "(\<And>k. bm_get m k = bm_get m' k) \<Longrightarrow> m = m'"
  by (metis (no_types, lifting) ascending_bm_entries ascending_ext bm_entries_inject bm_get_def ext)

lemma bm_get_iff: "bm_get m k = Some v \<longleftrightarrow> (k, v) \<in> set (bm_entries m)"
  by (simp add: bm_get_def ascending_distinct)

lemma set_bm_values: "v \<in> set (bm_values m) \<longleftrightarrow> (\<exists>k. bm_get m k = Some v)"
  by (force simp: bm_values_def bm_get_iff)

lemma set_bm_keys: "set (bm_keys m) = dom (bm_get m)"
proof -
  have "bm_get m = map_of (bm_entries m)" by (rule ext) (simp add: bm_get_def)
  then show ?thesis by (simp add: bm_keys_def dom_map_of_conv_image_fst)
qed

lemma bm_contains_iff: "bm_contains m k \<longleftrightarrow> k \<in> set (bm_keys m)"
  by (auto simp: bm_contains_def set_bm_keys)

lemma finite_dom_bm_get [simp]: "finite (dom (bm_get m))"
  by (simp flip: set_bm_keys)

lemma bm_len_card: "bm_len m = card (dom (bm_get m))"
  by (metis bm_keys_def bm_len_def distinct_bm_keys distinct_card length_map set_bm_keys)

lemma bm_len_0 [simp]: "bm_len m = 0 \<longleftrightarrow> m = bm_empty"
  by (metis bm_entries_inject bm_entries_simps(1) bm_len_def length_0_conv)

lemma bm_entries_Nil [simp]: "bm_entries m = [] \<longleftrightarrow> m = bm_empty"
  by (metis bm_entries_inject bm_entries_simps(1))

lemma bm_insert_not_empty [simp]: "bm_insert k v m \<noteq> bm_empty"
proof -
  have "bm_get (bm_insert k v m) k \<noteq> bm_get bm_empty k" by simp
  then show ?thesis by metis
qed

lemma bm_remove_empty [simp]: "bm_remove k bm_empty = bm_empty"
  by (rule bm_eqI) simp

instantiation bmap :: (linorder, equal) equal
begin

definition "HOL.equal m m' \<longleftrightarrow> bm_entries m = bm_entries m'"

instance
  by standard (simp add: equal_bmap_def bm_entries_inject)

end

instantiation bmap :: (linorder, type) size
begin

definition "size m = bm_len m"

instance ..

end

section \<open>The interface\<close>

locale finite_map =
  fixes empty :: "'m"
    and put :: "'k \<Rightarrow> 'v \<Rightarrow> 'm \<Rightarrow> 'm"
    and del :: "'k \<Rightarrow> 'm \<Rightarrow> 'm"
    and get :: "'m \<Rightarrow> 'k \<Rightarrow> 'v option"
    and entries :: "'m \<Rightarrow> ('k \<times> 'v) list"
  assumes get_empty: "get empty k = None"
    and get_put: "get (put k v m) = (get m)(k \<mapsto> v)"
    and get_del: "get (del k m) = (get m)(k := None)"
    and extensional: "get m = get m' \<Longrightarrow> m = m'"
    and entries_get: "set (entries m) = {(k, v). get m k = Some v}"
    and entries_distinct: "distinct (map fst (entries m))"
begin

lemma put_put: "put k v (put k w m) = put k v m"
  by (rule extensional) (simp add: get_put)

lemma put_commute: "k \<noteq> k' \<Longrightarrow> put k v (put k' v' m) = put k' v' (put k v m)"
  by (rule extensional) (simp add: get_put fun_upd_twist)

lemma put_same: "get m k = Some v \<Longrightarrow> put k v m = m"
  by (rule extensional) (auto simp: get_put)

lemma del_put: "del k (put k v m) = del k m"
  by (rule extensional) (simp add: get_put get_del)

lemma get_foldl:
  "distinct (map fst es) \<Longrightarrow>
   get (foldl (\<lambda>m (k, v). put k v m) m es) = get m ++ map_of es"
proof (induction es arbitrary: m)
  case (Cons e es)
  obtain k v where e: "e = (k, v)" by (cases e)
  with Cons have "k \<notin> dom (map_of es)" by (simp add: dom_map_of_conv_image_fst)
  then have "(get m)(k \<mapsto> v) ++ map_of es = get m ++ map_of (e # es)"
    using e by (auto simp: map_add_def fun_eq_iff split: option.splits)
  moreover have "get (foldl (\<lambda>m (k, v). put k v m) m (e # es)) = (get m)(k \<mapsto> v) ++ map_of es"
    using Cons.IH [of "put k v m"] Cons.prems e by (simp add: get_put fun_upd_def)
  ultimately show ?case by (rule trans [rotated])
qed simp

lemma rebuild:
  assumes "set es = set (entries m)" "distinct (map fst es)"
  shows "foldl (\<lambda>m (k, v). put k v m) empty es = m"
proof (rule extensional, rule ext)
  fix k
  have "map_of es k = Some v \<longleftrightarrow> get m k = Some v" for v
    using assms by (simp add: entries_get)
  then have "map_of es k = get m k"
    by (metis not_None_eq)
  then show "get (foldl (\<lambda>m (k, v). put k v m) empty es) k = get m k"
    using assms(2) by (simp add: get_foldl get_empty map_add_def split: option.splits)
qed

lemmas rebuild_self = rebuild [OF refl entries_distinct]

end

interpretation bm: finite_map bm_empty bm_insert bm_remove bm_get bm_entries
proof unfold_locales
  fix m m' :: "('a::linorder, 'b) bmap"
  show "bm_get m = bm_get m' \<Longrightarrow> m = m'" by (auto intro: bm_eqI)
  show "set (bm_entries m) = {(k, v). bm_get m k = Some v}" by (auto simp: bm_get_iff)
  show "distinct (map fst (bm_entries m))" by (simp add: ascending_distinct)
qed simp_all

lemma bm_of_list_perm:
  "distinct (map fst es) \<Longrightarrow> set es = set (bm_entries m) \<Longrightarrow> bm_of_list es = m"
  unfolding bm_of_list_def by (rule bm.rebuild)

lemma bm_of_list_entries [simp]: "bm_of_list (bm_entries m) = m"
  unfolding bm_of_list_def by (rule bm.rebuild_self)

lemma set_bm_keys_of_list: "set (bm_keys (bm_of_list es)) = fst ` set es"
proof (induction es rule: rev_induct)
  case (snoc e es)
  have "bm_of_list (es @ [e]) = bm_insert (fst e) (snd e) (bm_of_list es)"
    by (simp add: bm_of_list_def case_prod_beta)
  with snoc show ?case by (simp add: bm_keys_def asc_insert_keys)
qed (simp add: bm_of_list_def bm_keys_def)

section \<open>Maps of maps\<close>

text \<open>Both registries keep a map of versions per name, and never leave one empty.\<close>

lemma bmap_nonempty: "m \<noteq> bm_empty \<Longrightarrow> \<exists>k v. bm_get m k = Some v"
  by (metis bm_eqI bm_get_simps(1) not_None_eq)

lemma nested_eqI:
  assumes "\<And>n. bm_get m n \<noteq> Some bm_empty" "\<And>n. bm_get m' n \<noteq> Some bm_empty"
    and "\<And>n k. Option.bind (bm_get m n) (\<lambda>s. bm_get s k) = Option.bind (bm_get m' n) (\<lambda>s. bm_get s k)"
  shows "m = m'"
proof (rule bm_eqI)
  fix n
  note e = assms(3) [of n]
  show "bm_get m n = bm_get m' n"
  proof (cases "bm_get m n"; cases "bm_get m' n")
    fix s assume s: "bm_get m n = None" "bm_get m' n = Some s"
    then obtain k v where "bm_get s k = Some v" using assms(2) bmap_nonempty by metis
    then show ?thesis using e [of k] s by simp
  next
    fix s assume s: "bm_get m n = Some s" "bm_get m' n = None"
    then obtain k v where "bm_get s k = Some v" using assms(1) bmap_nonempty by metis
    then show ?thesis using e [of k] s by simp
  next
    fix s s' assume s: "bm_get m n = Some s" "bm_get m' n = Some s'"
    then have "s = s'" using e by (intro bm_eqI) simp
    then show ?thesis using s by simp
  qed simp
qed

section \<open>Searching keys from the highest down\<close>

text \<open>
  \<open>keys().rev().find(P)\<close>: both registries of the repository choose a version this way.
\<close>

lemma find_rev_ascending:
  assumes "sorted_wrt (<) (ks :: 'k::linorder list)"
  shows "find P (rev ks) = Some k \<longleftrightarrow> k \<in> set ks \<and> P k \<and> (\<forall>j \<in> set ks. P j \<longrightarrow> j \<le> k)"
  using assms
proof (induction ks rule: rev_induct)
  case (snoc x ks)
  then have "\<forall>j \<in> set ks. j < x" by (simp add: sorted_wrt_append)
  with snoc show ?case
    by (auto simp: sorted_wrt_append)
qed simp

lemma find_rev_None: "find P (rev ks) = None \<longleftrightarrow> (\<forall>k \<in> set ks. \<not> P k)"
  by (auto simp: find_None_iff)

end
