(* ===== verification/Merkle.thy ===== *)
theory Merkle imports BTree_Map begin

text \<open>
  \<open>kai-os/state/src/merkle.rs\<close>: the Merkle tree over the entries of the state in key order, its
  root, inclusion proofs and their verification. The last node of an odd level is paired with
  itself.

  The lemmas show that a proof built for a key always verifies and that building it never reads
  out of range, that only members of the tree have a proof of full depth, and that the root
  commits to the whole map when no key contains a bar and no key has the length of a printed
  digest. Both restrictions are needed: the last section exhibits pairs of different maps with
  the same root for every hash function.
\<close>

section \<open>The tree\<close>

definition EMPTY_ROOT :: string where
  "EMPTY_ROOT = ''e3b0c44298fc1c149afbf4c8996fb92427ae41e4649b934ca495991b7852b855''"

definition leaf_hash :: "digest \<Rightarrow> string \<Rightarrow> string \<Rightarrow> string" where
  "leaf_hash D key value = sha_str D (key @ ''|'' @ value)"

text \<open>One round of the loop of \<open>levels\<close>: \<open>prev.chunks(2)\<close>, each chunk hashed.\<close>

fun next_level :: "digest \<Rightarrow> string list \<Rightarrow> string list" where
  "next_level D [] = []"
| "next_level D [x] = [sha_str D (x @ ''|'' @ x)]"
| "next_level D (x # y # zs) = sha_str D (x @ ''|'' @ y) # next_level D zs"

lemma length_next_level [simp]: "length (next_level D xs) = (length xs + 1) div 2"
  by (induction D xs rule: next_level.induct) auto

text \<open>The loop: push the next level until the last one has at most one node.\<close>

function level_loop :: "digest \<Rightarrow> string list \<Rightarrow> string list list" where
  "level_loop D prev =
     (if length prev \<le> 1 then [prev] else prev # level_loop D (next_level D prev))"
  by pat_completeness auto
termination
  by (relation "measure (\<lambda>(D, prev). length prev)") auto

declare level_loop.simps [simp del]

definition leaves :: "digest \<Rightarrow> (string, string) bmap \<Rightarrow> string list" where
  "leaves D entries = map (\<lambda>(k, v). leaf_hash D k v) (bm_entries entries)"

lemma leaves_Nil [simp]: "leaves D m = [] \<longleftrightarrow> m = bm_empty"
  by (simp add: leaves_def)

definition levels :: "digest \<Rightarrow> (string, string) bmap \<Rightarrow> string list list" where
  "levels D entries =
     (let l0 = leaves D entries in if l0 = [] then [l0] else level_loop D l0)"

definition merkle_root :: "digest \<Rightarrow> (string, string) bmap \<Rightarrow> string" where
  "merkle_root D entries =
     (if bm_entries entries = [] then EMPTY_ROOT
      else case last (levels D entries) of [] \<Rightarrow> EMPTY_ROOT | h # _ \<Rightarrow> h)"

section \<open>Inclusion proofs\<close>

record merkle_proof =
  siblings :: "(string \<times> bool) list"

text \<open>\<open>entries.keys().position(...)\<close>.\<close>

fun position :: "('a \<Rightarrow> bool) \<Rightarrow> 'a list \<Rightarrow> nat option" where
  "position P [] = None"
| "position P (x # xs) = (if P x then Some 0 else map_option Suc (position P xs))"

definition index :: "'a list \<Rightarrow> nat \<Rightarrow> 'a option" where
  "index xs i = (if i < length xs then Some (xs ! i) else None)"

text \<open>
  The loop of \<open>prove\<close> over all levels but the last; a read out of range would panic
  (\<open>None\<close>).
\<close>

fun prove_loop :: "string list list \<Rightarrow> nat \<Rightarrow> (string \<times> bool) list option" where
  "prove_loop [] i = Some []"
| "prove_loop (level # rest) i =
     do {
       sib \<leftarrow>
         (if i mod 2 = 0 then
            (if i + 1 < length level then map_option (\<lambda>h. (h, True)) (index level (i + 1))
             else map_option (\<lambda>h. (h, True)) (index level i))
          else map_option (\<lambda>h. (h, False)) (index level (i - 1)));
       more \<leftarrow> prove_loop rest (i div 2);
       Some (sib # more)
     }"

text \<open>The inner option is the code's \<open>Option<MerkleProof>\<close>, the outer one a panic.\<close>

definition prove :: "digest \<Rightarrow> (string, string) bmap \<Rightarrow> string \<Rightarrow> merkle_proof option option" where
  "prove D entries key =
     (case position (\<lambda>k. k = key) (bm_keys entries) of
        None \<Rightarrow> Some None
      | Some idx \<Rightarrow>
          let lvls = levels D entries in
          map_option (\<lambda>sibs. Some \<lparr>siblings = sibs\<rparr>)
            (prove_loop (take (length lvls - 1) lvls) idx))"

definition proof_step :: "digest \<Rightarrow> string \<Rightarrow> string \<times> bool \<Rightarrow> string" where
  "proof_step D cur s =
     (if snd s then sha_str D (cur @ ''|'' @ fst s) else sha_str D (fst s @ ''|'' @ cur))"

definition verify_proof :: "digest \<Rightarrow> string \<Rightarrow> merkle_proof \<Rightarrow> string \<Rightarrow> bool" where
  "verify_proof D leaf pr root = (foldl (proof_step D) leaf (siblings pr) = root)"

section \<open>Completeness\<close>

lemma position_None: "position P xs = None \<longleftrightarrow> (\<forall>x \<in> set xs. \<not> P x)"
  by (induction xs) auto

lemma position_Some: "position P xs = Some i \<Longrightarrow> i < length xs \<and> P (xs ! i)"
  by (induction xs arbitrary: i) (auto split: if_splits)

lemma nth_next_level:
  "j < length (next_level D xs) \<Longrightarrow>
   next_level D xs ! j =
     sha_str D (xs ! (2 * j) @ ''|'' @ (if 2 * j + 1 < length xs then xs ! (2 * j + 1) else xs ! (2 * j)))"
proof (induction D xs arbitrary: j rule: next_level.induct)
  case (3 D x y zs)
  show ?case
  proof (cases j)
    case (Suc i)
    with 3 show ?thesis by simp
  qed simp
qed auto

lemma level_loop_nonempty [simp]: "level_loop D xs \<noteq> []"
  by (subst level_loop.simps) simp

lemma next_level_Nil [simp]: "next_level D xs = [] \<longleftrightarrow> xs = []"
  by (cases "(D, xs)" rule: next_level.cases) auto

lemma last_level_length: "xs \<noteq> [] \<Longrightarrow> length (last (level_loop D xs)) = 1"
proof (induction D xs rule: level_loop.induct)
  case (1 D xs)
  show ?case
  proof (cases "length xs \<le> 1")
    case True
    with "1.prems" show ?thesis by (simp add: level_loop.simps [of D xs] le_Suc_eq)
  next
    case False
    with "1" show ?thesis by (auto simp: level_loop.simps [of D xs])
  qed
qed

text \<open>The root of a non-empty leaf list.\<close>

definition tree_root :: "digest \<Rightarrow> string list \<Rightarrow> string" where
  "tree_root D xs = hd (last (level_loop D xs))"

lemma tree_root_single [simp]: "tree_root D [x] = x"
  by (simp add: tree_root_def level_loop.simps)

lemma tree_root_next: "1 < length xs \<Longrightarrow> tree_root D xs = tree_root D (next_level D xs)"
  by (simp add: tree_root_def level_loop.simps [of D xs])

lemma merkle_root_alt:
  "merkle_root D m = (if m = bm_empty then EMPTY_ROOT else tree_root D (leaves D m))"
proof (cases "m = bm_empty")
  case False
  then have "leaves D m \<noteq> []" by (simp add: leaves_def)
  then show ?thesis
    using False last_level_length [of "leaves D m" D]
    by (auto simp: merkle_root_def levels_def tree_root_def split: list.splits)
qed (simp add: merkle_root_def)

lemma prove_loop_complete:
  assumes "i < length xs"
  shows "\<exists>sibs. prove_loop (butlast (level_loop D xs)) i = Some sibs \<and>
           length sibs = length (level_loop D xs) - 1 \<and>
           foldl (proof_step D) (xs ! i) sibs = tree_root D xs"
  using assms
proof (induction D xs arbitrary: i rule: level_loop.induct)
  case (1 D xs)
  show ?case
  proof (cases "length xs \<le> 1")
    case True
    with "1.prems" have "xs = [xs ! 0]" "i = 0"
      by (auto simp: le_Suc_eq length_Suc_conv)
    with True show ?thesis
      by (metis One_nat_def butlast.simps(2) diff_Suc_1 foldl_Nil level_loop.simps length_Cons
          list.size(3) prove_loop.simps(1) tree_root_single)
  next
    case False
    define ys where "ys = next_level D xs"
    define sib where "sib = (if i mod 2 = 0
      then (if i + 1 < length xs then xs ! (i + 1) else xs ! i, True) else (xs ! (i - 1), False))"
    have j: "i div 2 < length ys" using "1.prems" by (auto simp: ys_def)
    have parent: "ys ! (i div 2) = proof_step D (xs ! i) sib"
    proof -
      have "2 * (i div 2) = (if i mod 2 = 0 then i else i - 1)" by presburger
      moreover have "i mod 2 = 1 \<Longrightarrow> i - 1 + 1 = i" by presburger
      ultimately show ?thesis
        using j "1.prems" nth_next_level [of "i div 2" D xs]
        by (auto simp: ys_def sib_def proof_step_def)
    qed
    obtain sibs where sibs: "prove_loop (butlast (level_loop D ys)) (i div 2) = Some sibs"
      "length sibs = length (level_loop D ys) - 1"
      "foldl (proof_step D) (ys ! (i div 2)) sibs = tree_root D ys"
      using "1.IH" [OF False, of "i div 2"] j by (auto simp: ys_def)
    have "level_loop D xs = xs # level_loop D ys"
      using False by (simp add: level_loop.simps [of D xs] ys_def)
    moreover have "prove_loop (xs # butlast (level_loop D ys)) i = Some (sib # sibs)"
      using sibs(1) "1.prems" by (auto simp: sib_def index_def)
    ultimately show ?thesis
      using sibs(2,3) parent False by (intro exI [of _ "sib # sibs"])
        (simp add: tree_root_next ys_def [symmetric] Suc_diff_le Suc_le_eq)
  qed
qed

lemma position_keys:
  "bm_get m k = Some v \<Longrightarrow>
   \<exists>i. position (\<lambda>j. j = k) (bm_keys m) = Some i \<and> i < length (leaves D m) \<and>
       leaves D m ! i = leaf_hash D k v"
proof -
  assume get: "bm_get m k = Some v"
  then have "k \<in> set (bm_keys m)" by (auto simp: set_bm_keys)
  then obtain i where i: "position (\<lambda>j. j = k) (bm_keys m) = Some i"
    by (metis (mono_tags, lifting) not_None_eq position_None)
  from position_Some [OF i] have lt: "i < length (bm_entries m)" and "fst (bm_entries m ! i) = k"
    by (auto simp: bm_keys_def)
  moreover from this have "snd (bm_entries m ! i) = v"
    using get by (metis bm_get_iff nth_mem option.inject prod.collapse)
  ultimately show ?thesis
    using i by (auto simp: leaves_def split: prod.splits)
qed

lemma levels_member: "k \<in> dom (bm_get m) \<Longrightarrow> levels D m = level_loop D (leaves D m)"
  by (auto simp: levels_def leaves_def Let_def)

lemma prove_member:
  assumes "bm_get m k = Some v"
  shows "\<exists>pr. prove D m k = Some (Some pr) \<and>
           length (siblings pr) = length (levels D m) - 1 \<and>
           verify_proof D (leaf_hash D k v) pr (merkle_root D m)"
proof -
  obtain i where i: "position (\<lambda>j. j = k) (bm_keys m) = Some i" "i < length (leaves D m)"
    "leaves D m ! i = leaf_hash D k v"
    using position_keys [OF assms] by blast
  have lv: "levels D m = level_loop D (leaves D m)"
    using assms by (intro levels_member) auto
  have ne: "m \<noteq> bm_empty" using assms by auto
  obtain sibs where "prove_loop (butlast (level_loop D (leaves D m))) i = Some sibs"
    "length sibs = length (level_loop D (leaves D m)) - 1"
    "foldl (proof_step D) (leaf_hash D k v) sibs = tree_root D (leaves D m)"
    using prove_loop_complete [OF i(2), of D] i(3) by auto
  with i(1) ne show ?thesis
    by (intro exI [of _ "\<lparr>siblings = sibs\<rparr>"])
      (simp add: prove_def lv merkle_root_alt verify_proof_def Let_def butlast_conv_take)
qed

lemma prove_absent: "bm_get m k = None \<Longrightarrow> prove D m k = Some None"
proof -
  assume "bm_get m k = None"
  then have "k \<notin> set (bm_keys m)" by (auto simp: set_bm_keys)
  then have "position (\<lambda>j. j = k) (bm_keys m) = None" by (auto simp: position_None)
  then show ?thesis by (simp add: prove_def)
qed

section \<open>Soundness and binding\<close>

text \<open>The pairs one round hashes, and every string hashed on the way from a level to the root.\<close>

fun pair_up :: "'a list \<Rightarrow> ('a \<times> 'a) list" where
  "pair_up [] = []"
| "pair_up [x] = [(x, x)]"
| "pair_up (x # y # zs) = (x, y) # pair_up zs"

definition node_input :: "string \<times> string \<Rightarrow> string" where
  "node_input p = fst p @ ''|'' @ snd p"

definition leaf_input :: "string \<times> string \<Rightarrow> string" where
  "leaf_input e = fst e @ ''|'' @ snd e"

definition node_inputs :: "digest \<Rightarrow> string list \<Rightarrow> string set" where
  "node_inputs D xs = (\<Union>l \<in> set (butlast (level_loop D xs)). node_input ` set (pair_up l))"

definition root_inputs :: "digest \<Rightarrow> (string, string) bmap \<Rightarrow> string set" where
  "root_inputs D m = leaf_input ` set (bm_entries m) \<union> node_inputs D (leaves D m)"

lemma next_level_pairs: "next_level D xs = map (\<lambda>p. sha_str D (node_input p)) (pair_up xs)"
  by (induction D xs rule: next_level.induct) (simp_all add: node_input_def)

lemma set_pair_up: "p \<in> set (pair_up xs) \<Longrightarrow> fst p \<in> set xs \<and> snd p \<in> set xs"
  by (induction xs rule: pair_up.induct) auto

lemma distinct_pair_up: "distinct xs \<Longrightarrow> distinct (pair_up xs)"
  by (induction xs rule: pair_up.induct) (auto dest: set_pair_up)

lemma pair_up_inject: "distinct xs \<Longrightarrow> distinct ys \<Longrightarrow> pair_up xs = pair_up ys \<Longrightarrow> xs = ys"
proof (induction xs arbitrary: ys rule: pair_up.induct)
  case 1
  then show ?case by (cases ys rule: pair_up.cases) auto
next
  case (2 x)
  then show ?case by (cases ys rule: pair_up.cases) auto
next
  case (3 x y zs)
  then show ?case by (cases ys rule: pair_up.cases) auto
qed

lemma node_inputs_step:
  "1 < length xs \<Longrightarrow>
   node_inputs D xs = node_input ` set (pair_up xs) \<union> node_inputs D (next_level D xs)"
  by (simp add: node_inputs_def level_loop.simps [of D xs])

lemma node_input_inject:
  "length (fst p) = 64 \<Longrightarrow> length (fst q) = 64 \<Longrightarrow> node_input p = node_input q \<longleftrightarrow> p = q"
  by (auto simp: node_input_def prod_eq_iff)

definition hashes :: "string list \<Rightarrow> bool" where
  "hashes xs \<longleftrightarrow> (\<forall>x \<in> set xs. digest_text x)"

lemma hashes_next_level: "digest32 D \<Longrightarrow> hashes (next_level D xs)"
  by (auto simp: hashes_def next_level_pairs)

lemma hashes_leaves: "digest32 D \<Longrightarrow> hashes (leaves D m)"
  by (auto simp: hashes_def leaves_def leaf_hash_def)

lemma hash_tree_root:
  assumes "digest32 D"
  shows "hashes xs \<Longrightarrow> xs \<noteq> [] \<Longrightarrow> hashes [tree_root D xs]"
proof (induction "length xs" arbitrary: xs rule: less_induct)
  case less
  show ?case
  proof (cases "length xs \<le> 1")
    case True
    with less.prems show ?thesis by (auto simp: le_Suc_eq length_Suc_conv)
  next
    case False
    with less show ?thesis
      by (simp add: tree_root_next hashes_next_level [OF assms])
  qed
qed

lemma hash_merkle_root: "digest32 D \<Longrightarrow> hashes [merkle_root D m]"
  using hash_tree_root [of D "leaves D m"]
  by (cases "m = bm_empty") (simp_all add: merkle_root_alt hashes_leaves, simp add: hashes_def digest_text_def EMPTY_ROOT_def)

text \<open>The strings hashed while a proof is checked.\<close>

fun path_inputs :: "digest \<Rightarrow> string \<Rightarrow> (string \<times> bool) list \<Rightarrow> string set" where
  "path_inputs D cur [] = {}"
| "path_inputs D cur (s # ss) =
     insert (if snd s then cur @ ''|'' @ fst s else fst s @ ''|'' @ cur)
       (path_inputs D (proof_step D cur s) ss)"

lemma proof_sound_tree:
  assumes "digest32 D" "hashes xs" "xs \<noteq> []" "length cur = 64"
    and "length sibs = length (level_loop D xs) - 1"
    and "foldl (proof_step D) cur sibs = tree_root D xs"
    and "collision_free D (path_inputs D cur sibs \<union> node_inputs D xs)"
  shows "cur \<in> set xs"
  using assms
proof (induction D xs arbitrary: cur sibs rule: level_loop.induct)
  case (1 D xs)
  show ?case
  proof (cases "length xs \<le> 1")
    case True
    with "1.prems" obtain x where "xs = [x]" by (auto simp: le_Suc_eq length_Suc_conv)
    with "1.prems" show ?thesis by (simp add: level_loop.simps)
  next
    case False
    define ys where "ys = next_level D xs"
    have lv: "level_loop D xs = xs # level_loop D ys"
      using False by (simp add: level_loop.simps [of D xs] ys_def)
    then obtain s ss where sibs: "sibs = s # ss"
      using "1.prems"(5) by (cases sibs) auto
    define cur' where "cur' = proof_step D cur s"
    have inp: "node_inputs D xs = node_input ` set (pair_up xs) \<union> node_inputs D ys"
      using False by (simp add: node_inputs_step ys_def)
    define inpt where "inpt = (if snd s then cur @ ''|'' @ fst s else fst s @ ''|'' @ cur)"
    have cur': "cur' = sha_str D inpt"
      by (simp add: cur'_def inpt_def proof_step_def)
    have "cur' \<in> set ys"
      unfolding ys_def
    proof (rule "1.IH" [OF False])
      show "collision_free D (path_inputs D cur' ss \<union> node_inputs D (next_level D xs))"
        by (rule collision_free_mono [OF "1.prems"(7)]) (auto simp: sibs inp cur'_def ys_def)
      show "foldl (proof_step D) cur' ss = tree_root D (next_level D xs)"
        using "1.prems"(6) False by (simp add: sibs cur'_def tree_root_next)
    qed (use "1.prems"(1,3,5) lv in \<open>simp_all add: hashes_next_level sibs ys_def cur'\<close>)
    then obtain p where p: "p \<in> set (pair_up xs)" "sha_str D inpt = sha_str D (node_input p)"
      by (auto simp: ys_def next_level_pairs cur')
    then have "inpt = node_input p"
      using collision_freeD [OF "1.prems"(7)] by (simp add: sibs inp inpt_def)
    moreover have "length (snd p) = 64" "length (fst p) = 64"
      using set_pair_up [OF p(1)] "1.prems"(2) by (auto simp: hashes_def digest_text_parts)
    ultimately have "cur = fst p \<or> cur = snd p"
      using "1.prems"(4) by (auto simp: inpt_def node_input_def split: if_splits)
    then show ?thesis using set_pair_up [OF p(1)] by auto
  qed
qed

text \<open>
  Two trees of the same depth over pairwise different nodes with the same root have the same
  nodes.
\<close>

lemma distinct_next_level:
  assumes "distinct xs" "hashes xs" "1 < length xs" "collision_free D (node_inputs D xs)"
  shows "distinct (next_level D xs)"
proof -
  have "inj_on (\<lambda>p. sha_str D (node_input p)) (set (pair_up xs))"
  proof (rule inj_onI)
    fix p q assume pq: "p \<in> set (pair_up xs)" "q \<in> set (pair_up xs)"
      and eq: "sha_str D (node_input p) = sha_str D (node_input q)"
    from eq have "node_input p = node_input q"
      using collision_freeD [OF assms(4)] pq assms(3) by (simp add: node_inputs_step)
    then show "p = q"
      using pq assms(2) by (subst (asm) node_input_inject) (auto simp: hashes_def digest_text_parts dest!: set_pair_up)
  qed
  then show ?thesis
    using assms(1) by (simp add: next_level_pairs distinct_map distinct_pair_up)
qed

lemma level_loop_depth: "length (level_loop D xs) = 1 \<longleftrightarrow> length xs \<le> 1"
  by (simp add: level_loop.simps [of D xs])

lemma next_level_inject:
  assumes "next_level D xs = next_level D ys" "distinct xs" "distinct ys" "hashes xs" "hashes ys"
    and "collision_free D (node_input ` set (pair_up xs) \<union> node_input ` set (pair_up ys))"
  shows "xs = ys"
proof -
  have "inj_on (\<lambda>p. sha_str D (node_input p)) (set (pair_up xs) \<union> set (pair_up ys))"
  proof (rule inj_onI)
    fix p q assume pq: "p \<in> set (pair_up xs) \<union> set (pair_up ys)"
      "q \<in> set (pair_up xs) \<union> set (pair_up ys)"
      and eq: "sha_str D (node_input p) = sha_str D (node_input q)"
    from eq have "node_input p = node_input q"
      using collision_freeD [OF assms(6)] pq by (simp add: image_Un [symmetric])
    then show "p = q"
      using pq assms(4,5)
      by (subst (asm) node_input_inject) (auto simp: hashes_def digest_text_parts dest!: set_pair_up)
  qed
  then have "pair_up xs = pair_up ys"
    using assms(1) by (auto simp: next_level_pairs intro: map_inj_on)
  then show ?thesis by (rule pair_up_inject [OF assms(2,3)])
qed

lemma tree_root_same_depth:
  assumes "digest32 D" "distinct xs" "distinct ys" "hashes xs" "hashes ys" "xs \<noteq> []" "ys \<noteq> []"
    and "collision_free D (node_inputs D xs \<union> node_inputs D ys)"
    and "length (level_loop D xs) = length (level_loop D ys)"
    and "tree_root D xs = tree_root D ys"
  shows "xs = ys"
  using assms
proof (induction D xs arbitrary: ys rule: level_loop.induct)
  case (1 D xs)
  show ?case
  proof (cases "length xs \<le> 1")
    case True
    then have "length ys \<le> 1" using "1.prems"(9) level_loop_depth [of D] by metis
    with True "1.prems" show ?thesis by (auto simp: le_Suc_eq length_Suc_conv)
  next
    case False
    then have long: "1 < length xs" "1 < length ys"
      using "1.prems"(9) level_loop_depth [of D] by (metis not_less)+
    have cf: "collision_free D (node_inputs D xs)" "collision_free D (node_inputs D ys)"
      using "1.prems"(8) by (auto elim: collision_free_mono)
    have lv: "level_loop D xs = xs # level_loop D (next_level D xs)"
      "level_loop D ys = ys # level_loop D (next_level D ys)"
      using long by (simp_all add: level_loop.simps [of D xs] level_loop.simps [of D ys])
    have "next_level D xs = next_level D ys"
    proof (rule "1.IH" [OF False])
      show "collision_free D (node_inputs D (next_level D xs) \<union> node_inputs D (next_level D ys))"
        by (rule collision_free_mono [OF "1.prems"(8)]) (use long in \<open>auto simp: node_inputs_step\<close>)
      show "tree_root D (next_level D xs) = tree_root D (next_level D ys)"
        using "1.prems"(10) long by (simp add: tree_root_next)
      show "length (level_loop D (next_level D xs)) = length (level_loop D (next_level D ys))"
        using "1.prems"(9) lv by simp
    qed (use "1.prems"(1-7) long cf in \<open>simp_all add: hashes_next_level distinct_next_level\<close>)
    then show ?thesis
    proof (rule next_level_inject)
      show "collision_free D (node_input ` set (pair_up xs) \<union> node_input ` set (pair_up ys))"
        by (rule collision_free_mono [OF "1.prems"(8)]) (use long in \<open>auto simp: node_inputs_step\<close>)
    qed (use "1.prems" in simp_all)
  qed
qed

text \<open>Every level above the leaves, seen as a tree of its own.\<close>

lemma level_loop_nth:
  assumes "digest32 D" "distinct xs" "hashes xs" "xs \<noteq> []" "collision_free D (node_inputs D xs)"
    and "j < length (level_loop D xs)"
  shows "level_loop D (level_loop D xs ! j) = drop j (level_loop D xs) \<and>
    distinct (level_loop D xs ! j) \<and> hashes (level_loop D xs ! j) \<and> level_loop D xs ! j \<noteq> [] \<and>
    node_inputs D (level_loop D xs ! j) \<subseteq> node_inputs D xs \<and>
    (0 < j \<longrightarrow> (\<forall>x \<in> set (level_loop D xs ! j). \<exists>p. node_input p \<in> node_inputs D xs \<and>
       x = sha_str D (node_input p) \<and> length (fst p) = 64 \<and> CHR ''|'' \<notin> set (fst p)))"
  using assms
proof (induction D xs arbitrary: j rule: level_loop.induct)
  case (1 D xs)
  show ?case
  proof (cases j)
    case 0
    with "1.prems" show ?thesis by (subst (1 3 4 5 6 7) level_loop.simps) (auto simp: level_loop.simps [of D xs])
  next
    case (Suc i)
    have False: "\<not> length xs \<le> 1"
      using Suc "1.prems"(6) level_loop_depth [of D xs] by (cases "length xs \<le> 1") auto
    define ys where "ys = next_level D xs"
    have lv: "level_loop D xs = xs # level_loop D ys"
      using False by (simp add: level_loop.simps [of D xs] ys_def)
    have inp: "node_inputs D xs = node_input ` set (pair_up xs) \<union> node_inputs D ys"
      using False by (simp add: node_inputs_step ys_def)
    have ys: "distinct ys" "hashes ys" "ys \<noteq> []" "collision_free D (node_inputs D ys)"
      using "1.prems" False inp
      by (auto simp: ys_def hashes_next_level intro!: distinct_next_level elim: collision_free_mono)
    have "i < length (level_loop D ys)" using "1.prems"(6) Suc lv by simp
    note IH = "1.IH" [OF False, folded ys_def, OF "1.prems"(1) ys this]
    have first: "\<exists>p. node_input p \<in> node_inputs D xs \<and> x = sha_str D (node_input p) \<and>
        length (fst p) = 64 \<and> CHR ''|'' \<notin> set (fst p)" if "x \<in> set ys" for x
      using that "1.prems"(3) unfolding inp
      by (fastforce simp: ys_def next_level_pairs hashes_def digest_text_parts dest: set_pair_up)
    show ?thesis
    proof (cases "i = 0")
      case True
      have "level_loop D ys ! 0 = ys" by (simp add: level_loop.simps [of D ys])
      then show ?thesis using first IH True Suc lv inp by auto
    next
      case i: False
      then show ?thesis using IH Suc lv inp by simp blast
    qed
  qed
qed

text \<open>
  Keys that separate leaves from each other and from inner nodes: no bar, and not as long as a
  printed digest.
\<close>

definition plain_key :: "string \<Rightarrow> bool" where
  "plain_key k \<longleftrightarrow> CHR ''|'' \<notin> set k \<and> length k \<noteq> 64"

definition plain_keys :: "(string, string) bmap \<Rightarrow> bool" where
  "plain_keys m \<longleftrightarrow> (\<forall>k \<in> set (bm_keys m). plain_key k)"

lemma leaves_alt: "leaves D m = map (\<lambda>e. sha_str D (leaf_input e)) (bm_entries m)"
  by (auto simp: leaves_def leaf_hash_def leaf_input_def)

lemma leaf_input_inject:
  "plain_key (fst e) \<Longrightarrow> plain_key (fst f) \<Longrightarrow> leaf_input e = leaf_input f \<longleftrightarrow> e = f"
  by (auto simp: leaf_input_def plain_key_def prod_eq_iff dest: bar_split)

lemma leaf_not_node:
  "plain_key (fst e) \<Longrightarrow> length (fst p) = 64 \<Longrightarrow> CHR ''|'' \<notin> set (fst p) \<Longrightarrow>
   leaf_input e \<noteq> node_input p"
  by (auto simp: leaf_input_def node_input_def plain_key_def dest: bar_split)

lemma plain_keysD: "plain_keys m \<Longrightarrow> e \<in> set (bm_entries m) \<Longrightarrow> plain_key (fst e)"
  by (auto simp: plain_keys_def bm_keys_def)

lemma distinct_leaves:
  assumes "plain_keys m" "collision_free D (leaf_input ` set (bm_entries m))"
  shows "distinct (leaves D m)"
proof -
  have "inj_on (\<lambda>e. sha_str D (leaf_input e)) (set (bm_entries m))"
    by (rule inj_onI)
      (simp add: collision_freeD [OF assms(2)] leaf_input_inject plain_keysD [OF assms(1)])
  then show ?thesis
    using ascending_distinct [OF ascending_bm_entries, of m]
    by (simp add: leaves_alt distinct_map)
qed

lemma leaves_inject:
  assumes "plain_keys m" "plain_keys m'" "leaves D m = leaves D m'"
    and "collision_free D (leaf_input ` set (bm_entries m) \<union> leaf_input ` set (bm_entries m'))"
  shows "m = m'"
proof -
  have "inj_on (\<lambda>e. sha_str D (leaf_input e)) (set (bm_entries m) \<union> set (bm_entries m'))"
    using plain_keysD [OF assms(1)] plain_keysD [OF assms(2)]
    by (intro inj_onI) (auto simp: collision_freeD [OF assms(4)] leaf_input_inject)
  then have "bm_entries m = bm_entries m'"
    using assms(3) by (auto simp: leaves_alt intro: map_inj_on)
  then show ?thesis by (simp add: bm_entries_inject)
qed

lemma root_binding_ordered:
  assumes D: "digest32 D"
    and plain: "plain_keys m" "plain_keys m'"
    and cf: "collision_free D (root_inputs D m \<union> root_inputs D m')"
    and ne: "m \<noteq> bm_empty" "m' \<noteq> bm_empty"
    and depth: "length (levels D m) \<le> length (levels D m')"
    and root: "merkle_root D m = merkle_root D m'"
  shows "m = m'"
proof -
  define xs where "xs = leaves D m"
  define ys where "ys = leaves D m'"
  have cfs: "collision_free D (node_inputs D xs \<union> node_inputs D ys)"
    "collision_free D (node_inputs D ys)"
    "collision_free D (leaf_input ` set (bm_entries m))"
    "collision_free D (leaf_input ` set (bm_entries m'))"
    "collision_free D (leaf_input ` set (bm_entries m) \<union> leaf_input ` set (bm_entries m'))"
    by (auto simp: root_inputs_def xs_def ys_def intro: collision_free_mono [OF cf])
  have basic: "distinct xs" "distinct ys" "hashes xs" "hashes ys" "xs \<noteq> []" "ys \<noteq> []"
    using plain ne cfs by (simp_all add: xs_def ys_def distinct_leaves hashes_leaves [OF D])
  have lv: "levels D m = level_loop D xs" "levels D m' = level_loop D ys"
    using basic by (simp_all add: levels_def xs_def ys_def Let_def)
  define j where "j = length (level_loop D ys) - length (level_loop D xs)"
  have "j < length (level_loop D ys)"
    using level_loop_nonempty [of D xs] level_loop_nonempty [of D ys]
    unfolding j_def length_greater_0_conv [symmetric] by linarith
  note lev = level_loop_nth [OF D basic(2,4,6) cfs(2) this]
  have "xs = level_loop D ys ! j"
  proof (rule tree_root_same_depth [OF D])
    show "tree_root D xs = tree_root D (level_loop D ys ! j)"
      using root ne lev \<open>j < _\<close> by (simp add: merkle_root_alt tree_root_def xs_def ys_def)
    show "collision_free D (node_inputs D xs \<union> node_inputs D (level_loop D ys ! j))"
      by (rule collision_free_mono [OF cfs(1)]) (use lev in auto)
    show "length (level_loop D xs) = length (level_loop D (level_loop D ys ! j))"
      using lev depth lv by (simp add: j_def)
  qed (use basic lev in auto)
  moreover have "j = 0"
  proof (rule ccontr)
    assume "j \<noteq> 0"
    obtain e where e: "e \<in> set (bm_entries m)" "hd xs = sha_str D (leaf_input e)"
      using basic(5) by (cases "bm_entries m") (auto simp: xs_def leaves_alt)
    have "hd xs \<in> set (level_loop D ys ! j)" using calculation basic(5) by (metis hd_in_set)
    then obtain p where p: "node_input p \<in> node_inputs D ys" "hd xs = sha_str D (node_input p)"
      "length (fst p) = 64" "CHR ''|'' \<notin> set (fst p)"
      using lev \<open>j \<noteq> 0\<close> by blast
    have "leaf_input e = node_input p"
      using e p(1,2) collision_freeD [OF cf] by (simp add: root_inputs_def ys_def)
    then show False
      using leaf_not_node [OF plain_keysD [OF plain(1) e(1)] p(3,4)] by simp
  qed
  ultimately have "xs = ys" by (simp add: level_loop.simps [of D ys] split: if_splits)
  then show ?thesis
    using leaves_inject [OF plain _ cfs(5)] by (simp add: xs_def ys_def)
qed

lemma tree_root_is_hash:
  "xs \<noteq> [] \<Longrightarrow> tree_root D xs \<in> set xs \<union> sha_str D ` node_inputs D xs"
proof (induction "length xs" arbitrary: xs rule: less_induct)
  case less
  show ?case
  proof (cases "length xs \<le> 1")
    case True
    with less.prems show ?thesis by (auto simp: le_Suc_eq length_Suc_conv)
  next
    case False
    then have "tree_root D (next_level D xs) \<in> set (next_level D xs) \<union> sha_str D ` node_inputs D (next_level D xs)"
      using less.prems by (intro less.hyps) simp_all
    moreover have "set (next_level D xs) = sha_str D ` node_input ` set (pair_up xs)"
      by (simp add: next_level_pairs image_image)
    ultimately show ?thesis
      using False by (auto simp: tree_root_next node_inputs_step)
  qed
qed

lemma merkle_root_is_hash:
  "m \<noteq> bm_empty \<Longrightarrow> \<exists>i \<in> root_inputs D m. merkle_root D m = sha_str D i"
  using tree_root_is_hash [of "leaves D m" D]
  by (auto simp: merkle_root_alt root_inputs_def leaves_alt)

lemma root_inputs_nonempty: "i \<in> root_inputs D m \<Longrightarrow> i \<noteq> []"
  by (auto simp: root_inputs_def node_inputs_def leaf_input_def node_input_def)

lemma root_binding:
  assumes D: "digest32 D" "sha_str D [] = EMPTY_ROOT"
    and plain: "plain_keys m" "plain_keys m'"
    and cf: "collision_free D (insert [] (root_inputs D m \<union> root_inputs D m'))"
    and root: "merkle_root D m = merkle_root D m'"
  shows "m = m'"
proof -
  have empty: "merkle_root D n \<noteq> EMPTY_ROOT" if "n \<noteq> bm_empty" "n \<in> {m, m'}" for n
  proof
    assume "merkle_root D n = EMPTY_ROOT"
    with D(2) merkle_root_is_hash [OF that(1), of D]
    obtain i where i: "i \<in> root_inputs D n" "sha_str D i = sha_str D []" by metis
    then have "i = []" using that(2) collision_freeD [OF cf, of i "[]"] by auto
    with root_inputs_nonempty [OF i(1)] show False by simp
  qed
  have cf': "collision_free D (root_inputs D m \<union> root_inputs D m')"
    "collision_free D (root_inputs D m' \<union> root_inputs D m)"
    by (rule collision_free_mono [OF cf]; blast)+
  consider "m = bm_empty" | "m' = bm_empty" | "m \<noteq> bm_empty" "m' \<noteq> bm_empty" by blast
  then show ?thesis
  proof cases
    case 1
    then show ?thesis using empty [of m'] root by (auto simp: merkle_root_def [of D bm_empty])
  next
    case 2
    then show ?thesis using empty [of m] root by (auto simp: merkle_root_def [of D bm_empty])
  next
    case 3
    then show ?thesis
      using root_binding_ordered [OF D(1) plain cf'(1)]
        root_binding_ordered [OF D(1) plain(2,1) cf'(2)] root
      by (metis nle_le)
  qed
qed

section \<open>Properties\<close>

text \<open>
  C8: \<open>prove\<close> never reads out of range. For a key of the map it returns a proof with one
  sibling per level below the root that \<open>verify_proof\<close> accepts for the key's leaf against the
  root of the map; for any other key it returns \<open>None\<close>.
\<close>

theorem merkle_proof_complete:
  "case bm_get m k of
     None \<Rightarrow> prove D m k = Some None
   | Some v \<Rightarrow> \<exists>pr. prove D m k = Some (Some pr) \<and>
       length (siblings pr) = length (levels D m) - 1 \<and>
       verify_proof D (leaf_hash D k v) pr (merkle_root D m)"
  using prove_absent [of m k D] prove_member [of m k _ D] by (auto split: option.split)

text \<open>
  C9: A proof of full depth that verifies against the root of a non-empty map proves membership:
  unless the hash collides on the strings hashed by the tree and by the check, the leaf it is
  checked for is one of the map's leaves.
\<close>

theorem merkle_proof_sound:
  assumes "digest32 D" "m \<noteq> bm_empty"
    and "verify_proof D (leaf_hash D k v) pr (merkle_root D m)"
    and "length (siblings pr) = length (levels D m) - 1"
    and "collision_free D
           (path_inputs D (leaf_hash D k v) (siblings pr) \<union> node_inputs D (leaves D m))"
  shows "leaf_hash D k v \<in> set (leaves D m)"
proof (rule proof_sound_tree [OF assms(1) hashes_leaves [OF assms(1)]])
  show "length (leaf_hash D k v) = 64" using assms(1) by (simp add: leaf_hash_def)
  show "foldl (proof_step D) (leaf_hash D k v) (siblings pr) = tree_root D (leaves D m)"
    using assms(2,3) by (simp add: verify_proof_def merkle_root_alt)
  show "length (siblings pr) = length (level_loop D (leaves D m)) - 1"
    using assms(2,4) by (simp add: levels_def Let_def)
qed (use assms(2,5) in simp_all)

text \<open>The two-entry map of the examples; its strings have pairwise different lengths.\<close>

definition demo_map :: "(string, string) bmap" where
  "demo_map = bm_insert ''a'' ''1'' (bm_insert ''b'' ''22'' bm_empty)"

lemma leaves_demo_map:
  "leaves demo_digest demo_map = [leaf_hash demo_digest ''a'' ''1'', leaf_hash demo_digest ''b'' ''22'']"
  by (simp add: leaves_def demo_map_def)

lemma levels_demo_map:
  "levels demo_digest demo_map =
     [leaves demo_digest demo_map, next_level demo_digest (leaves demo_digest demo_map)]"
  by (simp add: levels_def leaves_demo_map level_loop.simps)

lemma node_inputs_demo_map:
  "node_inputs demo_digest (leaves demo_digest demo_map) =
     {leaf_hash demo_digest ''a'' ''1'' @ ''|'' @ leaf_hash demo_digest ''b'' ''22''}"
  by (simp add: node_inputs_def leaves_demo_map level_loop.simps node_input_def)

lemma root_inputs_demo_map:
  "root_inputs demo_digest demo_map =
     {''a|1'', ''b|22'', leaf_hash demo_digest ''a'' ''1'' @ ''|'' @ leaf_hash demo_digest ''b'' ''22''}"
  by (simp add: root_inputs_def node_inputs_demo_map) (simp add: demo_map_def leaf_input_def insert_commute)

lemma root_demo_map:
  "merkle_root demo_digest demo_map =
     sha_str demo_digest (leaf_hash demo_digest ''a'' ''1'' @ ''|'' @ leaf_hash demo_digest ''b'' ''22'')"
  by (simp add: merkle_root_def levels_demo_map leaves_demo_map) (simp add: demo_map_def)

lemma length_demo_leaf [simp]: "length (leaf_hash demo_digest k v) = 64"
  by (simp add: leaf_hash_def)

lemma plain_demo_map: "plain_keys demo_map"
  by (simp add: plain_keys_def plain_key_def bm_keys_def demo_map_def)

lemma collision_free_demo_map: "collision_free demo_digest (insert [] (root_inputs demo_digest demo_map))"
  by (rule collision_free_demo [of _ "[[], ''a|1'', ''b|22'',
        leaf_hash demo_digest ''a'' ''1'' @ ''|'' @ leaf_hash demo_digest ''b'' ''22'']"])
    (simp_all add: root_inputs_demo_map)

lemma sha_demo_empty: "sha_str demo_digest [] = EMPTY_ROOT"
  by (simp add: sha_str_def sha_hex_def demo_digest_def as_bytes_def hex_def hex_byte_def
      hex_digit_def EMPTY_ROOT_def)

lemma merkle_proof_sound_witness:
  "leaf_hash demo_digest ''b'' ''22'' \<in> set (leaves demo_digest demo_map)"
proof (rule merkle_proof_sound)
  let ?pr = "\<lparr>siblings = [(leaf_hash demo_digest ''a'' ''1'', False)]\<rparr>"
  show "verify_proof demo_digest (leaf_hash demo_digest ''b'' ''22'') ?pr (merkle_root demo_digest demo_map)"
    by (simp add: verify_proof_def proof_step_def root_demo_map)
  show "length (siblings ?pr) = length (levels demo_digest demo_map) - 1"
    by (simp add: levels_demo_map)
  show "collision_free demo_digest
      (path_inputs demo_digest (leaf_hash demo_digest ''b'' ''22'') (siblings ?pr) \<union>
       node_inputs demo_digest (leaves demo_digest demo_map))"
    by (rule collision_free_demo
        [of _ "[leaf_hash demo_digest ''a'' ''1'' @ ''|'' @ leaf_hash demo_digest ''b'' ''22'']"])
      (simp_all add: node_inputs_demo_map)
qed (simp_all add: demo_map_def)

text \<open>
  C7: The root commits to the map, whatever the sizes of the two maps: different maps whose keys
  contain no bar and are not 64 bytes long have different roots, unless SHA-256 collides on the
  strings hashed to compute the two roots.
\<close>

theorem merkle_root_binding:
  assumes "digest32 D" "sha_str D [] = EMPTY_ROOT" "plain_keys m" "plain_keys m'"
    and "collision_free D (insert [] (root_inputs D m \<union> root_inputs D m'))"
    and "m \<noteq> m'"
  shows "merkle_root D m \<noteq> merkle_root D m'"
  using root_binding [OF assms(1-5)] assms(6) by blast

lemma merkle_root_binding_witness:
  "merkle_root demo_digest demo_map \<noteq> merkle_root demo_digest (bm_insert ''a'' ''1'' bm_empty)"
proof (rule merkle_root_binding)
  let ?n = "bm_insert ''a'' ''1'' bm_empty"
  show "sha_str demo_digest [] = EMPTY_ROOT" by (rule sha_demo_empty)
  show "plain_keys demo_map" by (rule plain_demo_map)
  show "plain_keys ?n" by (simp add: plain_keys_def plain_key_def bm_keys_def)
  have "root_inputs demo_digest ?n = {''a|1''}"
    by (simp add: root_inputs_def node_inputs_def leaves_def level_loop.simps leaf_input_def)
  then show "collision_free demo_digest
      (insert [] (root_inputs demo_digest demo_map \<union> root_inputs demo_digest ?n))"
    using collision_free_demo_map by (rule_tac collision_free_mono) (auto simp: root_inputs_demo_map)
  have "bm_get demo_map ''b'' \<noteq> bm_get ?n ''b''" by (simp add: demo_map_def)
  then show "demo_map \<noteq> ?n" by metis
qed simp

text \<open>
  Without those conditions the root does not determine the state, whatever the hash. A bar
  can move between key and value: the entry \<open>a|b\<close> with value \<open>c\<close> and the entry \<open>a\<close> with value
  \<open>b|c\<close> give the same leaf, hence the same root.
\<close>

theorem merkle_root_bar_ambiguity:
  "merkle_root D (bm_insert (a @ ''|'' @ b) c bm_empty) = merkle_root D (bm_insert a (b @ ''|'' @ c) bm_empty)
   \<and> bm_insert (a @ ''|'' @ b) c bm_empty \<noteq> bm_insert a (b @ ''|'' @ c) bm_empty"
proof -
  have "bm_get (bm_insert (a @ ''|'' @ b) c bm_empty) a = None" by simp
  then have "bm_insert (a @ ''|'' @ b) c bm_empty \<noteq> bm_insert a (b @ ''|'' @ c) bm_empty"
    by (metis bm_get_simps(2) fun_upd_same option.distinct(1))
  then show ?thesis
    by (simp add: merkle_root_def levels_def leaves_def leaf_hash_def)
qed

text \<open>
  Leaves and inner nodes are hashed alike, so a two-entry state has the same root as a state
  with a single entry, whose key and value are the printed hashes of the two leaves.
\<close>

theorem merkle_root_depth_ambiguity:
  assumes "k < k'"
  shows "merkle_root D (bm_insert k v (bm_insert k' v' bm_empty)) =
         merkle_root D (bm_insert (leaf_hash D k v) (leaf_hash D k' v') bm_empty)"
  using assms order_less_imp_not_less [OF assms] order_less_imp_not_eq [OF assms]
  by (simp add: merkle_root_def levels_def leaves_def level_loop.simps leaf_hash_def)

lemma merkle_root_depth_ambiguity_witness:
  "merkle_root demo_digest demo_map =
   merkle_root demo_digest
     (bm_insert (leaf_hash demo_digest ''a'' ''1'') (leaf_hash demo_digest ''b'' ''22'') bm_empty)"
  unfolding demo_map_def by (rule merkle_root_depth_ambiguity) simp

end
