(* ===== verification/State_Store.thy ===== *)
theory State_Store imports Merkle begin

text \<open>
  \<open>kai-os/state/src/state.rs\<close> and \<open>snapshot.rs\<close>: the key-value state, its transactions, and
  snapshots that are checked against a trusted height and root before use.
\<close>

section \<open>State and transactions\<close>

datatype tx = Tx_Set (tx_key: string) (tx_value: string) | Tx_Remove (tx_key: string)

record state_store =
  entries :: "(string, string) bmap"

definition new_store :: state_store where
  "new_store = \<lparr>entries = bm_empty\<rparr>"

fun apply_tx :: "state_store \<Rightarrow> tx \<Rightarrow> state_store" where
  "apply_tx s (Tx_Set key value) = s\<lparr>entries := bm_insert key value (entries s)\<rparr>"
| "apply_tx s (Tx_Remove key) = s\<lparr>entries := bm_remove key (entries s)\<rparr>"

fun apply_all :: "state_store \<Rightarrow> tx list \<Rightarrow> state_store" where
  "apply_all s [] = s"
| "apply_all s (tx # txs) = apply_all (apply_tx s tx) txs"

definition store_get :: "state_store \<Rightarrow> string \<Rightarrow> string option" where
  "store_get s key = bm_get (entries s) key"

definition store_len :: "state_store \<Rightarrow> nat" where
  "store_len s = bm_len (entries s)"

definition store_is_empty :: "state_store \<Rightarrow> bool" where
  "store_is_empty s = (bm_entries (entries s) = [])"

definition state_root :: "digest \<Rightarrow> state_store \<Rightarrow> string" where
  "state_root D s = merkle_root D (entries s)"

lemma entries_new_store [simp]: "entries new_store = bm_empty"
  by (simp add: new_store_def)

lemma store_eqI: "entries s = entries t \<Longrightarrow> s = (t :: state_store)"
  by (cases s, cases t) simp

lemma apply_all_append [simp]: "apply_all s (txs @ uxs) = apply_all (apply_all s txs) uxs"
  by (induction txs arbitrary: s) simp_all

text \<open>What a transaction log means: the last transaction on a key decides its value.\<close>

definition tx_effect :: "tx \<Rightarrow> string option" where
  "tx_effect tx = (case tx of Tx_Set k v \<Rightarrow> Some v | Tx_Remove k \<Rightarrow> None)"

lemma store_get_apply_tx:
  "store_get (apply_tx s tx) key = (if key = tx_key tx then tx_effect tx else store_get s key)"
  by (cases tx) (auto simp: store_get_def tx_effect_def)

lemma store_get_apply_all:
  "store_get (apply_all s txs) key =
     (case find (\<lambda>tx. tx_key tx = key) (rev txs) of
        None \<Rightarrow> store_get s key | Some tx \<Rightarrow> tx_effect tx)"
proof (induction txs rule: rev_induct)
  case (snoc tx txs)
  then show ?case by (auto simp: store_get_apply_tx split: option.splits)
qed simp

text \<open>
  Rebuilding a state from its entries one \<open>Set\<close> at a time: \<open>Snapshot::to_state\<close>,
  \<open>PersistedSnapshot::to_store\<close> and \<open>verify_snapshot\<close> of the sync daemon all do this.
\<close>

definition rebuild_store :: "(string \<times> string) list \<Rightarrow> state_store" where
  "rebuild_store es = foldl (\<lambda>s (k, v). apply_tx s (Tx_Set k v)) new_store es"

lemma entries_rebuild_store: "entries (rebuild_store es) = bm_of_list es"
proof -
  have "entries (foldl (\<lambda>s (k, v). apply_tx s (Tx_Set k v)) s es) =
      foldl (\<lambda>m (k, v). bm_insert k v m) (entries s) es" for s
    by (induction es arbitrary: s) auto
  then show ?thesis by (simp add: rebuild_store_def bm_of_list_def)
qed

lemma rebuild_store_perm:
  "distinct (map fst es) \<Longrightarrow> set es = set (bm_entries (entries s)) \<Longrightarrow> rebuild_store es = s"
  by (rule store_eqI) (simp add: entries_rebuild_store bm_of_list_perm)

lemma rebuild_store_self [simp]: "rebuild_store (bm_entries (entries s)) = s"
  by (rule store_eqI) (simp add: entries_rebuild_store)

lemma length_state_root: "digest32 D \<Longrightarrow> length (state_root D s) = 64"
  using hash_merkle_root [of D "entries s"] by (simp add: state_root_def hashes_def digest_text_parts)

lemma bar_notin_state_root: "digest32 D \<Longrightarrow> CHR ''|'' \<notin> set (state_root D s)"
  using hash_merkle_root [of D "entries s"] by (simp add: state_root_def hashes_def digest_text_parts)

section \<open>Snapshots\<close>

text \<open>\<open>sync.rs\<close> declares the error type both modules return.\<close>

datatype sync_error =
    HeightGap u64 u64
  | Duplicate u64
  | Fork u64 string string
  | PrevMismatch string string
  | RootMismatch string string
  | SnapshotHeightMismatch u64 u64
  | SnapshotRootMismatch string string

record snapshot =
  sn_height :: u64
  sn_tip_block_hash :: string
  sn_state_root :: string
  sn_entries :: "(string \<times> string) list"

definition snapshot_from_state :: "digest \<Rightarrow> u64 \<Rightarrow> string \<Rightarrow> state_store \<Rightarrow> snapshot" where
  "snapshot_from_state D height tip s =
     \<lparr>sn_height = height, sn_tip_block_hash = tip, sn_state_root = state_root D s,
      sn_entries = bm_entries (entries s)\<rparr>"

definition snapshot_id :: "digest \<Rightarrow> snapshot \<Rightarrow> string" where
  "snapshot_id D sn =
     sha_str D (show_word (sn_height sn) @ ''|'' @ sn_tip_block_hash sn @ ''|'' @ sn_state_root sn)"

definition verify_against :: "digest \<Rightarrow> snapshot \<Rightarrow> u64 \<Rightarrow> string \<Rightarrow> sync_error + unit" where
  "verify_against D sn trusted_height trusted_state_root =
     (if sn_height sn \<noteq> trusted_height
      then Inl (SnapshotHeightMismatch trusted_height (sn_height sn))
      else
        let es = bm_of_list (sn_entries sn);
            computed = (if bm_entries es = [] then EMPTY_ROOT else merkle_root D es)
        in if computed \<noteq> sn_state_root sn
           then Inl (SnapshotRootMismatch (sn_state_root sn) computed)
           else if computed \<noteq> trusted_state_root
           then Inl (SnapshotRootMismatch computed trusted_state_root)
           else Inr ())"

definition snapshot_to_state :: "snapshot \<Rightarrow> state_store" where
  "snapshot_to_state sn = rebuild_store (sn_entries sn)"

lemma verify_against_ok_iff:
  "verify_against D sn h r = Inr () \<longleftrightarrow>
     sn_height sn = h \<and> sn_state_root sn = r \<and> state_root D (snapshot_to_state sn) = r"
  by (auto simp: verify_against_def Let_def state_root_def snapshot_to_state_def
      entries_rebuild_store merkle_root_alt)

lemma snapshot_roundtrip: "snapshot_to_state (snapshot_from_state D h t s) = s"
  by (simp add: snapshot_to_state_def snapshot_from_state_def)

lemma snapshot_verifies:
  "verify_against D (snapshot_from_state D h t s) h (state_root D s) = Inr ()"
  using snapshot_roundtrip [of D h t s]
  by (simp add: verify_against_ok_iff) (simp add: snapshot_from_state_def)

section \<open>Properties\<close>

text \<open>
  C10: A snapshot is never trusted: \<open>verify_against\<close> fails on another height, on a claimed root other
  than that of the state the snapshot restores, and on a trusted root other than that, and succeeds
  otherwise; so it accepts what \<open>from_state\<close> made. A snapshot accepted against the root of a state \<open>s\<close>
  restores \<open>s\<close> itself if the keys of both are plain (no bar, and not as long as a digest) and SHA-256
  does not collide on the strings of the two trees. The code does not check that keys are plain;
  \<open>merkle_root_bar_ambiguity\<close> and \<open>merkle_root_depth_ambiguity\<close> show what it then accepts.
\<close>

theorem snapshot_verified_restores:
  "verify_against D sn h r =
     (let root = state_root D (snapshot_to_state sn) in
      if sn_height sn \<noteq> h then Inl (SnapshotHeightMismatch h (sn_height sn))
      else if root \<noteq> sn_state_root sn then Inl (SnapshotRootMismatch (sn_state_root sn) root)
      else if root \<noteq> r then Inl (SnapshotRootMismatch root r)
      else Inr ()) \<and>
   verify_against D (snapshot_from_state D h t s) h (state_root D s) = Inr () \<and>
   snapshot_to_state (snapshot_from_state D h t s) = s \<and>
   (verify_against D sn h (state_root D s) = Inr () \<and> digest32 D \<and> sha_str D [] = EMPTY_ROOT \<and>
    plain_keys (entries s) \<and> plain_keys (entries (snapshot_to_state sn)) \<and>
    collision_free D (insert [] (root_inputs D (entries s) \<union> root_inputs D (entries (snapshot_to_state sn)))) \<longrightarrow>
    snapshot_to_state sn = s)"
proof -
  have "snapshot_to_state sn = s"
    if ok: "verify_against D sn h (state_root D s) = Inr ()" and digest: "digest32 D" "sha_str D [] = EMPTY_ROOT"
      and plain: "plain_keys (entries s)" "plain_keys (entries (snapshot_to_state sn))"
      and free: "collision_free D
        (insert [] (root_inputs D (entries s) \<union> root_inputs D (entries (snapshot_to_state sn))))"
  proof -
    have "state_root D (snapshot_to_state sn) = state_root D s" using ok by (auto simp: verify_against_ok_iff)
    then have "entries s = entries (snapshot_to_state sn)"
      by (intro root_binding [OF digest plain free]) (simp only: state_root_def)
    then show ?thesis by (intro store_eqI) simp
  qed
  moreover have "verify_against D sn h r =
     (let root = state_root D (snapshot_to_state sn) in
      if sn_height sn \<noteq> h then Inl (SnapshotHeightMismatch h (sn_height sn))
      else if root \<noteq> sn_state_root sn then Inl (SnapshotRootMismatch (sn_state_root sn) root)
      else if root \<noteq> r then Inl (SnapshotRootMismatch root r)
      else Inr ())"
    by (simp add: verify_against_def Let_def state_root_def snapshot_to_state_def entries_rebuild_store merkle_root_alt)
  ultimately show ?thesis using snapshot_verifies snapshot_roundtrip by blast
qed

lemma snapshot_verified_restores_witness:
  "snapshot_to_state (snapshot_from_state demo_digest 7 ''tip'' \<lparr>entries = demo_map\<rparr>) = \<lparr>entries = demo_map\<rparr> \<and>
   verify_against demo_digest \<lparr>sn_height = 7, sn_tip_block_hash = [], sn_state_root = EMPTY_ROOT, sn_entries = []\<rparr> 8 []
     = Inl (SnapshotHeightMismatch 8 7)"
proof -
  let ?sn = "snapshot_from_state demo_digest 7 ''tip'' \<lparr>entries = demo_map\<rparr>"
  let ?other = "\<lparr>sn_height = 7, sn_tip_block_hash = [], sn_state_root = EMPTY_ROOT, sn_entries = []\<rparr>"
  have "verify_against demo_digest ?sn 7 (state_root demo_digest \<lparr>entries = demo_map\<rparr>) = Inr ()" "digest32 demo_digest"
    "sha_str demo_digest [] = EMPTY_ROOT" "plain_keys (entries \<lparr>entries = demo_map\<rparr>)"
    "plain_keys (entries (snapshot_to_state ?sn))"
    "collision_free demo_digest (insert [] (root_inputs demo_digest (entries \<lparr>entries = demo_map\<rparr>) \<union>
       root_inputs demo_digest (entries (snapshot_to_state ?sn))))"
    using collision_free_demo_map
    by (simp_all add: snapshot_verifies snapshot_roundtrip sha_demo_empty plain_demo_map)
  with snapshot_verified_restores [of demo_digest ?sn 7 _ "''tip''" "\<lparr>entries = demo_map\<rparr>"]
  have "snapshot_to_state ?sn = \<lparr>entries = demo_map\<rparr>" by blast
  moreover have "verify_against demo_digest ?other 8 [] = Inl (SnapshotHeightMismatch 8 7)"
    using snapshot_verified_restores [of demo_digest ?other 8 "[]"] by (simp add: Let_def)
  ultimately show ?thesis by blast
qed

end
