(* ===== verification/Hash_Chain.thy ===== *)
theory Hash_Chain imports Prelude begin

text \<open>
  The append-only hash chain: numbered entries, each naming the digest of its predecessor. Four
  components keep one: the audit log of the node, the audit pipeline of the AI runtime, the
  write-ahead log and the block chain of the sync engine. What they share is stated here once,
  as a locale over the entry type; each component interprets it on its own entries.
\<close>

section \<open>Chains\<close>

text \<open>
  \<open>chain_from sq pv dg n p es\<close>: the entries \<open>es\<close> continue a chain of \<open>n\<close> entries whose last
  digest is \<open>p\<close>; \<open>sq\<close>, \<open>pv\<close> and \<open>dg\<close> read an entry's number, back link and digest.
\<close>

fun chain_from ::
  "('e \<Rightarrow> u64) \<Rightarrow> ('e \<Rightarrow> string) \<Rightarrow> ('e \<Rightarrow> string) \<Rightarrow> nat \<Rightarrow> string \<Rightarrow> 'e list \<Rightarrow> bool" where
  "chain_from sq pv dg n p [] = True"
| "chain_from sq pv dg n p (e # es) =
     (sq e = of_nat (Suc n) \<and> pv e = p \<and> chain_from sq pv dg (Suc n) (dg e) es)"

definition chain_tip :: "('e \<Rightarrow> string) \<Rightarrow> string \<Rightarrow> 'e list \<Rightarrow> string" where
  "chain_tip dg p es = (if es = [] then p else dg (last es))"

lemma chain_tip_simps [simp]:
  "chain_tip dg p [] = p"
  "chain_tip dg p (es @ [e]) = dg e"
  "chain_tip dg p (e # es) = chain_tip dg (dg e) es"
  by (simp_all add: chain_tip_def)

lemma chain_from_append:
  "chain_from sq pv dg n p (es @ fs) \<longleftrightarrow>
     chain_from sq pv dg n p es \<and>
     chain_from sq pv dg (n + length es) (chain_tip dg p es) fs"
  by (induction es arbitrary: n p) auto

lemma chain_from_snoc [simp]:
  "chain_from sq pv dg n p (es @ [e]) \<longleftrightarrow>
     chain_from sq pv dg n p es \<and> sq e = of_nat (Suc (n + length es)) \<and> pv e = chain_tip dg p es"
  by (auto simp: chain_from_append)

lemma chain_from_number:
  "chain_from sq pv dg n p es \<Longrightarrow> e \<in> set es \<Longrightarrow>
   \<exists>i. n < i \<and> i \<le> n + length es \<and> sq e = of_nat i"
proof (induction es arbitrary: n p)
  case (Cons a es)
  show ?case
  proof (cases "e = a")
    case True
    with Cons.prems show ?thesis by (intro exI [of _ "Suc n"]) simp
  next
    case False
    with Cons.prems have "e \<in> set es" "chain_from sq pv dg (Suc n) (dg a) es" by auto
    from Cons.IH [OF this(2,1)] show ?thesis by (metis add_Suc add_Suc_right length_Cons Suc_lessD)
  qed
qed simp

text \<open>In a chain of fewer than 2^64 entries the next number is fresh.\<close>

lemma chain_from_fresh:
  "chain_from sq pv dg 0 p es \<Longrightarrow> Suc (length es) < 2 ^ 64 \<Longrightarrow> e \<in> set es \<Longrightarrow>
   sq e \<noteq> of_nat (Suc (length es))"
  using chain_from_number [of sq pv dg 0 p es e]
  by (metis Suc_n_not_le_n add_0 le_less_trans less_Suc_eq_le less_imp_le_nat unat_Suc_64)

section \<open>The tip of a chain commits to all of it\<close>

locale hash_chain =
  fixes sq :: "'e \<Rightarrow> u64"
    and pv :: "'e \<Rightarrow> string"
    and dg :: "'e \<Rightarrow> string"
    and payload :: "'e \<Rightarrow> string"
  assumes payload_sq: "payload e = payload e' \<Longrightarrow> sq e = sq e'"
    and payload_pv:
      "payload e = payload e' \<Longrightarrow> length (pv e) = 64 \<Longrightarrow> length (pv e') = 64 \<Longrightarrow> pv e = pv e'"
begin

lemma tip_length:
  "digest32 D \<Longrightarrow> length g = 64 \<Longrightarrow> \<forall>e \<in> set es. dg e = sha_str D (payload e) \<Longrightarrow>
   length (chain_tip dg g es) = 64"
  by (simp add: chain_tip_def)

lemma binding_same_length:
  assumes "digest32 D" "length g = 64"
    and "length es = length fs"
    and "chain_from sq pv dg 0 g es" "chain_from sq pv dg 0 g fs"
    and "\<forall>e \<in> set es \<union> set fs. dg e = sha_str D (payload e)"
    and "collision_free D (payload ` (set es \<union> set fs))"
    and "chain_tip dg g es = chain_tip dg g fs"
  shows "map payload es = map payload fs"
  using assms(3-8)
proof (induction es arbitrary: fs rule: rev_induct)
  case (snoc e es)
  then obtain f fs' where fs: "fs = fs' @ [f]" by (cases fs rule: rev_cases) auto
  have mono: "collision_free D (payload ` (set es \<union> set fs'))"
    by (rule collision_free_mono [OF snoc.prems(5)]) (auto simp: fs)
  have "sha_str D (payload e) = sha_str D (payload f)"
    using snoc.prems(4,6) by (simp add: fs)
  then have pay: "payload e = payload f"
    using collision_freeD [OF snoc.prems(5)] by (simp add: fs)
  have tips: "pv e = chain_tip dg g es" "pv f = chain_tip dg g fs'"
    using snoc.prems(2,3) by (simp_all add: fs)
  have "length (pv e) = 64" "length (pv f) = 64"
    unfolding tips using snoc.prems(4) by (auto intro!: tip_length assms(1,2) simp: fs)
  with pay have "chain_tip dg g es = chain_tip dg g fs'"
    using payload_pv tips by metis
  with snoc.IH [of fs'] snoc.prems mono pay show ?case by (simp add: fs)
qed simp

lemma binding:
  assumes "digest32 D" "length g = 64"
    and "chain_from sq pv dg 0 g es" "chain_from sq pv dg 0 g fs"
    and "\<forall>e \<in> set es \<union> set fs. dg e = sha_str D (payload e)"
    and "collision_free D (payload ` (set es \<union> set fs))"
    and "chain_tip dg g es = chain_tip dg g fs"
    and "es \<noteq> []" "fs \<noteq> []" "length es < 2 ^ 64" "length fs < 2 ^ 64"
  shows "map payload es = map payload fs"
proof (rule binding_same_length [OF assms(1,2) _ assms(3-7)])
  obtain es' e where es: "es = es' @ [e]" using \<open>es \<noteq> []\<close> by (cases es rule: rev_cases) auto
  obtain fs' f where fs: "fs = fs' @ [f]" using \<open>fs \<noteq> []\<close> by (cases fs rule: rev_cases) auto
  have "payload e = payload f"
    using assms(5-7) collision_freeD [OF assms(6)] by (simp add: es fs)
  then have "(of_nat (length es) :: u64) = of_nat (length fs)"
    using assms(3,4) payload_sq [of e f] by (simp add: es fs)
  then show "length es = length fs"
    using assms(10,11) by (metis unat_Suc_64)
qed

lemma digests_agree:
  "map payload es = map payload fs \<Longrightarrow> \<forall>e \<in> set es \<union> set fs. dg e = sha_str D (payload e) \<Longrightarrow>
   map dg es = map dg fs"
proof -
  assume pay: "map payload es = map payload fs"
    and h: "\<forall>e \<in> set es \<union> set fs. dg e = sha_str D (payload e)"
  have "map dg es = map (sha_str D) (map payload es)" using h by simp
  also have "\<dots> = map dg fs" using h unfolding pay by simp
  finally show ?thesis .
qed

end

end
