(* ===== verification/Sync_Engine.thy ===== *)
theory Sync_Engine imports State_Store Hash_Chain "HOL-Library.Sublist" begin

text \<open>
  \<open>kai-os/state/src/sync.rs\<close>: the engine that accepts blocks one height at a time, after checking
  the link to its tip and recomputing the state root.

  Its contract is a ledger: the list of blocks accepted so far, linked from the genesis hash and
  each carrying the root of the state it leads to (\<open>valid_chain\<close>). \<open>engine_of\<close> is the engine
  such a ledger determines, and \<open>apply_block\<close> refines appending to the ledger.
\<close>

section \<open>Blocks\<close>

definition GENESIS_PREV :: string where
  "GENESIS_PREV = replicate 64 CHR ''0''"

record block =
  blk_height :: u64
  blk_prev_hash :: string
  blk_txs :: "tx list"
  blk_state_root :: string

fun tx_text :: "tx \<Rightarrow> string" where
  "tx_text (Tx_Set key value) = ''set:'' @ key @ ''='' @ value"
| "tx_text (Tx_Remove key) = ''rm:'' @ key"

definition block_payload :: "block \<Rightarrow> string" where
  "block_payload b =
     show_word (blk_height b) @ ''|'' @ blk_prev_hash b @ ''|'' @
     join '';'' (map tx_text (blk_txs b)) @ ''|'' @ blk_state_root b"

definition block_hash :: "digest \<Rightarrow> block \<Rightarrow> string" where
  "block_hash D b = sha_str D (block_payload b)"

section \<open>The engine\<close>

record sync_engine =
  tip_height :: u64
  tip_block_hash :: string
  applied :: "(u64, string) bmap"
  eng_state :: state_store

definition new_engine :: "state_store \<Rightarrow> sync_engine" where
  "new_engine s =
     \<lparr>tip_height = 0, tip_block_hash = GENESIS_PREV, applied = bm_empty, eng_state = s\<rparr>"

definition engine_state_root :: "digest \<Rightarrow> sync_engine \<Rightarrow> string" where
  "engine_state_root D e = state_root D (eng_state e)"

definition apply_block ::
  "profile \<Rightarrow> digest \<Rightarrow> sync_engine \<Rightarrow> block \<Rightarrow> (sync_engine \<times> (sync_error + string)) option" where
  "apply_block p D e b =
     (case bm_get (applied e) (blk_height b) of
        Some known \<Rightarrow>
          Some (e, if known \<noteq> block_hash D b
                   then Inl (Fork (blk_height b) known (block_hash D b))
                   else Inl (Duplicate (blk_height b)))
      | None \<Rightarrow> do {
          expected \<leftarrow> add_ov p (tip_height e) 1;
          if blk_height b \<noteq> expected
          then Some (e, Inl (HeightGap expected (blk_height b)))
          else if blk_prev_hash b \<noteq> tip_block_hash e
          then Some (e, Inl (PrevMismatch (tip_block_hash e) (blk_prev_hash b)))
          else
            let scratch = apply_all (eng_state e) (blk_txs b);
                computed = state_root D scratch
            in if computed \<noteq> blk_state_root b
               then Some (e, Inl (RootMismatch (blk_state_root b) computed))
               else
                 let e' = e\<lparr>eng_state := scratch, tip_height := blk_height b,
                            tip_block_hash := block_hash D b,
                            applied := bm_insert (blk_height b) (block_hash D b) (applied e)\<rparr>
                 in Some (e', Inr (tip_block_hash e'))
        })"

definition block_hash_at :: "sync_engine \<Rightarrow> u64 \<Rightarrow> string option" where
  "block_hash_at e height = bm_get (applied e) height"

text \<open>Feeding a sequence of blocks, as received from peers; rejected blocks are dropped.\<close>

fun sync_run :: "profile \<Rightarrow> digest \<Rightarrow> sync_engine \<Rightarrow> block list \<Rightarrow> sync_engine option" where
  "sync_run p D e [] = Some e"
| "sync_run p D e (b # bs) = do { (e', _) \<leftarrow> apply_block p D e b; sync_run p D e' bs }"

lemma apply_block_error: "apply_block p D e b = Some (e', Inl err) \<Longrightarrow> e' = e"
  by (auto simp: apply_block_def Let_def bind_eq_Some_conv split: option.splits if_splits)

section \<open>The ledger the engine implements\<close>

fun roots_ok :: "digest \<Rightarrow> state_store \<Rightarrow> block list \<Rightarrow> bool" where
  "roots_ok D s [] = True"
| "roots_ok D s (b # bs) =
     (state_root D (apply_all s (blk_txs b)) = blk_state_root b \<and>
      roots_ok D (apply_all s (blk_txs b)) bs)"

definition ledger_state :: "state_store \<Rightarrow> block list \<Rightarrow> state_store" where
  "ledger_state s bs = apply_all s (concat (map blk_txs bs))"

definition valid_chain :: "digest \<Rightarrow> state_store \<Rightarrow> block list \<Rightarrow> bool" where
  "valid_chain D s bs \<longleftrightarrow>
     chain_from blk_height blk_prev_hash (block_hash D) 0 GENESIS_PREV bs \<and> roots_ok D s bs"

definition engine_of :: "digest \<Rightarrow> state_store \<Rightarrow> block list \<Rightarrow> sync_engine" where
  "engine_of D s bs =
     \<lparr>tip_height = of_nat (length bs), tip_block_hash = chain_tip (block_hash D) GENESIS_PREV bs,
      applied = bm_of_list (map (\<lambda>b. (blk_height b, block_hash D b)) bs),
      eng_state = ledger_state s bs\<rparr>"

lemma roots_ok_append [simp]:
  "roots_ok D s (bs @ cs) \<longleftrightarrow> roots_ok D s bs \<and> roots_ok D (ledger_state s bs) cs"
  by (induction bs arbitrary: s) (auto simp: ledger_state_def)

lemma ledger_state_simps [simp]:
  "ledger_state s [] = s"
  "ledger_state s (bs @ [b]) = apply_all (ledger_state s bs) (blk_txs b)"
  by (simp_all add: ledger_state_def)

lemma new_engine_ledger: "new_engine s = engine_of D s []"
  by (simp add: new_engine_def engine_of_def bm_of_list_def)

lemma valid_chain_Nil [simp]: "valid_chain D s []"
  by (simp add: valid_chain_def)

lemma valid_chain_snoc:
  "valid_chain D s (bs @ [b]) \<longleftrightarrow>
     valid_chain D s bs \<and> blk_height b = of_nat (Suc (length bs)) \<and>
     blk_prev_hash b = chain_tip (block_hash D) GENESIS_PREV bs \<and>
     state_root D (apply_all (ledger_state s bs) (blk_txs b)) = blk_state_root b"
  by (auto simp: valid_chain_def)

lemma next_height_fresh:
  assumes "valid_chain D s bs" "Suc (length bs) < 2 ^ 64"
  shows "bm_get (applied (engine_of D s bs)) (of_nat (Suc (length bs))) = None"
proof -
  have "\<forall>b \<in> set bs. blk_height b \<noteq> of_nat (Suc (length bs))"
    using chain_from_fresh [OF _ assms(2)] assms(1) unfolding valid_chain_def by blast
  then have "of_nat (Suc (length bs)) \<notin> set (bm_keys (applied (engine_of D s bs)))"
    by (auto simp: engine_of_def set_bm_keys_of_list simp del: of_nat_Suc)
  then show ?thesis by (auto simp: set_bm_keys)
qed

lemma engine_of_snoc:
  "engine_of D s (bs @ [b]) =
     (engine_of D s bs)\<lparr>eng_state := apply_all (ledger_state s bs) (blk_txs b),
        tip_height := of_nat (Suc (length bs)), tip_block_hash := block_hash D b,
        applied := bm_insert (blk_height b) (block_hash D b) (applied (engine_of D s bs))\<rparr>"
  by (simp add: engine_of_def bm_of_list_def)

lemma apply_block_ledger:
  assumes "valid_chain D s bs" "Suc (length bs) < 2 ^ 64"
  shows "if valid_chain D s (bs @ [b])
         then apply_block p D (engine_of D s bs) b =
                Some (engine_of D s (bs @ [b]), Inr (block_hash D b))
         else \<exists>err. apply_block p D (engine_of D s bs) b = Some (engine_of D s bs, Inl err)"
proof -
  have tip: "add_ov p (tip_height (engine_of D s bs)) 1 = Some (of_nat (Suc (length bs)))"
    using add_ov_count [OF assms(2)] by (simp add: engine_of_def)
  show ?thesis
  proof (cases "valid_chain D s (bs @ [b])")
    case True
    then have "bm_get (applied (engine_of D s bs)) (blk_height b) = None"
      using next_height_fresh [OF assms] by (simp add: valid_chain_snoc)
    with True show ?thesis
      by (simp add: apply_block_def tip valid_chain_snoc engine_of_snoc Let_def)
        (simp add: engine_of_def)
  next
    case False
    have "\<exists>r. apply_block p D (engine_of D s bs) b = Some r"
      by (auto simp: apply_block_def tip Let_def split: option.splits)
    moreover have "fst r = engine_of D s bs \<and> \<not> is_ok (snd r)"
      if "apply_block p D (engine_of D s bs) b = Some r" for r
      using that False assms(1)
      by (auto simp: apply_block_def tip valid_chain_snoc Let_def split: option.splits if_splits)
        (simp_all add: engine_of_def)
    ultimately show ?thesis using False
      by (metis is_ok_def old.sum.simps(6) prod.collapse sum.exhaust)
  qed
qed

lemma sync_run_ledger:
  assumes "valid_chain D s acc" "length acc + length bs < 2 ^ 64"
  shows "\<exists>new. subseq new bs \<and> valid_chain D s (acc @ new) \<and>
           sync_run p D (engine_of D s acc) bs = Some (engine_of D s (acc @ new))"
  using assms
proof (induction bs arbitrary: acc)
  case (Cons b bs)
  have len: "Suc (length acc) < 2 ^ 64" using Cons.prems(2) by simp
  show ?case
  proof (cases "valid_chain D s (acc @ [b])")
    case True
    obtain new where "subseq new bs" "valid_chain D s ((acc @ [b]) @ new)"
      "sync_run p D (engine_of D s (acc @ [b])) bs = Some (engine_of D s ((acc @ [b]) @ new))"
      using Cons.IH [OF True] Cons.prems(2) by auto
    with True show ?thesis
      using apply_block_ledger [OF Cons.prems(1) len, of b p]
      by (intro exI [of _ "b # new"]) simp
  next
    case False
    obtain new where "subseq new bs" "valid_chain D s (acc @ new)"
      "sync_run p D (engine_of D s acc) bs = Some (engine_of D s (acc @ new))"
      using Cons.IH [OF Cons.prems(1)] Cons.prems(2) by auto
    with False show ?thesis
      using apply_block_ledger [OF Cons.prems(1) len, of b p] by (intro exI [of _ new]) auto
  qed
qed (intro exI [of _ "[]"], simp)

section \<open>The tip hash\<close>

lemma block_payload_height:
  assumes "block_payload b = block_payload c"
  shows "blk_height b = blk_height c"
proof -
  have "show_word (blk_height b) = show_word (blk_height c)"
    using bar_split [of "show_word (blk_height b)" _ "show_word (blk_height c)"] assms
    by (simp add: block_payload_def)
  then show ?thesis by simp
qed

lemma block_payload_rest:
  assumes "block_payload b = block_payload c"
  shows "blk_prev_hash b @ ''|'' @ join '';'' (map tx_text (blk_txs b)) @ ''|'' @ blk_state_root b =
         blk_prev_hash c @ ''|'' @ join '';'' (map tx_text (blk_txs c)) @ ''|'' @ blk_state_root c"
  using bar_split [of "show_word (blk_height b)" _ "show_word (blk_height c)"] assms
  by (simp add: block_payload_def)

interpretation block_chain: hash_chain blk_height blk_prev_hash "block_hash D" block_payload for D
proof unfold_locales
  fix b c
  assume "block_payload b = block_payload c"
  then show "blk_height b = blk_height c" by (rule block_payload_height)
  assume "length (blk_prev_hash b) = 64" "length (blk_prev_hash c) = 64"
  then show "blk_prev_hash b = blk_prev_hash c"
    using block_payload_rest [OF \<open>block_payload b = block_payload c\<close>] by simp
qed

lemma block_payload_root:
  assumes "block_payload b = block_payload c"
    and "length (blk_state_root b) = 64" "length (blk_state_root c) = 64"
  shows "blk_state_root b = blk_state_root c"
proof -
  define front where "front x = show_word (blk_height x) @ ''|'' @ blk_prev_hash x @ ''|'' @
    join '';'' (map tx_text (blk_txs x)) @ ''|''" for x :: block
  have "front b @ blk_state_root b = front c @ blk_state_root c"
    using assms(1) by (simp add: front_def block_payload_def)
  then show ?thesis using assms(2,3) by simp
qed

text \<open>
  Transactions whose text can be read back: no semicolon, and no equals sign in a key that is set.
\<close>

fun plain_tx :: "tx \<Rightarrow> bool" where
  "plain_tx (Tx_Set key value) \<longleftrightarrow> CHR ''='' \<notin> set key \<and> CHR '';'' \<notin> set key \<and> CHR '';'' \<notin> set value"
| "plain_tx (Tx_Remove key) \<longleftrightarrow> CHR '';'' \<notin> set key"

lemma tx_text_inject: "plain_tx a \<Longrightarrow> plain_tx b \<Longrightarrow> tx_text a = tx_text b \<Longrightarrow> a = b"
  by (cases a; cases b) (auto simp: append_eq_append_conv2 append_eq_Cons_conv Cons_eq_append_conv)

lemma txs_text_inject:
  assumes "\<forall>t \<in> set txs. plain_tx t" "\<forall>t \<in> set uxs. plain_tx t"
    and "join '';'' (map tx_text txs) = join '';'' (map tx_text uxs)"
  shows "txs = uxs"
proof -
  have semi: "plain_tx t \<Longrightarrow> CHR '';'' \<notin> set (tx_text t)" for t by (cases t) auto
  have nil: "join '';'' (map tx_text xs) = [] \<longleftrightarrow> xs = []" for xs
  proof (cases xs)
    case (Cons x ys)
    have "tx_text x \<noteq> []" by (cases x) simp_all
    then show ?thesis using Cons by (cases ys) simp_all
  qed simp
  have "map tx_text txs = map tx_text uxs"
  proof (cases "txs = []")
    case True
    then show ?thesis using nil [of uxs] assms(3) by simp
  next
    case False
    have "uxs \<noteq> []"
    proof
      assume "uxs = []"
      then have "join '';'' (map tx_text txs) = []" by (simp add: assms(3))
      with False nil [of txs] show False by blast
    qed
    have "split_on (CHR '';'') (join '';'' (map tx_text xs)) = map tx_text xs"
      if "xs \<noteq> []" "\<forall>t \<in> set xs. plain_tx t" for xs
    proof (rule split_on_join)
      show "\<forall>s \<in> set (map tx_text xs). CHR '';'' \<notin> set s" using that(2) semi by auto
    qed (simp add: that(1))
    note list = this
    from trans [OF sym [OF list [OF False assms(1), unfolded assms(3)]] list [OF \<open>uxs \<noteq> []\<close> assms(2)]]
    show ?thesis .
  qed
  moreover have "inj_on tx_text (set txs \<union> set uxs)"
    using assms(1,2) by (intro inj_onI tx_text_inject) blast+
  ultimately show ?thesis by (simp add: inj_on_map_eq_map)
qed

lemma block_payload_inject:
  assumes "block_payload b = block_payload c"
    and "length (blk_prev_hash b) = 64" "length (blk_prev_hash c) = 64"
    and "length (blk_state_root b) = 64" "length (blk_state_root c) = 64"
    and "\<forall>t \<in> set (blk_txs b). plain_tx t" "\<forall>t \<in> set (blk_txs c). plain_tx t"
  shows "b = c"
proof -
  have root: "blk_state_root b = blk_state_root c" by (rule block_payload_root [OF assms(1,4,5)])
  moreover have "blk_height b = blk_height c" by (rule block_payload_height [OF assms(1)])
  moreover have prev: "blk_prev_hash b = blk_prev_hash c"
    using block_payload_rest [OF assms(1)] assms(2,3) by simp
  moreover have "join '';'' (map tx_text (blk_txs b)) = join '';'' (map tx_text (blk_txs c))"
    using block_payload_rest [OF assms(1)] by (simp add: prev root)
  then have "blk_txs b = blk_txs c" by (rule txs_text_inject [OF assms(6,7)])
  ultimately show ?thesis by simp
qed

lemma chain_roots:
  "digest32 D \<Longrightarrow> roots_ok D s bs \<Longrightarrow> b \<in> set bs \<Longrightarrow> length (blk_state_root b) = 64"
  by (induction bs arbitrary: s) (auto simp: length_state_root dest: sym)

lemma chain_prevs:
  assumes "digest32 D" "valid_chain D s bs" "b \<in> set bs"
  shows "length (blk_prev_hash b) = 64"
  using assms(2,3)
proof (induction bs rule: rev_induct)
  case (snoc c bs)
  have "length (chain_tip (block_hash D) GENESIS_PREV bs) = 64"
    by (rule block_chain.tip_length [OF assms(1)]) (simp_all add: GENESIS_PREV_def block_hash_def)
  with snoc show ?case by (auto simp: valid_chain_snoc)
qed simp

lemma chain_final_root:
  "roots_ok D s bs \<Longrightarrow> bs \<noteq> [] \<Longrightarrow> state_root D (ledger_state s bs) = blk_state_root (last bs)"
  by (induction bs rule: rev_induct) auto

section \<open>Properties\<close>

text \<open>
  C1: \<open>apply_block\<close> implements appending to the ledger. From the engine of a valid chain it accepts
  a block exactly when the chain extended by the block is valid: next height, linked to the tip,
  and carrying the root of the state its transactions lead to. The new engine is then that of the
  extended chain and the result its tip; otherwise the result is an error and the engine is
  unchanged.
\<close>

theorem apply_block_refines_ledger:
  assumes "valid_chain D s bs" "Suc (length bs) < 2 ^ 64"
  shows "if valid_chain D s (bs @ [b])
         then apply_block p D (engine_of D s bs) b =
                Some (engine_of D s (bs @ [b]), Inr (block_hash D b))
         else \<exists>err. apply_block p D (engine_of D s bs) b = Some (engine_of D s bs, Inl err)"
  by (rule apply_block_ledger [OF assms])

definition demo_block :: block where
  "demo_block =
     \<lparr>blk_height = 1, blk_prev_hash = GENESIS_PREV, blk_txs = [Tx_Set ''a'' ''1''],
      blk_state_root = state_root demo_digest (apply_all new_store [Tx_Set ''a'' ''1''])\<rparr>"

lemma demo_block_valid: "valid_chain demo_digest new_store ([] @ [demo_block])"
  by (subst valid_chain_snoc) (simp add: demo_block_def)

lemma apply_block_refines_ledger_witness:
  "apply_block Checked demo_digest (engine_of demo_digest new_store []) demo_block =
     Some (engine_of demo_digest new_store ([] @ [demo_block]), Inr (block_hash demo_digest demo_block))"
proof -
  have "valid_chain demo_digest new_store []" "Suc (length ([] :: block list)) < 2 ^ 64" by simp_all
  from apply_block_refines_ledger [OF this, of demo_block Checked] show ?thesis
    by (simp only: demo_block_valid if_True)
qed

text \<open>
  C2: Whatever blocks arrive, in whatever order, up to 2^64 of them: the engine never panics, and
  it ends in the state of a valid chain made of some of those blocks in order of arrival.
\<close>

theorem sync_run_is_ledger:
  assumes "length bs < 2 ^ 64"
  shows "\<exists>acc. subseq acc bs \<and> valid_chain D s acc \<and>
           sync_run p D (new_engine s) bs = Some (engine_of D s acc)"
  using sync_run_ledger [of D s "[]" bs p] assms by (simp add: new_engine_ledger [of s D])

lemma sync_run_is_ledger_witness:
  "\<exists>acc. subseq acc [demo_block, demo_block] \<and> valid_chain demo_digest new_store acc \<and>
     sync_run Checked demo_digest (new_engine new_store) [demo_block, demo_block] =
       Some (engine_of demo_digest new_store acc)"
  by (rule sync_run_is_ledger) simp

definition twin_block :: "digest \<Rightarrow> tx list \<Rightarrow> block" where
  "twin_block D txs =
     \<lparr>blk_height = 1, blk_prev_hash = GENESIS_PREV, blk_txs = txs, blk_state_root = EMPTY_ROOT\<rparr>"

lemma twin_blocks_alike:
  "block_payload (twin_block D [Tx_Remove ''a;rm:b'']) = block_payload (twin_block D [Tx_Remove ''a'', Tx_Remove ''b''])"
  "valid_chain D new_store [twin_block D [Tx_Remove ''a;rm:b'']]"
  "valid_chain D new_store [twin_block D [Tx_Remove ''a'', Tx_Remove ''b'']]"
proof -
  have root: "state_root D (new_store\<lparr>entries := bm_empty\<rparr>) = EMPTY_ROOT"
    by (simp add: state_root_def merkle_root_def)
  show "block_payload (twin_block D [Tx_Remove ''a;rm:b'']) = block_payload (twin_block D [Tx_Remove ''a'', Tx_Remove ''b''])"
    by (simp add: twin_block_def block_payload_def)
  have "valid_chain D new_store ([] @ [twin_block D [Tx_Remove ''a;rm:b'']])"
    "valid_chain D new_store ([] @ [twin_block D [Tx_Remove ''a'', Tx_Remove ''b'']])"
    by (simp_all only: valid_chain_snoc) (simp_all add: twin_block_def root)
  then show "valid_chain D new_store [twin_block D [Tx_Remove ''a;rm:b'']]"
    "valid_chain D new_store [twin_block D [Tx_Remove ''a'', Tx_Remove ''b'']]" by simp_all
qed

text \<open>
  C12: What the tip hash commits to. Two nodes that start from any states and hold non-empty valid
  chains with the same tip have chains of the same length whose blocks have the same hashed texts:
  they agree in height, link and state root, and the states have the same root, unless SHA-256
  collides on those texts. If moreover no key or value of their transactions contains a separator
  (\<open>plain_tx\<close>), the two chains are the same blocks with the same transactions.
  \<open>twin_blocks_are_duplicates\<close> shows that the texts alone do not determine the transactions.
\<close>

theorem tip_commits_to_history:
  assumes "digest32 D" "valid_chain D s bs" "valid_chain D t cs" "bs \<noteq> []" "cs \<noteq> []"
    and "length bs < 2 ^ 64" "length cs < 2 ^ 64"
    and "collision_free D (block_payload ` (set bs \<union> set cs))"
    and "tip_block_hash (engine_of D s bs) = tip_block_hash (engine_of D t cs)"
  shows "map block_payload bs = map block_payload cs \<and>
    map (\<lambda>b. (blk_height b, blk_prev_hash b, block_hash D b, blk_state_root b)) bs =
      map (\<lambda>b. (blk_height b, blk_prev_hash b, block_hash D b, blk_state_root b)) cs \<and>
    engine_state_root D (engine_of D s bs) = engine_state_root D (engine_of D t cs) \<and>
    ((\<forall>b \<in> set bs \<union> set cs. \<forall>x \<in> set (blk_txs b). plain_tx x) \<longrightarrow> bs = cs)"
proof -
  have pay: "map block_payload bs = map block_payload cs"
    using assms by (intro block_chain.binding [OF assms(1), where g = GENESIS_PREV])
      (auto simp: valid_chain_def engine_of_def GENESIS_PREV_def block_hash_def)
  have len: "length bs = length cs" using map_eq_imp_length_eq [OF pay] .
  have roots: "length (blk_state_root b) = 64" if "b \<in> set bs \<union> set cs" for b
    using that assms(2,3) chain_roots [OF assms(1)] by (auto simp: valid_chain_def)
  have prevs: "length (blk_prev_hash b) = 64" if "b \<in> set bs \<union> set cs" for b
    using that chain_prevs [OF assms(1,2)] chain_prevs [OF assms(1,3)] by auto
  have same: "block_payload (bs ! i) = block_payload (cs ! i)" "bs ! i \<in> set bs" "cs ! i \<in> set cs" if "i < length bs" for i
    using that pay len by (metis nth_map) (use that len in simp_all)
  have agree: "map (\<lambda>b. (blk_height b, blk_prev_hash b, block_hash D b, blk_state_root b)) bs =
      map (\<lambda>b. (blk_height b, blk_prev_hash b, block_hash D b, blk_state_root b)) cs"
  proof (intro nth_equalityI)
    fix i assume "i < length (map (\<lambda>b. (blk_height b, blk_prev_hash b, block_hash D b, blk_state_root b)) bs)"
    then have i: "i < length bs" "i < length cs" using len by simp_all
    note s = same [OF i(1)]
    have "blk_height (bs ! i) = blk_height (cs ! i)" "blk_state_root (bs ! i) = blk_state_root (cs ! i)"
      using block_payload_height [OF s(1)] block_payload_root [OF s(1)] roots s(2,3) by auto
    moreover have "blk_prev_hash (bs ! i) = blk_prev_hash (cs ! i)"
      using block_payload_rest [OF s(1)] prevs s(2,3) by simp
    ultimately show "map (\<lambda>b. (blk_height b, blk_prev_hash b, block_hash D b, blk_state_root b)) bs ! i =
        map (\<lambda>b. (blk_height b, blk_prev_hash b, block_hash D b, blk_state_root b)) cs ! i"
      using i s(1) by (simp add: block_hash_def)
  qed (simp add: len)
  have "map blk_state_root bs = map blk_state_root cs"
    using arg_cong [OF agree, of "map (snd \<circ> snd \<circ> snd)"] by (simp add: comp_def)
  then have "blk_state_root (last bs) = blk_state_root (last cs)" using assms(4,5) by (metis last_map)
  then have final: "engine_state_root D (engine_of D s bs) = engine_state_root D (engine_of D t cs)"
    using chain_final_root [of D s bs] chain_final_root [of D t cs] assms(2-5)
    by (simp add: engine_state_root_def engine_of_def valid_chain_def)
  have "bs = cs" if plain: "\<forall>b \<in> set bs \<union> set cs. \<forall>x \<in> set (blk_txs b). plain_tx x"
  proof (rule nth_equalityI [OF len])
    fix i assume i: "i < length bs"
    show "bs ! i = cs ! i"
      using same [OF i] plain roots prevs by (intro block_payload_inject) auto
  qed
  with pay agree final show ?thesis by blast
qed

lemma tip_commits_to_history_witness:
  "let bs = [twin_block demo_digest [Tx_Remove ''a;rm:b'']];
       cs = [twin_block demo_digest [Tx_Remove ''a'', Tx_Remove ''b'']]
   in bs \<noteq> cs \<and> map block_payload bs = map block_payload cs \<and>
      engine_state_root demo_digest (engine_of demo_digest new_store bs) =
        engine_state_root demo_digest (engine_of demo_digest new_store cs)"
proof -
  let ?b = "twin_block demo_digest [Tx_Remove ''a;rm:b'']"
  let ?c = "twin_block demo_digest [Tx_Remove ''a'', Tx_Remove ''b'']"
  note twins = twin_blocks_alike [of demo_digest]
  have "collision_free demo_digest (block_payload ` (set [?b] \<union> set [?c]))"
    using twins(1) by (simp add: collision_free_def)
  moreover have "tip_block_hash (engine_of demo_digest new_store [?b]) = tip_block_hash (engine_of demo_digest new_store [?c])"
    using twins(1) by (simp add: engine_of_def block_hash_def)
  moreover have "[?b] \<noteq> []" "[?c] \<noteq> []" "length [?b] < 2 ^ 64" "length [?c] < 2 ^ 64" "[?b] \<noteq> [?c]"
    by (simp_all add: twin_block_def)
  ultimately show ?thesis
    using tip_commits_to_history [OF digest32_demo twins(2,3)] unfolding Let_def by blast
qed

text \<open>
  Fork detection compares block hashes, and the text hashed for the transactions is not
  injective: removing the key \<open>a;rm:b\<close> and removing \<open>a\<close> and then \<open>b\<close> print alike. Both blocks are
  valid on an empty state, they have the same hash for every hash function, and an engine that
  accepted one reports the other as a duplicate, not as a fork.
\<close>

theorem twin_blocks_are_duplicates:
  "let b = twin_block D [Tx_Remove ''a;rm:b'']; c = twin_block D [Tx_Remove ''a'', Tx_Remove ''b''];
       e = engine_of D new_store [b]
   in blk_txs b \<noteq> blk_txs c \<and> block_hash D b = block_hash D c \<and>
      valid_chain D new_store [b] \<and> valid_chain D new_store [c] \<and>
      apply_block p D e c = Some (e, Inl (Duplicate 1))"
proof -
  define b where "b = twin_block D [Tx_Remove ''a;rm:b'']"
  define c where "c = twin_block D [Tx_Remove ''a'', Tx_Remove ''b'']"
  note twins = twin_blocks_alike [of D, folded b_def c_def]
  have same: "block_hash D b = block_hash D c" using twins(1) by (simp add: block_hash_def)
  have valid: "valid_chain D new_store [b]" "valid_chain D new_store [c]" using twins by simp_all
  have "bm_get (applied (engine_of D new_store [b])) 1 = Some (block_hash D b)"
    by (simp add: engine_of_def bm_of_list_def b_def twin_block_def)
  with same have "apply_block p D (engine_of D new_store [b]) c =
      Some (engine_of D new_store [b], Inl (Duplicate 1))"
    by (simp add: apply_block_def) (simp add: c_def twin_block_def)
  with same valid show ?thesis
    by (simp add: Let_def flip: b_def c_def) (simp add: b_def c_def twin_block_def)
qed

end
