(* ===== verification/Files.thy ===== *)
theory Files imports Prelude begin

text \<open>
  What the storage code uses of \<open>std::fs\<close> and \<open>std::io\<close>: a file system as a map from paths to
  contents, whole-file writes, appends and reads, and \<open>BufRead::lines\<close>. A write takes its
  outcome as an argument, so that the models cover failing and interrupted writes.
\<close>

type_synonym fs = "string \<rightharpoonup> string"

datatype io_error = Not_Found | Invalid_Data | Write_Failed | Serde_Failed | Io_Other string

text \<open>
  Outcome of a write: everything reached the file; it failed after \<open>n\<close> bytes; the file could not
  be opened. \<open>Unsynced\<close>: all bytes were written and the following \<open>sync_data\<close> failed.
\<close>

datatype write_outcome = Written | Partial nat | Denied | Unsynced

fun reached :: "write_outcome \<Rightarrow> string \<Rightarrow> string" where
  "reached (Partial n) s = take n s"
| "reached Denied s = []"
| "reached _ s = s"

text \<open>\<open>fs::write\<close>: open with truncation, then write; it never syncs.\<close>

definition fs_write :: "write_outcome \<Rightarrow> fs \<Rightarrow> string \<Rightarrow> string \<Rightarrow> fs \<times> (io_error + unit)" where
  "fs_write w f path s =
     (case w of
        Denied \<Rightarrow> (f, Inl Write_Failed)
      | Partial n \<Rightarrow> (f(path \<mapsto> take n s), Inl Write_Failed)
      | _ \<Rightarrow> (f(path \<mapsto> s), Inr ()))"

text \<open>A write through a handle opened with \<open>append(true)\<close>, followed by \<open>sync_data\<close>.\<close>

definition contents :: "fs \<Rightarrow> string \<Rightarrow> string" where
  "contents f path = (case f path of None \<Rightarrow> [] | Some c \<Rightarrow> c)"

definition fs_append :: "write_outcome \<Rightarrow> fs \<Rightarrow> string \<Rightarrow> string \<Rightarrow> fs \<times> (io_error + unit)" where
  "fs_append w f path s =
     (f(path \<mapsto> contents f path @ reached w s), if w = Written then Inr () else Inl Write_Failed)"

text \<open>\<open>OpenOptions::new().create(true).append(true).open(path)\<close>.\<close>

definition fs_create :: "fs \<Rightarrow> string \<Rightarrow> fs" where
  "fs_create f path = f(path \<mapsto> contents f path)"

text \<open>\<open>fs::read_to_string\<close>.\<close>

definition read_to_string :: "fs \<Rightarrow> string \<Rightarrow> io_error + string" where
  "read_to_string f path =
     (case f path of
        None \<Rightarrow> Inl Not_Found
      | Some c \<Rightarrow> if utf8_ok c then Inr c else Inl Invalid_Data)"

section \<open>Lines\<close>

text \<open>
  \<open>BufRead::lines\<close>: pieces ended by a line feed, a carriage return before it dropped, and a last
  piece without line feed if it is not empty. Whether a piece is UTF-8 is checked by the caller.
\<close>

definition strip_cr :: "string \<Rightarrow> string" where
  "strip_cr s = (if s \<noteq> [] \<and> last s = CHR 0x0D then butlast s else s)"

fun lines_from :: "string \<Rightarrow> string \<Rightarrow> string list" where
  "lines_from cur [] = (if cur = [] then [] else [cur])"
| "lines_from cur (c # cs) =
     (if c = CHR 0x0A then strip_cr cur # lines_from [] cs else lines_from (cur @ [c]) cs)"

definition buf_lines :: "string \<Rightarrow> string list" where
  "buf_lines s = lines_from [] s"

definition newline :: string where
  "newline = [CHR 0x0A]"

lemma lines_from_plain: "CHR 0x0A \<notin> set s \<Longrightarrow> lines_from cur s = (if cur @ s = [] then [] else [cur @ s])"
  by (induction s arbitrary: cur) auto

lemma lines_from_line:
  "CHR 0x0A \<notin> set s \<Longrightarrow> lines_from cur (s @ newline @ t) = strip_cr (cur @ s) # lines_from [] t"
  by (induction s arbitrary: cur) (auto simp: newline_def)

definition is_line :: "string \<Rightarrow> bool" where
  "is_line s \<longleftrightarrow> CHR 0x0A \<notin> set s \<and> CHR 0x0D \<notin> set s"

lemma buf_lines_plain:
  "CHR 0x0A \<notin> set s \<Longrightarrow> buf_lines s = (if s = [] then [] else [s])"
  by (simp add: buf_lines_def lines_from_plain)

lemma strip_cr_line: "CHR 0x0D \<notin> set s \<Longrightarrow> strip_cr s = s"
  by (metis last_in_set strip_cr_def)

lemma buf_lines_line: "is_line s \<Longrightarrow> buf_lines (s @ newline @ t) = s # buf_lines t"
  by (simp add: buf_lines_def is_line_def lines_from_line strip_cr_line)

text \<open>A file of complete lines, followed by an incomplete one.\<close>

definition unlines :: "string list \<Rightarrow> string" where
  "unlines ls = concat (map (\<lambda>l. l @ newline) ls)"

lemma unlines_simps [simp]:
  "unlines [] = []"
  "unlines (l # ls) = l @ newline @ unlines ls"
  "unlines (ls @ ms) = unlines ls @ unlines ms"
  by (simp_all add: unlines_def)

lemma buf_lines_unlines:
  "\<forall>l \<in> set ls. is_line l \<Longrightarrow> CHR 0x0A \<notin> set t \<Longrightarrow>
   buf_lines (unlines ls @ t) = ls @ (if t = [] then [] else [t])"
  by (induction ls) (simp_all add: buf_lines_plain buf_lines_line)

lemma contents_upd [simp]: "contents (f(p \<mapsto> c)) p = c" "q \<noteq> p \<Longrightarrow> contents (f(p \<mapsto> c)) q = contents f q"
  by (simp_all add: contents_def)

end
