(* ===== verification/Demo_Codec.thy ===== *)
theory Demo_Codec imports Prelude begin

text \<open>
  A small text codec for the closed examples. The files of the repository are written by
  \<open>serde_json\<close>, which is a parameter of the models; the examples instantiate it with this codec,
  which has the properties the code relies on: it decodes what it encodes, an encoding is a line
  of ASCII text without line breaks, and no proper prefix of an encoding decodes.
\<close>

section \<open>Hexadecimal strings, read back\<close>

definition hex_value :: "char \<Rightarrow> nat option" where
  "hex_value c =
     (let n = of_char c in
      if 48 \<le> n \<and> n \<le> 57 then Some (n - 48)
      else if 97 \<le> n \<and> n \<le> 102 then Some (n - 87) else None)"

fun unhex :: "string \<Rightarrow> string option" where
  "unhex [] = Some []"
| "unhex [c] = None"
| "unhex (a # b # cs) =
     do { x \<leftarrow> hex_value a; y \<leftarrow> hex_value b; s \<leftarrow> unhex cs; Some (char_of (16 * x + y) # s) }"

definition hex_str :: "string \<Rightarrow> string" where
  "hex_str s = hex (as_bytes s)"

lemma hex_value_digit: "d < 16 \<Longrightarrow> hex_value (hex_digit d) = Some d"
proof -
  assume "d < 16"
  then have "d \<in> {0, 1, 2, 3, 4, 5, 6, 7, 8, 9, 10, 11, 12, 13, 14, 15}"
    by (simp only: insert_iff empty_iff) presburger
  then show ?thesis by (auto simp: hex_value_def hex_digit_def)
qed

lemma hex_digit_code: "d < 16 \<Longrightarrow> (of_char (hex_digit d) :: nat) \<in> {48..57} \<union> {97..102}"
proof -
  assume "d < 16"
  then have "hex_value (hex_digit d) = Some d" by (rule hex_value_digit)
  then show ?thesis by (simp add: hex_value_def Let_def split: if_splits)
qed

lemma hex_str_Cons: "hex_str (c # s) = hex_byte (of_char c) @ hex_str s"
  by (simp add: hex_str_def as_bytes_def hex_Cons)

lemma of_char_lt_256: "(of_char c :: nat) < 256"
  by (rule of_char_mod_256 [THEN subst]) simp

lemma unhex_hex_str [simp]: "unhex (hex_str s) = Some s"
proof (induction s)
  case Nil
  then show ?case by (simp add: hex_str_def as_bytes_def hex_def)
next
  case (Cons c s)
  have "(of_char c :: nat) div 16 < 16" using of_char_lt_256 [of c] by (simp add: less_mult_imp_div_less)
  then show ?case
    using Cons by (simp add: hex_str_Cons hex_byte_def hex_value_digit unat_of_char_u8)
qed

lemma hex_str_code: "x \<in> set (hex_str s) \<Longrightarrow> (of_char x :: nat) \<in> {48..57} \<union> {97..102}"
proof (induction s)
  case Nil
  then show ?case by (simp add: hex_str_def as_bytes_def hex_def)
next
  case (Cons c s)
  have "(of_char c :: nat) div 16 < 16" using of_char_lt_256 [of c] by (simp add: less_mult_imp_div_less)
  moreover have "(of_char c :: nat) mod 16 < 16" by simp
  moreover have "x = hex_digit (of_char c div 16) \<or> x = hex_digit (of_char c mod 16) \<or> x \<in> set (hex_str s)"
    using Cons.prems by (simp add: hex_str_Cons hex_byte_def unat_of_char_u8)
  ultimately show ?case using Cons.IH hex_digit_code by metis
qed

section \<open>Records of strings\<close>

definition pack :: "string list \<Rightarrow> string" where
  "pack fs = CHR ''{'' # join '','' (map hex_str fs) @ ''}''"

fun unhex_all :: "string list \<Rightarrow> string list option" where
  "unhex_all [] = Some []"
| "unhex_all (f # fs) = do { s \<leftarrow> unhex f; ss \<leftarrow> unhex_all fs; Some (s # ss) }"

definition unpack :: "string \<Rightarrow> string list option" where
  "unpack s =
     (case s of
        [] \<Rightarrow> None
      | c # cs \<Rightarrow>
          if c = CHR ''{'' \<and> cs \<noteq> [] \<and> last cs = CHR ''}'' then unhex_all (split_on CHR '','' (butlast cs))
          else None)"

lemma unhex_all_map [simp]: "unhex_all (map hex_str fs) = Some fs"
  by (induction fs) simp_all

lemma unpack_pack [simp]: "fs \<noteq> [] \<Longrightarrow> unpack (pack fs) = Some fs"
proof -
  assume "fs \<noteq> []"
  have "CHR '','' \<notin> set (hex_str f)" for f using hex_str_code [of "CHR '',''" f] by auto
  with \<open>fs \<noteq> []\<close> have "split_on CHR '','' (join '','' (map hex_str fs)) = map hex_str fs"
    by (intro split_on_join) auto
  then show ?thesis by (simp add: unpack_def pack_def butlast_append)
qed

lemma set_join: "set (join sep fs) \<subseteq> set sep \<union> (\<Union>f \<in> set fs. set f)"
  by (induction sep fs rule: join.induct) auto

lemma pack_body:
  "x \<in> set (join '','' (map hex_str fs)) \<Longrightarrow> (of_char x :: nat) \<in> {44, 123, 125} \<union> {48..57} \<union> {97..102}"
proof -
  assume "x \<in> set (join '','' (map hex_str fs))"
  then have "x = CHR '','' \<or> (\<exists>f. x \<in> set (hex_str f))"
    using set_join [of "'',''" "map hex_str fs"] by auto
  then show ?thesis using hex_str_code [of x] by (elim disjE exE) auto
qed

lemma pack_body_no_brace: "CHR ''}'' \<notin> set (join '','' (map hex_str fs))"
proof
  assume "CHR ''}'' \<in> set (join '','' (map hex_str fs))"
  then obtain f where "CHR ''}'' \<in> set (hex_str f)"
    using set_join [of "'',''" "map hex_str fs"] by auto
  then show False using hex_str_code [of "CHR ''}''" f] by simp
qed

lemma pack_code: "x \<in> set (pack fs) \<Longrightarrow> (of_char x :: nat) \<in> {44, 123, 125} \<union> {48..57} \<union> {97..102}"
  using pack_body [of x fs] unfolding pack_def by (simp only: set_simps set_append Un_iff) auto

lemma unpack_prefix:
  assumes "pack fs = p @ q" "q \<noteq> []"
  shows "unpack p = None"
proof (cases p)
  case Nil
  then show ?thesis by (simp add: unpack_def)
next
  case (Cons c cs)
  obtain q' z where q: "q = q' @ [z]" using assms(2) by (cases q rule: rev_cases) auto
  with assms(1) Cons have "join '','' (map hex_str fs) = cs @ q'" by (simp add: pack_def)
  then have "CHR ''}'' \<notin> set cs" using pack_body_no_brace [of fs] by auto
  then have "cs \<noteq> [] \<Longrightarrow> last cs \<noteq> CHR ''}''" using last_in_set by metis
  with Cons show ?thesis by (auto simp: unpack_def)
qed

lemma ascii_pack [simp]: "ascii (pack fs)"
  using pack_code [of _ fs] by (fastforce simp: ascii_def)

lemma pack_plain [simp]:
  "CHR 0x0A \<notin> set (pack fs)" "CHR 0x0D \<notin> set (pack fs)" "pack fs \<noteq> []"
  using pack_code [of "CHR 0x0A" fs] pack_code [of "CHR 0x0D" fs] by (auto simp: pack_def)

lemma pack_head: "pack fs = c # cs \<Longrightarrow> c = CHR ''{''"
  by (simp add: pack_def)

lemma pack_inject: "fs \<noteq> [] \<Longrightarrow> gs \<noteq> [] \<Longrightarrow> pack fs = pack gs \<longleftrightarrow> fs = gs"
  by (metis unpack_pack option.inject)

lemma unpack_junk: "unpack (CHR ''{'' # pack fs) = None"
proof -
  have junk: "unhex_all (split_on CHR '','' (CHR ''{'' # s)) = None" for s
  proof -
    obtain q qs where "split_on CHR '','' s = q # qs" by (cases "split_on CHR '','' s") auto
    then show ?thesis by (cases q) (simp_all add: hex_value_def)
  qed
  obtain s where s: "pack fs = CHR ''{'' # s @ ''}''" by (auto simp: pack_def)
  then have b: "butlast (pack fs) = CHR ''{'' # s" "last (pack fs) = CHR ''}''"
    by (simp_all add: butlast_append)
  have "unpack (CHR ''{'' # pack fs) = unhex_all (split_on CHR '','' (butlast (pack fs)))"
    using b(2) by (simp add: unpack_def)
  then show ?thesis unfolding b(1) by (simp only: junk)
qed

lemma length_pack: "length (pack fs) \<le> 3 + sum_list (map (\<lambda>f. 2 * length f + 1) fs)"
proof -
  have "length (hex_str f) = 2 * length f" for f by (simp add: hex_str_def as_bytes_def)
  then have "length (join '','' (map hex_str fs)) \<le> sum_list (map (\<lambda>f. 2 * length f + 1) fs)"
    by (induction fs rule: induct_list012) simp_all
  then show ?thesis by (simp add: pack_def)
qed

definition of_bytes :: "bytes \<Rightarrow> string" where
  "of_bytes b = map (\<lambda>w. char_of (unat w)) b"

lemma of_bytes_as_bytes [simp]: "of_bytes (as_bytes s) = s"
  by (simp add: of_bytes_def as_bytes_def comp_def unat_of_char_u8)

lemma as_bytes_of_bytes [simp]: "as_bytes (of_bytes b) = b"
proof -
  have "(of_char (char_of (unat w)) :: u8) = w" for w :: u8
  proof -
    have "unat w < 256" using unsigned_less [of w, where 'a = nat] by simp
    then show ?thesis by (subst of_nat_of_char [symmetric]) (simp add: of_char_of)
  qed
  then show ?thesis by (simp add: of_bytes_def as_bytes_def comp_def)
qed

end
