(* ===== verification/Persistence.thy ===== *)
theory Persistence imports State_Store Files Demo_Codec begin

text \<open>
  \<open>kai-os/state/src/persistence.rs\<close>: a snapshot of the state in a file, verified after writing and
  when loading. \<open>serde_json\<close> is the parameter \<open>C\<close>.
\<close>

section \<open>The file format\<close>

record persisted_snapshot =
  ps_height :: u64
  ps_tip :: string
  ps_root :: string
  ps_entries :: "(string, string) bmap"

record snap_codec =
  sc_print :: "persisted_snapshot \<Rightarrow> string option"
  sc_parse :: "string \<Rightarrow> persisted_snapshot option"

text \<open>
  What the code relies on: printing succeeds, gives UTF-8 text, and is undone by parsing. (Rust
  strings are UTF-8; of other byte lists the model says nothing.)
\<close>

definition snap_codec_ok :: "snap_codec \<Rightarrow> bool" where
  "snap_codec_ok C \<longleftrightarrow> (\<forall>s. \<exists>t. sc_print C s = Some t \<and> utf8_ok t \<and> sc_parse C t = Some s)"

section \<open>Saving and loading\<close>

definition from_store :: "digest \<Rightarrow> state_store \<Rightarrow> u64 \<Rightarrow> string \<Rightarrow> persisted_snapshot" where
  "from_store D store height tip =
     \<lparr>ps_height = height, ps_tip = tip, ps_root = state_root D store, ps_entries = entries store\<rparr>"

definition to_store :: "persisted_snapshot \<Rightarrow> state_store" where
  "to_store snap = rebuild_store (bm_entries (ps_entries snap))"

definition load_verify_msg :: "string \<Rightarrow> string" where
  "load_verify_msg r = ''load-verify failed: gespeicherter Root '' @ r @ '' weicht ab''"

definition write_verify_msg :: string where
  "write_verify_msg =
     ''write-verify failed: state-root weicht nach R'' @ [CHR 0xC3, CHR 0xBC] @ ''cklesen ab''"

definition load_snapshot_store ::
  "digest \<Rightarrow> snap_codec \<Rightarrow> fs \<Rightarrow> string \<Rightarrow> (io_error + state_store) option" where
  "load_snapshot_store D C f path =
     (case read_to_string f path of
        Inl e \<Rightarrow> Some (Inl e)
      | Inr raw \<Rightarrow>
          (case sc_parse C raw of
             None \<Rightarrow> Some (Inl Serde_Failed)
           | Some snap \<Rightarrow>
               let store = to_store snap in
               if state_root D store \<noteq> ps_root snap
               then do { r \<leftarrow> slice_to (ps_root snap) 16; Some (Inl (Io_Other (load_verify_msg r))) }
               else Some (Inr store)))"

definition save_snapshot_store ::
  "digest \<Rightarrow> snap_codec \<Rightarrow> write_outcome \<Rightarrow> fs \<Rightarrow> state_store \<Rightarrow> u64 \<Rightarrow> string \<Rightarrow> string \<Rightarrow>
   (fs \<times> (io_error + unit)) option" where
  "save_snapshot_store D C w f store height tip path =
     (case sc_print C (from_store D store height tip) of
        None \<Rightarrow> Some (f, Inl Serde_Failed)
      | Some json \<Rightarrow>
          (case fs_write w f path json of
             (f', Inl e) \<Rightarrow> Some (f', Inl e)
           | (f', Inr _) \<Rightarrow> do {
               reread \<leftarrow> load_snapshot_store D C f' path;
               case reread of
                 Inl e \<Rightarrow> Some (f', Inl e)
               | Inr st \<Rightarrow>
                   if state_root D st \<noteq> state_root D store
                   then Some (f', Inl (Io_Other write_verify_msg))
                   else Some (f', Inr ())
             }))"

definition snapshot_meta :: "snap_codec \<Rightarrow> fs \<Rightarrow> string \<Rightarrow> io_error + u64 \<times> string \<times> string" where
  "snapshot_meta C f path =
     (case read_to_string f path of
        Inl e \<Rightarrow> Inl e
      | Inr raw \<Rightarrow>
          (case sc_parse C raw of
             None \<Rightarrow> Inl Serde_Failed
           | Some snap \<Rightarrow> Inr (ps_height snap, ps_tip snap, ps_root snap)))"

section \<open>Lemmas\<close>

lemma to_store_from_store [simp]: "to_store (from_store D s h t) = s"
  by (simp add: to_store_def from_store_def)

lemma entries_to_store: "entries (to_store snap) = ps_entries snap"
  by (simp add: to_store_def entries_rebuild_store)

lemma load_ok_iff:
  "load_snapshot_store D C f path = Some (Inr st) \<longleftrightarrow>
     (\<exists>raw snap. read_to_string f path = Inr raw \<and> sc_parse C raw = Some snap \<and>
        st = to_store snap \<and> state_root D st = ps_root snap)"
  by (auto simp: load_snapshot_store_def Let_def bind_eq_Some_conv split: sum.splits option.splits)

lemma load_saved:
  assumes "snap_codec_ok C" "sc_print C (from_store D s h t) = Some json" "f path = Some json"
  shows "load_snapshot_store D C f path = Some (Inr s)"
proof -
  obtain json' where "sc_print C (from_store D s h t) = Some json'" "utf8_ok json'"
    "sc_parse C json' = Some (from_store D s h t)"
    using assms(1) unfolding snap_codec_ok_def by blast
  with assms show ?thesis
    by (auto simp: load_ok_iff read_to_string_def) (simp add: from_store_def)
qed

lemma fs_write_cases:
  obtains (written) "fs_write w f path s = (f(path \<mapsto> s), Inr ())"
  | (failed) f' where "fs_write w f path s = (f', Inl Write_Failed)" "\<And>p. p \<noteq> path \<Longrightarrow> f' p = f p"
  by (cases w) (auto simp: fs_write_def)

text \<open>A correct codec never makes a save panic, and a save only touches its own file.\<close>

lemma save_total:
  assumes "snap_codec_ok C"
  obtains f' r where "save_snapshot_store D C w f s h t path = Some (f', r)"
    and "\<And>p. p \<noteq> path \<Longrightarrow> f' p = f p"
    and "r = Inr () \<Longrightarrow> load_snapshot_store D C f' path = Some (Inr s) \<and>
           snapshot_meta C f' path = Inr (h, t, state_root D s)"
    and "w \<in> {Written, Unsynced} \<Longrightarrow> r = Inr ()"
proof -
  obtain json where json: "sc_print C (from_store D s h t) = Some json" "utf8_ok json"
    "sc_parse C json = Some (from_store D s h t)"
    using assms unfolding snap_codec_ok_def by blast
  have load: "load_snapshot_store D C (f(path \<mapsto> json)) path = Some (Inr s)"
    using assms json(1) by (rule load_saved) simp
  have meta: "snapshot_meta C (f(path \<mapsto> json)) path = Inr (h, t, state_root D s)"
    using json by (simp add: snapshot_meta_def read_to_string_def from_store_def)
  show thesis
  proof (cases w f path json rule: fs_write_cases)
    case written
    then show thesis using json load meta by (intro that [of "f(path \<mapsto> json)" "Inr ()"])
        (simp_all add: save_snapshot_store_def)
  next
    case (failed f')
    then have "w \<notin> {Written, Unsynced}" by (auto simp: fs_write_def)
    then show thesis using json failed by (intro that [of f' "Inl Write_Failed"])
        (simp_all add: save_snapshot_store_def)
  qed
qed

section \<open>The codec of the examples\<close>

fun pairs_of :: "string list \<Rightarrow> (string \<times> string) list" where
  "pairs_of (a # b # cs) = (a, b) # pairs_of cs"
| "pairs_of _ = []"

definition demo_snap_codec :: snap_codec where
  "demo_snap_codec =
     \<lparr>sc_print = \<lambda>s. Some (pack (show_word (ps_height s) # ps_tip s # ps_root s #
        concat (map (\<lambda>(k, v). [k, v]) (bm_entries (ps_entries s))))),
      sc_parse = \<lambda>t. (case unpack t of
          Some (h # tip # root # es) \<Rightarrow>
            map_option (\<lambda>height. \<lparr>ps_height = height, ps_tip = tip, ps_root = root,
                ps_entries = bm_of_list (pairs_of es)\<rparr>) (parse_word h)
        | _ \<Rightarrow> None)\<rparr>"

lemma pairs_of_concat [simp]: "pairs_of (concat (map (\<lambda>(k, v). [k, v]) es)) = es"
  by (induction es) auto

lemma demo_snap_codec_ok: "snap_codec_ok demo_snap_codec"
  by (auto simp: snap_codec_ok_def demo_snap_codec_def ascii_utf8)

section \<open>Properties\<close>

text \<open>
  C14: Write-verify. With a serializer that undoes itself, a save never panics, whatever part of
  the file gets written. If it reports success, loading returns exactly the saved state and the
  metadata reader the saved height, tip and root; a write that reaches the file reports success;
  and no other file changes.
\<close>

theorem save_then_load:
  assumes "snap_codec_ok C"
  shows "\<exists>f' r. save_snapshot_store D C w f s h t path = Some (f', r) \<and>
    (\<forall>p. p \<noteq> path \<longrightarrow> f' p = f p) \<and>
    (r = Inr () \<longrightarrow> load_snapshot_store D C f' path = Some (Inr s) \<and>
       snapshot_meta C f' path = Inr (h, t, state_root D s)) \<and>
    (w = Written \<longrightarrow> r = Inr ())"
  using save_total [OF assms, of D w f s h t path] by (metis insertI1)

lemma save_then_load_witness:
  "\<exists>f'. save_snapshot_store demo_digest demo_snap_codec Written Map.empty \<lparr>entries = demo_map\<rparr> 3
       ''tip'' ''state.json'' = Some (f', Inr ()) \<and>
     load_snapshot_store demo_digest demo_snap_codec f' ''state.json'' = Some (Inr \<lparr>entries = demo_map\<rparr>) \<and>
     snapshot_meta demo_snap_codec f' ''state.json'' =
       Inr (3, ''tip'', state_root demo_digest \<lparr>entries = demo_map\<rparr>)"
  using save_then_load [OF demo_snap_codec_ok, of demo_digest Written Map.empty "\<lparr>entries = demo_map\<rparr>" 3
      "''tip''" "''state.json''"] by auto

text \<open>
  Load-verify. A file that loads restores a state with the stored root; if that root is the
  root of a state \<open>s\<close>, the file restores \<open>s\<close> itself, however it was written, provided the keys of
  both are plain and SHA-256 does not collide on the strings of the two trees.
\<close>

theorem load_detects_tampering:
  assumes "load_snapshot_store D C f path = Some (Inr st)"
    and "snapshot_meta C f path = Inr (h, t, state_root D s)"
    and "digest32 D" "sha_str D [] = EMPTY_ROOT"
    and "plain_keys (entries st)" "plain_keys (entries s)"
    and "collision_free D (insert [] (root_inputs D (entries st) \<union> root_inputs D (entries s)))"
  shows "st = s"
proof -
  have "state_root D st = state_root D s"
    using assms(1,2) by (auto simp: load_ok_iff snapshot_meta_def)
  then have "entries st = entries s"
    by (intro root_binding [OF assms(3-7)]) (simp only: state_root_def)
  then show ?thesis by (rule store_eqI)
qed

lemma load_detects_tampering_witness:
  "case load_snapshot_store demo_digest demo_snap_codec
      [''f'' \<mapsto> the (sc_print demo_snap_codec (from_store demo_digest \<lparr>entries = demo_map\<rparr> 3 ''t''))] ''f''
   of Some (Inr st) \<Rightarrow> st = \<lparr>entries = demo_map\<rparr> | _ \<Rightarrow> False"
proof -
  let ?s = "\<lparr>entries = demo_map\<rparr>"
  let ?f = "[''f'' \<mapsto> the (sc_print demo_snap_codec (from_store demo_digest ?s 3 ''t''))]"
  have load: "load_snapshot_store demo_digest demo_snap_codec ?f ''f'' = Some (Inr ?s)"
    using demo_snap_codec_ok by (rule load_saved [where h = 3 and t = "''t''"])
      (simp_all add: demo_snap_codec_def)
  have meta: "snapshot_meta demo_snap_codec ?f ''f'' = Inr (3, ''t'', state_root demo_digest ?s)"
    by (simp add: snapshot_meta_def read_to_string_def demo_snap_codec_def ascii_utf8)
      (simp add: from_store_def)
  have "?s = ?s"
    using collision_free_demo_map
    by (intro load_detects_tampering [OF load meta]) (simp_all add: sha_demo_empty plain_demo_map)
  then show ?thesis by (simp add: load)
qed

text \<open>
  The error path of load-verify slices the first 16 bytes of the stored root to print them.
  A file whose stored root is shorter than that and does not match makes the load panic instead
  of returning an error; with at least 16 ASCII bytes it is an error.
\<close>

theorem load_verify_panics:
  assumes "read_to_string f path = Inr raw" "sc_parse C raw = Some snap"
    and "state_root D (to_store snap) \<noteq> ps_root snap" "ascii (ps_root snap)"
  shows "load_snapshot_store D C f path =
    (if length (ps_root snap) < 16 then None
     else Some (Inl (Io_Other (load_verify_msg (take 16 (ps_root snap))))))"
proof -
  have "slice_to (ps_root snap) 16 =
      (if length (ps_root snap) < 16 then None else Some (take 16 (ps_root snap)))"
    using assms(4) nth_mem [of 16 "ps_root snap"]
    by (fastforce simp: slice_to_def cont_byte_def ascii_def)
  with assms(1-3) show ?thesis by (simp add: load_snapshot_store_def Let_def)
qed

definition bad_snapshot :: persisted_snapshot where
  "bad_snapshot = \<lparr>ps_height = 0, ps_tip = [], ps_root = ''00'', ps_entries = bm_empty\<rparr>"

lemma load_verify_panics_witness:
  "load_snapshot_store demo_digest demo_snap_codec [''f'' \<mapsto> the (sc_print demo_snap_codec bad_snapshot)]
     ''f'' = None"
proof -
  obtain raw where raw: "sc_print demo_snap_codec bad_snapshot = Some raw" "utf8_ok raw"
    "sc_parse demo_snap_codec raw = Some bad_snapshot"
    using demo_snap_codec_ok unfolding snap_codec_ok_def by blast
  have "state_root demo_digest (to_store bad_snapshot) = EMPTY_ROOT"
    by (simp add: state_root_def entries_to_store bad_snapshot_def merkle_root_def)
  moreover have "EMPTY_ROOT \<noteq> ''00''" by (simp add: EMPTY_ROOT_def)
  ultimately have "state_root demo_digest (to_store bad_snapshot) \<noteq> ps_root bad_snapshot"
    by (simp add: bad_snapshot_def)
  with raw have "load_snapshot_store demo_digest demo_snap_codec [''f'' \<mapsto> raw] ''f'' =
      (if length (ps_root bad_snapshot) < 16 then None
       else Some (Inl (Io_Other (load_verify_msg (take 16 (ps_root bad_snapshot))))))"
    by (intro load_verify_panics) (simp_all add: read_to_string_def, simp add: bad_snapshot_def ascii_def)
  with raw(1) show ?thesis by (simp add: bad_snapshot_def)
qed

end
