(* ===== verification/Wal.thy ===== *)
theory Wal imports Persistence Hash_Chain begin

text \<open>
  \<open>kai-os/state/src/wal.rs\<close>: the write-ahead log, a file of one hash-chained record per line, and
  the persistent state that recovers from it. \<open>serde_json\<close> is the parameter \<open>C\<close> (log records)
  and \<open>SC\<close> (snapshots). Every write takes its outcome as an argument.
\<close>

section \<open>Records\<close>

datatype wal_op = Wal_Apply tx | Wal_Checkpoint u64 string string

record wal_record =
  wr_seq :: u64
  wr_prev :: string
  wr_op :: wal_op

record wal_codec =
  wc_op :: "wal_op \<Rightarrow> string option"
  wc_rec :: "wal_record \<Rightarrow> string option"
  wc_parse :: "string \<Rightarrow> wal_record option"

text \<open>
  What the code relies on: serialization succeeds and is injective on operations; a record is
  printed as one non-blank UTF-8 line that parses back; a JSON object cut short does not parse.
\<close>

definition wal_codec_ok :: "wal_codec \<Rightarrow> bool" where
  "wal_codec_ok C \<longleftrightarrow>
     (\<forall>a. wc_op C a \<noteq> None) \<and> inj (wc_op C) \<and>
     (\<forall>r. \<exists>s. wc_rec C r = Some s \<and> is_line s \<and> utf8_ok s \<and> \<not> trim_is_empty s \<and>
        wc_parse C s = Some r \<and> (\<forall>p q. s = p @ q \<longrightarrow> q \<noteq> [] \<longrightarrow> wc_parse C p = None))"

definition wal_payload :: "wal_codec \<Rightarrow> wal_record \<Rightarrow> string" where
  "wal_payload C r =
     show_word (wr_seq r) @ ''|'' @ wr_prev r @ ''|'' @
     (case wc_op C (wr_op r) of None \<Rightarrow> [] | Some s \<Rightarrow> s)"

definition wal_hash :: "digest \<Rightarrow> wal_codec \<Rightarrow> wal_record \<Rightarrow> string" where
  "wal_hash D C r = sha_str D (wal_payload C r)"

datatype wal_error = Wal_Io io_error | Chain_Broken nat string string | Malformed_Record nat

definition WAL_GENESIS :: string where
  "WAL_GENESIS = replicate 64 CHR ''0''"

section \<open>The log\<close>

record wal =
  wal_path :: string
  wal_seq :: u64
  wal_prev :: string

text \<open>
  The loop of \<open>replay\<close> over \<open>reader.lines()\<close>. \<open>count\<close> is the number of lines of the file, which
  \<open>is_last_line\<close> counts again; \<open>n\<close> counts the lines read so far.
\<close>

fun replay_loop ::
  "profile \<Rightarrow> digest \<Rightarrow> wal_codec \<Rightarrow> nat \<Rightarrow> nat \<Rightarrow> wal_op list \<times> u64 \<times> string \<Rightarrow> string list \<Rightarrow>
   (wal_error + wal_op list \<times> u64 \<times> string) option" where
  "replay_loop p D C count n acc [] = Some (Inr acc)"
| "replay_loop p D C count n (ops, seq, prev) (line # rest) =
     (if \<not> utf8_ok line then Some (Inl (Wal_Io Invalid_Data))
      else if trim_is_empty line then replay_loop p D C count (n + 1) (ops, seq, prev) rest
      else case wc_parse C line of
        None \<Rightarrow>
          Some (if count \<le> n + 1 then Inr (ops, seq, prev) else Inl (Malformed_Record (n + 1)))
      | Some r \<Rightarrow> do {
          expected \<leftarrow> add_ov p seq 1;
          if wr_seq r \<noteq> expected
          then Some (Inl (Chain_Broken (n + 1) (''seq '' @ show_word expected)
                       (''seq '' @ show_word (wr_seq r))))
          else if wr_prev r \<noteq> prev
          then Some (Inl (Chain_Broken (n + 1) prev (wr_prev r)))
          else replay_loop p D C count (n + 1) (ops @ [wr_op r], wr_seq r, wal_hash D C r) rest
        })"

definition wal_replay ::
  "profile \<Rightarrow> digest \<Rightarrow> wal_codec \<Rightarrow> fs \<Rightarrow> string \<Rightarrow>
   (wal_error + wal_op list \<times> u64 \<times> string) option" where
  "wal_replay p D C f path =
     (case f path of
        None \<Rightarrow> Some (Inl (Wal_Io Not_Found))
      | Some c \<Rightarrow>
          let ls = buf_lines c in replay_loop p D C (length ls) 0 ([], 0, WAL_GENESIS) ls)"

text \<open>
  \<open>is_last_line\<close> counts the lines of the file again; \<open>replay_loop\<close> is given the count.
\<close>

definition is_last_line :: "fs \<Rightarrow> string \<Rightarrow> nat \<Rightarrow> bool" where
  "is_last_line f path line_no =
     (case f path of None \<Rightarrow> False | Some c \<Rightarrow> length (buf_lines c) \<le> line_no)"

lemma is_last_line_count: "f path = Some c \<Longrightarrow> is_last_line f path n \<longleftrightarrow> length (buf_lines c) \<le> n"
  by (simp add: is_last_line_def)

definition scan_tail ::
  "profile \<Rightarrow> digest \<Rightarrow> wal_codec \<Rightarrow> fs \<Rightarrow> string \<Rightarrow> (wal_error + u64 \<times> string) option" where
  "scan_tail p D C f path =
     (if f path = None then Some (Inr (0, WAL_GENESIS))
      else map_option (map_sum id (\<lambda>(_, seq, prev). (seq, prev))) (wal_replay p D C f path))"

definition wal_open ::
  "profile \<Rightarrow> digest \<Rightarrow> wal_codec \<Rightarrow> fs \<Rightarrow> string \<Rightarrow> (fs \<times> (wal_error + wal)) option" where
  "wal_open p D C f path = do {
     r \<leftarrow> scan_tail p D C f path;
     case r of
       Inl e \<Rightarrow> Some (f, Inl e)
     | Inr (seq, prev) \<Rightarrow>
         Some (fs_create f path, Inr \<lparr>wal_path = path, wal_seq = seq, wal_prev = prev\<rparr>)
   }"

definition append_op ::
  "profile \<Rightarrow> digest \<Rightarrow> wal_codec \<Rightarrow> write_outcome \<Rightarrow> fs \<Rightarrow> wal \<Rightarrow> wal_op \<Rightarrow>
   (fs \<times> wal \<times> (wal_error + u64)) option" where
  "append_op p D C w f l op = do {
     seq \<leftarrow> add_ov p (wal_seq l) 1;
     let l' = l\<lparr>wal_seq := seq\<rparr>;
         record = \<lparr>wr_seq = seq, wr_prev = wal_prev l, wr_op = op\<rparr> in
     case wc_rec C record of
       None \<Rightarrow> Some (f, l', Inl (Wal_Io Serde_Failed))
     | Some line \<Rightarrow>
         (case fs_append w f (wal_path l) (line @ newline) of
            (f', Inl e) \<Rightarrow> Some (f', l', Inl (Wal_Io e))
          | (f', Inr _) \<Rightarrow> Some (f', l'\<lparr>wal_prev := wal_hash D C record\<rparr>, Inr seq))
   }"

definition wal_append ::
  "profile \<Rightarrow> digest \<Rightarrow> wal_codec \<Rightarrow> write_outcome \<Rightarrow> fs \<Rightarrow> wal \<Rightarrow> tx \<Rightarrow>
   (fs \<times> wal \<times> (wal_error + u64)) option" where
  "wal_append p D C w f l tx = append_op p D C w f l (Wal_Apply tx)"

section \<open>The persistent state\<close>

record persistent_state =
  pst_store :: state_store
  pst_wal :: wal
  pst_hint :: string

record verified_boundary =
  vb_height :: u64
  vb_tip :: string
  vb_root :: string

definition is_marker :: "wal_op \<Rightarrow> bool" where
  "is_marker op = (case op of Wal_Checkpoint _ _ _ \<Rightarrow> True | Wal_Apply _ \<Rightarrow> False)"

text \<open>The last marker, and the index after it (\<open>rposition\<close> and \<open>last_marker_idx + 1\<close>).\<close>

definition last_marker :: "wal_op list \<Rightarrow> (u64 \<times> string \<times> string) option" where
  "last_marker ops =
     (case find is_marker (rev ops) of
        Some (Wal_Checkpoint h t r) \<Rightarrow> Some (h, t, r) | _ \<Rightarrow> None)"

definition rposition :: "('a \<Rightarrow> bool) \<Rightarrow> 'a list \<Rightarrow> nat option" where
  "rposition P xs = map_option (\<lambda>i. length xs - Suc i) (position P (rev xs))"

definition after_marker :: "wal_op list \<Rightarrow> nat" where
  "after_marker ops = (case rposition is_marker ops of None \<Rightarrow> 0 | Some i \<Rightarrow> i) + 1"

fun apply_op :: "state_store \<Rightarrow> wal_op \<Rightarrow> state_store" where
  "apply_op s (Wal_Apply tx) = apply_tx s tx"
| "apply_op s (Wal_Checkpoint _ _ _) = s"

text \<open>The base state of the recovery and the index of the first operation to apply.\<close>

definition recovery_base ::
  "digest \<Rightarrow> snap_codec \<Rightarrow> fs \<Rightarrow> string \<Rightarrow> wal_op list \<Rightarrow> (state_store \<times> nat) option" where
  "recovery_base D SC f state_path ops =
     (case last_marker ops of
        None \<Rightarrow> Some (new_store, 0)
      | Some (_, _, marker_root) \<Rightarrow> do {
          r \<leftarrow> load_snapshot_store D SC f state_path;
          case r of
            Inl _ \<Rightarrow> Some (new_store, 0)
          | Inr st \<Rightarrow>
              if state_root D st = marker_root then Some (st, after_marker ops)
              else Some (new_store, 0)
        })"

definition pst_open ::
  "profile \<Rightarrow> digest \<Rightarrow> wal_codec \<Rightarrow> snap_codec \<Rightarrow> fs \<Rightarrow> string \<Rightarrow> string \<Rightarrow>
   (fs \<times> (wal_error + persistent_state)) option" where
  "pst_open p D C SC f state_path path = do {
     r \<leftarrow> (if f path \<noteq> None then wal_replay p D C f path else Some (Inr ([], 0, WAL_GENESIS)));
     case r of
       Inl e \<Rightarrow> Some (f, Inl e)
     | Inr (ops, _, _) \<Rightarrow> do {
         (base, from_idx) \<leftarrow> recovery_base D SC f state_path ops;
         let store = foldl apply_op base (drop from_idx ops);
         (f', w) \<leftarrow> wal_open p D C f path;
         case w of
           Inl e \<Rightarrow> Some (f', Inl e)
         | Inr l \<Rightarrow> Some (f', Inr \<lparr>pst_store = store, pst_wal = l, pst_hint = state_path\<rparr>)
       }
   }"

definition pst_apply ::
  "profile \<Rightarrow> digest \<Rightarrow> wal_codec \<Rightarrow> write_outcome \<Rightarrow> fs \<Rightarrow> persistent_state \<Rightarrow> tx \<Rightarrow>
   (fs \<times> persistent_state \<times> (wal_error + u64)) option" where
  "pst_apply p D C w f ps tx = do {
     (f', l, r) \<leftarrow> wal_append p D C w f (pst_wal ps) tx;
     case r of
       Inl e \<Rightarrow> Some (f', ps\<lparr>pst_wal := l\<rparr>, Inl e)
     | Inr seq \<Rightarrow> Some (f', ps\<lparr>pst_wal := l, pst_store := apply_tx (pst_store ps) tx\<rparr>, Inr seq)
   }"

definition pst_checkpoint ::
  "profile \<Rightarrow> digest \<Rightarrow> wal_codec \<Rightarrow> snap_codec \<Rightarrow> write_outcome \<Rightarrow> write_outcome \<Rightarrow> fs \<Rightarrow>
   persistent_state \<Rightarrow> u64 \<Rightarrow> string \<Rightarrow> string \<Rightarrow>
   (fs \<times> persistent_state \<times> (wal_error + unit)) option" where
  "pst_checkpoint p D C SC w sw f ps height tip state_path = do {
     (f', l, r) \<leftarrow> append_op p D C w f (pst_wal ps)
       (Wal_Checkpoint height tip (state_root D (pst_store ps)));
     let ps' = ps\<lparr>pst_wal := l\<rparr> in
     case r of
       Inl e \<Rightarrow> Some (f', ps', Inl e)
     | Inr _ \<Rightarrow> do {
         (f'', s) \<leftarrow> save_snapshot_store D SC sw f' (pst_store ps) height tip state_path;
         Some (f'', ps', map_sum Wal_Io id s)
       }
   }"

definition last_verified_boundary ::
  "digest \<Rightarrow> snap_codec \<Rightarrow> fs \<Rightarrow> persistent_state \<Rightarrow> verified_boundary" where
  "last_verified_boundary D SC f ps =
     (case snapshot_meta SC f (pst_hint ps) of
        Inr (h, t, r) \<Rightarrow> \<lparr>vb_height = h, vb_tip = t, vb_root = r\<rparr>
      | Inl _ \<Rightarrow> \<lparr>vb_height = 0, vb_tip = [], vb_root = state_root D new_store\<rparr>)"

section \<open>The contract: a file of chained records\<close>

definition rec_line :: "wal_codec \<Rightarrow> wal_record \<Rightarrow> string" where
  "rec_line C r = (case wc_rec C r of None \<Rightarrow> [] | Some s \<Rightarrow> s)"

definition wal_file :: "wal_codec \<Rightarrow> wal_record list \<Rightarrow> string" where
  "wal_file C rs = unlines (map (rec_line C) rs)"

definition wal_chain :: "digest \<Rightarrow> wal_codec \<Rightarrow> wal_record list \<Rightarrow> bool" where
  "wal_chain D C rs \<longleftrightarrow> chain_from wr_seq wr_prev (wal_hash D C) 0 WAL_GENESIS rs"

definition wal_tip :: "digest \<Rightarrow> wal_codec \<Rightarrow> wal_record list \<Rightarrow> string" where
  "wal_tip D C rs = chain_tip (wal_hash D C) WAL_GENESIS rs"

text \<open>
  A torn tail is a record cut short, and the cut does not go through a character. A crash can also
  cut a record inside a multi-byte character, or after its last character and before the line feed.
\<close>

definition torn_tail :: "wal_codec \<Rightarrow> string \<Rightarrow> bool" where
  "torn_tail C t \<longleftrightarrow> (\<exists>r q. rec_line C r = t @ q \<and> q \<noteq> []) \<and> utf8_ok t"

lemma rec_line_props:
  assumes "wal_codec_ok C"
  shows "wc_rec C r = Some (rec_line C r)" "is_line (rec_line C r)" "utf8_ok (rec_line C r)"
    "\<not> trim_is_empty (rec_line C r)" "wc_parse C (rec_line C r) = Some r"
    "rec_line C r = a @ b \<Longrightarrow> b \<noteq> [] \<Longrightarrow> wc_parse C a = None"
proof -
  obtain s where "wc_rec C r = Some s" "is_line s \<and> utf8_ok s \<and> \<not> trim_is_empty s \<and>
      wc_parse C s = Some r \<and> (\<forall>p q. s = p @ q \<longrightarrow> q \<noteq> [] \<longrightarrow> wc_parse C p = None)"
    using assms unfolding wal_codec_ok_def by blast
  then show "wc_rec C r = Some (rec_line C r)" "is_line (rec_line C r)" "utf8_ok (rec_line C r)"
    "\<not> trim_is_empty (rec_line C r)" "wc_parse C (rec_line C r) = Some r"
    "rec_line C r = a @ b \<Longrightarrow> b \<noteq> [] \<Longrightarrow> wc_parse C a = None"
    by (auto simp: rec_line_def)
qed

lemma torn_tailD:
  assumes "wal_codec_ok C" "torn_tail C t"
  shows "CHR 0x0A \<notin> set t" "utf8_ok t" "wc_parse C t = None"
proof -
  obtain r q where "rec_line C r = t @ q" "q \<noteq> []" "utf8_ok t"
    using assms(2) by (auto simp: torn_tail_def)
  with rec_line_props(2,6) [OF assms(1)] show "CHR 0x0A \<notin> set t" "utf8_ok t" "wc_parse C t = None"
    by (metis Un_iff is_line_def set_append)+
qed

lemma wal_chain_simps [simp]:
  "wal_chain D C []"
  "wal_chain D C (rs @ [r]) \<longleftrightarrow>
     wal_chain D C rs \<and> wr_seq r = of_nat (Suc (length rs)) \<and> wr_prev r = wal_tip D C rs"
  "wal_tip D C [] = WAL_GENESIS"
  "wal_tip D C (rs @ [r]) = wal_hash D C r"
  by (simp_all add: wal_chain_def wal_tip_def)

lemma wal_file_simps [simp]:
  "wal_file C [] = []" "wal_file C (rs @ ss) = wal_file C rs @ wal_file C ss"
  "wal_file C (r # rs) = rec_line C r @ newline @ wal_file C rs"
  by (simp_all add: wal_file_def)

lemma replay_lines:
  assumes "wal_codec_ok C"
  shows "chain_from wr_seq wr_prev (wal_hash D C) n g rs \<Longrightarrow> n + length rs < 2 ^ 64 \<Longrightarrow>
    replay_loop p D C k m (ops, of_nat n, g) (map (rec_line C) rs @ rest) =
    replay_loop p D C k (m + length rs)
      (ops @ map wr_op rs, of_nat (n + length rs), chain_tip (wal_hash D C) g rs) rest"
proof (induction rs arbitrary: n g m ops)
  case (Cons r rs)
  have r: "wr_seq r = of_nat (Suc n)" "wr_prev r = g"
    "chain_from wr_seq wr_prev (wal_hash D C) (Suc n) (wal_hash D C r) rs"
    using Cons.prems(1) by simp_all
  have "add_ov p (of_nat n :: u64) 1 = Some (wr_seq r)"
    unfolding r(1) using Cons.prems(2) by (intro add_ov_count) simp
  then have "replay_loop p D C k m (ops, of_nat n, g) (map (rec_line C) (r # rs) @ rest) =
      replay_loop p D C k (m + 1) (ops @ [wr_op r], of_nat (Suc n), wal_hash D C r)
        (map (rec_line C) rs @ rest)"
    using r(2) rec_line_props(3-5) [OF assms, of r] by (simp del: of_nat_Suc add: r(1))
  also have "\<dots> = replay_loop p D C k (m + 1 + length rs)
      ((ops @ [wr_op r]) @ map wr_op rs, of_nat (Suc n + length rs),
       chain_tip (wal_hash D C) (wal_hash D C r) rs) rest"
    using Cons.prems(2) r(3) by (intro Cons.IH) simp_all
  finally show ?case by (simp del: of_nat_Suc of_nat_add)
qed simp

text \<open>A log with a valid chain replays completely, with or without a torn tail.\<close>

lemma replay_file:
  assumes "wal_codec_ok C" "wal_chain D C rs" "length rs < 2 ^ 64"
    and "f path = Some (wal_file C rs @ t)" "t = [] \<or> torn_tail C t"
  shows "wal_replay p D C f path =
    Some (Inr (map wr_op rs, of_nat (length rs), wal_tip D C rs))"
proof -
  have "CHR 0x0A \<notin> set t" using assms(5) torn_tailD [OF assms(1)] by auto
  then have lines: "buf_lines (wal_file C rs @ t) =
      map (rec_line C) rs @ (if t = [] then [] else [t])"
    unfolding wal_file_def using rec_line_props(2) [OF assms(1)]
    by (intro buf_lines_unlines) auto
  have "replay_loop p D C k 0 ([], of_nat 0, WAL_GENESIS) (map (rec_line C) rs @ rest) =
      replay_loop p D C k (0 + length rs)
        ([] @ map wr_op rs, of_nat (0 + length rs), wal_tip D C rs) rest" for k rest
    unfolding wal_tip_def using assms(1-3) by (intro replay_lines) (simp_all add: wal_chain_def)
  then show ?thesis
    using assms(4,5) torn_tailD [OF assms(1), of t] lines
    by (auto simp: wal_replay_def Let_def)
qed

text \<open>Lines after a complete log are read from its end.\<close>

lemma buf_lines_file:
  assumes "wal_codec_ok C"
  shows "buf_lines (wal_file C rs @ t) = map (rec_line C) rs @ buf_lines t"
proof -
  have "buf_lines (unlines ls @ t) = ls @ buf_lines t" if "\<forall>l \<in> set ls. is_line l" for ls
    using that by (induction ls) (simp_all add: buf_lines_line)
  then show ?thesis unfolding wal_file_def using rec_line_props(2) [OF assms] by auto
qed

lemma replay_from_end:
  assumes "wal_codec_ok C" "wal_chain D C rs" "length rs < 2 ^ 64" "f path = Some (wal_file C rs @ t)"
  shows "wal_replay p D C f path =
    replay_loop p D C (length rs + length (buf_lines t)) (length rs)
      (map wr_op rs, of_nat (length rs), wal_tip D C rs) (buf_lines t)"
proof -
  have "replay_loop p D C k 0 ([], of_nat 0, WAL_GENESIS) (map (rec_line C) rs @ rest) =
      replay_loop p D C k (0 + length rs)
        ([] @ map wr_op rs, of_nat (0 + length rs), wal_tip D C rs) rest" for k rest
    unfolding wal_tip_def using assms(1-3) by (intro replay_lines) (simp_all add: wal_chain_def)
  then show ?thesis using assms(4) by (simp add: wal_replay_def buf_lines_file [OF assms(1)])
qed

definition parsed :: "wal_codec \<Rightarrow> string list \<Rightarrow> wal_record set" where
  "parsed C ls = {r. \<exists>l \<in> set ls. wc_parse C l = Some r}"

text \<open>Whatever the file, what replays is the log of a valid chain.\<close>

lemma replay_loop_sound:
  "replay_loop p D C k n (ops, seq, prev) ls = Some (Inr (ops', seq', prev')) \<Longrightarrow>
   wal_chain D C rs \<Longrightarrow> ops = map wr_op rs \<Longrightarrow> seq = of_nat (length rs) \<Longrightarrow> prev = wal_tip D C rs \<Longrightarrow>
   \<exists>rs'. wal_chain D C rs' \<and> ops' = map wr_op rs' \<and> seq' = of_nat (length rs') \<and>
     prev' = wal_tip D C rs' \<and> length rs' \<le> length rs + length ls \<and>
     set rs' \<subseteq> set rs \<union> parsed C ls"
proof (induction ls arbitrary: n ops seq prev rs)
  case (Cons l ls)
  show ?case
  proof (cases "trim_is_empty l \<or> wc_parse C l = None")
    case True
    have mono: "parsed C ls \<subseteq> parsed C (l # ls)" by (auto simp: parsed_def)
    consider "trim_is_empty l" "replay_loop p D C k (n + 1) (ops, seq, prev) ls =
        Some (Inr (ops', seq', prev'))" | "(ops', seq', prev') = (ops, seq, prev)"
      using True Cons.prems(1) by (auto split: if_splits)
    then show ?thesis
    proof cases
      case 1
      from Cons.IH [OF 1(2) Cons.prems(2-)] mono show ?thesis by fastforce
    next
      case 2
      then show ?thesis using Cons.prems by fastforce
    qed
  next
    case False
    then obtain r where r: "wc_parse C l = Some r" by auto
    then have step: "wr_seq r = seq + 1" "wr_prev r = prev"
      "replay_loop p D C k (n + 1) (ops @ [wr_op r], wr_seq r, wal_hash D C r) ls =
         Some (Inr (ops', seq', prev'))"
      using Cons.prems(1) False
      by (auto simp: bind_eq_Some_conv dest: add_ov_Some split: if_splits)
    have "\<exists>rs'. wal_chain D C rs' \<and> ops' = map wr_op rs' \<and> seq' = of_nat (length rs') \<and>
        prev' = wal_tip D C rs' \<and> length rs' \<le> length (rs @ [r]) + length ls \<and>
        set rs' \<subseteq> set (rs @ [r]) \<union> parsed C ls"
      using step(1,2) Cons.prems(2-)
      by (intro Cons.IH [OF step(3)]) (simp_all add: add.commute)
    with r show ?thesis by (fastforce simp: parsed_def)
  qed
qed auto

lemma replay_sound:
  assumes "wal_replay p D C f path = Some (Inr (ops, seq, tip))"
  obtains rs where "wal_chain D C rs" "ops = map wr_op rs" "seq = of_nat (length rs)"
    "tip = wal_tip D C rs" "length rs \<le> length (buf_lines (contents f path))"
    "set rs \<subseteq> parsed C (buf_lines (contents f path))"
proof -
  obtain c where c: "f path = Some c"
    "replay_loop p D C (length (buf_lines c)) 0 ([], 0, WAL_GENESIS) (buf_lines c) =
       Some (Inr (ops, seq, tip))"
    using assms by (auto simp: wal_replay_def Let_def split: option.splits)
  from replay_loop_sound [OF c(2), of "[]"] show thesis
    using that c(1) by (auto simp: contents_def)
qed

section \<open>The log as a hash chain\<close>

interpretation wal_chain: hash_chain wr_seq wr_prev "wal_hash D C" "wal_payload C" for D C
proof
  fix e e' :: wal_record
  assume pay: "wal_payload C e = wal_payload C e'"
  then have sq: "show_word (wr_seq e) = show_word (wr_seq e')"
    unfolding wal_payload_def
    by (metis append_Cons append_Nil bar_split bar_notin_show_word)
  then show "wr_seq e = wr_seq e'" by simp
  assume "length (wr_prev e) = 64" "length (wr_prev e') = 64"
  with pay sq show "wr_prev e = wr_prev e'" by (simp add: wal_payload_def)
qed

section \<open>One append\<close>

text \<open>The handle \<open>l\<close> stands at the end of the log of \<open>rs\<close>.\<close>

definition wal_at :: "digest \<Rightarrow> wal_codec \<Rightarrow> fs \<Rightarrow> wal \<Rightarrow> wal_record list \<Rightarrow> bool" where
  "wal_at D C f l rs \<longleftrightarrow>
     wal_chain D C rs \<and> f (wal_path l) = Some (wal_file C rs) \<and>
     wal_seq l = of_nat (length rs) \<and> wal_prev l = wal_tip D C rs"

definition next_record :: "digest \<Rightarrow> wal_codec \<Rightarrow> wal_record list \<Rightarrow> wal_op \<Rightarrow> wal_record" where
  "next_record D C rs op =
     \<lparr>wr_seq = of_nat (Suc (length rs)), wr_prev = wal_tip D C rs, wr_op = op\<rparr>"

lemma next_record_simps [simp]:
  "wr_op (next_record D C rs op) = op"
  "wr_seq (next_record D C rs op) = of_nat (Suc (length rs))"
  "wr_prev (next_record D C rs op) = wal_tip D C rs"
  "wal_chain D C rs \<Longrightarrow> wal_chain D C (rs @ [next_record D C rs op])"
  by (simp_all add: next_record_def)

lemma append_written:
  assumes "wal_codec_ok C" "wal_at D C f l rs" "Suc (length rs) < 2 ^ 64"
  obtains f' l' where
    "append_op p D C Written f l op = Some (f', l', Inr (of_nat (Suc (length rs))))"
    "wal_at D C f' l' (rs @ [next_record D C rs op])" "wal_path l' = wal_path l"
    "f' = f(wal_path l \<mapsto> wal_file C (rs @ [next_record D C rs op]))"
proof -
  let ?r = "next_record D C rs op"
  let ?l = "\<lparr>wal_path = wal_path l, wal_seq = of_nat (Suc (length rs)), wal_prev = wal_hash D C ?r\<rparr>"
  let ?f = "f(wal_path l \<mapsto> wal_file C (rs @ [?r]))"
  have l: "f (wal_path l) = Some (wal_file C rs)" "wal_seq l = of_nat (length rs)"
    "wal_prev l = wal_tip D C rs" "wal_chain D C rs"
    using assms(2) by (auto simp: wal_at_def)
  have "add_ov p (wal_seq l) 1 = Some (of_nat (Suc (length rs)))"
    unfolding l(2) using assms(3) by (rule add_ov_count)
  moreover have "\<lparr>wr_seq = of_nat (Suc (length rs)), wr_prev = wal_prev l, wr_op = op\<rparr> = ?r"
    by (simp add: next_record_def l(3) del: of_nat_Suc)
  ultimately have app: "append_op p D C Written f l op = Some (?f, ?l, Inr (of_nat (Suc (length rs))))"
    using l(1) rec_line_props(1) [OF assms(1)]
    by (cases l) (simp add: append_op_def fs_append_def contents_def Let_def del: of_nat_Suc)
  show thesis
    by (rule that [OF app]) (use l in \<open>simp_all add: wal_at_def del: of_nat_Suc\<close>)
qed

lemma open_at:
  assumes "wal_codec_ok C" "wal_chain D C rs" "length rs < 2 ^ 64"
    and "f path = Some (wal_file C rs @ t)" "t = [] \<or> torn_tail C t"
  shows "wal_open p D C f path =
    Some (f, Inr \<lparr>wal_path = path, wal_seq = of_nat (length rs), wal_prev = wal_tip D C rs\<rparr>)"
  using replay_file [of C D rs f path t p] assms(1-3,5) assms(4)
  by (simp add: wal_open_def scan_tail_def fs_create_def contents_def fun_upd_idem)

section \<open>Recovery\<close>

definition run_ops :: "wal_op list \<Rightarrow> state_store" where
  "run_ops ops = foldl apply_op new_store ops"

definition op_txs :: "wal_op list \<Rightarrow> tx list" where
  "op_txs ops = concat (map (\<lambda>op. case op of Wal_Apply tx \<Rightarrow> [tx] | _ \<Rightarrow> []) ops)"

text \<open>Every marker carries the root of the state it was written in.\<close>

fun markers_true :: "digest \<Rightarrow> state_store \<Rightarrow> wal_op list \<Rightarrow> bool" where
  "markers_true D s [] = True"
| "markers_true D s (op # ops) =
     ((case op of Wal_Checkpoint _ _ r \<Rightarrow> r = state_root D s | _ \<Rightarrow> True) \<and>
      markers_true D (apply_op s op) ops)"

text \<open>Two states whose roots can be trusted to tell them apart.\<close>

definition separated :: "digest \<Rightarrow> state_store \<Rightarrow> state_store \<Rightarrow> bool" where
  "separated D s t \<longleftrightarrow>
     plain_keys (entries s) \<and> plain_keys (entries t) \<and>
     collision_free D (insert [] (root_inputs D (entries s) \<union> root_inputs D (entries t)))"

text \<open>
  What recovery asks of the snapshot file: loading it does not panic, and the state it loads, if
  any, is told apart by its root from the states the logged transactions go through.
\<close>

definition snapshot_safe ::
  "digest \<Rightarrow> snap_codec \<Rightarrow> fs \<Rightarrow> string \<Rightarrow> tx list \<Rightarrow> bool" where
  "snapshot_safe D SC f path txs \<longleftrightarrow>
     (case load_snapshot_store D SC f path of
        None \<Rightarrow> False
      | Some (Inl _) \<Rightarrow> True
      | Some (Inr st) \<Rightarrow> \<forall>i \<le> length txs. separated D st (apply_all new_store (take i txs)))"

lemma separated_root:
  "digest32 D \<Longrightarrow> sha_str D [] = EMPTY_ROOT \<Longrightarrow> separated D s t \<Longrightarrow>
   state_root D s = state_root D t \<Longrightarrow> s = t"
  unfolding separated_def state_root_def by (metis root_binding store_eqI)

lemma op_txs_simps [simp]:
  "op_txs [] = []" "op_txs (ops @ ops') = op_txs ops @ op_txs ops'"
  "op_txs (Wal_Apply tx # ops) = tx # op_txs ops"
  "op_txs (Wal_Checkpoint h t r # ops) = op_txs ops"
  by (simp_all add: op_txs_def)

lemma foldl_apply_op: "foldl apply_op s ops = apply_all s (op_txs ops)"
  by (induction ops arbitrary: s) (auto simp: op_txs_def split: wal_op.split)

lemma markers_true_append:
  "markers_true D s (ops @ ops') \<longleftrightarrow>
     markers_true D s ops \<and> markers_true D (foldl apply_op s ops) ops'"
  by (induction ops arbitrary: s) auto

lemma position_append:
  "\<forall>x \<in> set xs. \<not> P x \<Longrightarrow> P y \<Longrightarrow> position P (xs @ y # ys) = Some (length xs)"
  by (induction xs) auto

lemma last_marker_split:
  obtains (none) "last_marker ops = None"
  | (some) pre h t r post where "ops = pre @ Wal_Checkpoint h t r # post"
      "last_marker ops = Some (h, t, r)" "after_marker ops = Suc (length pre)"
proof (cases "\<exists>op \<in> set ops. is_marker op")
  case False
  then have "find is_marker (rev ops) = None" by (simp add: find_None_iff)
  then show thesis using none by (simp add: last_marker_def)
next
  case True
  then obtain pre op post where ops: "ops = pre @ op # post" "is_marker op"
    "\<forall>x \<in> set post. \<not> is_marker x"
    by (metis split_list_last_prop)
  then obtain h t r where op: "op = Wal_Checkpoint h t r"
    by (cases op) (auto simp: is_marker_def)
  have "find is_marker (rev post @ op # rev pre) = Some op"
    using ops(2,3) by (induction post rule: rev_induct) auto
  then have "last_marker ops = Some (h, t, r)" by (simp add: last_marker_def ops(1) op)
  moreover have "position is_marker (rev post @ op # rev pre) = Some (length post)"
    using ops(2,3) position_append [of "rev post" is_marker op] by simp
  then have "after_marker ops = Suc (length pre)"
    by (simp add: after_marker_def rposition_def ops(1))
  ultimately show thesis using some ops(1) op by blast
qed

text \<open>Both recovery paths rebuild the same state.\<close>

lemma recovery_correct:
  assumes "digest32 D" "sha_str D [] = EMPTY_ROOT" "markers_true D new_store ops"
    and "snapshot_safe D SC f path (op_txs ops)"
  obtains b i where "recovery_base D SC f path ops = Some (b, i)"
    "foldl apply_op b (drop i ops) = run_ops ops"
proof (cases ops rule: last_marker_split)
  case none
  then show thesis by (intro that [of new_store 0]) (simp_all add: recovery_base_def run_ops_def)
next
  case (some pre h t r post)
  have r: "r = state_root D (run_ops pre)"
    using assms(3) by (simp add: some(1) markers_true_append run_ops_def)
  consider (lost) e where "load_snapshot_store D SC f path = Some (Inl e)"
    | (loaded) st where "load_snapshot_store D SC f path = Some (Inr st)"
        "\<forall>i \<le> length (op_txs ops). separated D st (apply_all new_store (take i (op_txs ops)))"
    using assms(4) by (auto simp: snapshot_safe_def split: option.splits sum.splits)
  then show thesis
  proof cases
    case lost
    then show thesis using some(2)
      by (intro that [of new_store 0]) (simp_all add: recovery_base_def run_ops_def)
  next
    case loaded
    show thesis
    proof (cases "state_root D st = r")
      case True
      have "separated D st (run_ops pre)"
        using loaded(2) [rule_format, of "length (op_txs pre)"]
        by (simp add: some(1) run_ops_def foldl_apply_op)
      with True have "st = run_ops pre" using separated_root [OF assms(1,2)] r by blast
      then show thesis using True some loaded(1)
        by (intro that [of st "Suc (length pre)"]) (simp_all add: recovery_base_def run_ops_def)
    next
      case False
      then show thesis using some(2) loaded(1)
        by (intro that [of new_store 0]) (simp_all add: recovery_base_def run_ops_def)
    qed
  qed
qed

lemma pst_open_replayed:
  assumes "digest32 D" "sha_str D [] = EMPTY_ROOT"
    and "wal_replay p D C f path = Some (Inr (map wr_op rs, of_nat (length rs), wal_tip D C rs))"
    and "f path = Some c" "markers_true D new_store (map wr_op rs)"
    and "snapshot_safe D SC f state_path (op_txs (map wr_op rs))"
  shows "pst_open p D C SC f state_path path =
    Some (f, Inr \<lparr>pst_store = run_ops (map wr_op rs),
      pst_wal = \<lparr>wal_path = path, wal_seq = of_nat (length rs), wal_prev = wal_tip D C rs\<rparr>,
      pst_hint = state_path\<rparr>)"
proof -
  obtain b i where "recovery_base D SC f state_path (map wr_op rs) = Some (b, i)"
    "foldl apply_op b (drop i (map wr_op rs)) = run_ops (map wr_op rs)"
    using recovery_correct [OF assms(1,2,5,6)] by blast
  then show ?thesis
    using assms(3,4)
    by (simp add: pst_open_def wal_open_def scan_tail_def fs_create_def contents_def fun_upd_idem)
qed

lemma pst_open_correct:
  assumes "wal_codec_ok C" "digest32 D" "sha_str D [] = EMPTY_ROOT"
    and "wal_chain D C rs" "length rs < 2 ^ 64" "markers_true D new_store (map wr_op rs)"
    and "f path = Some (wal_file C rs @ t)" "t = [] \<or> torn_tail C t"
    and "snapshot_safe D SC f state_path (op_txs (map wr_op rs))"
  shows "pst_open p D C SC f state_path path =
    Some (f, Inr \<lparr>pst_store = run_ops (map wr_op rs),
      pst_wal = \<lparr>wal_path = path, wal_seq = of_nat (length rs), wal_prev = wal_tip D C rs\<rparr>,
      pst_hint = state_path\<rparr>)"
  using replay_file [of C D rs f path t p] assms by (intro pst_open_replayed) simp_all

lemma snapshot_safe_prefix:
  assumes "snapshot_safe D SC f path (txs @ us)"
  shows "snapshot_safe D SC f path txs"
proof (cases "\<exists>st. load_snapshot_store D SC f path = Some (Inr st)")
  case True
  then obtain st where st: "load_snapshot_store D SC f path = Some (Inr st)" by blast
  have all: "\<forall>i \<le> length (txs @ us). separated D st (apply_all new_store (take i (txs @ us)))"
    using assms by (simp only: snapshot_safe_def st option.case sum.case)
  have "separated D st (apply_all new_store (take i txs))" if "i \<le> length txs" for i
    using all [rule_format, of i] that by simp
  then show ?thesis by (simp add: snapshot_safe_def st)
qed (use assms in \<open>auto simp: snapshot_safe_def split: option.splits sum.splits\<close>)

lemma pst_open_new:
  "f path = None \<Longrightarrow> pst_open p D C SC f state_path path =
     Some (f(path \<mapsto> []), Inr \<lparr>pst_store = new_store,
       pst_wal = \<lparr>wal_path = path, wal_seq = 0, wal_prev = WAL_GENESIS\<rparr>, pst_hint = state_path\<rparr>)"
  by (simp add: pst_open_def recovery_base_def last_marker_def wal_open_def scan_tail_def
      fs_create_def contents_def)

end
