(* ===== verification/Wal_Recovery.thy ===== *)
theory Wal_Recovery imports Wal begin

text \<open>
  What \<open>PersistentState\<close> promises over its life: runs of \<open>apply\<close>, \<open>checkpoint\<close> and restarts, with
  any outcome of the snapshot writes, against the list of acknowledged transactions; the chain
  as tamper evidence; and the ways in which the log loses its guarantee.
\<close>

section \<open>Runs\<close>

text \<open>
  \<open>wal_run n f ps txs\<close>: after \<open>n\<close> log records the files are \<open>f\<close>, the process holds \<open>ps\<close> and has
  recorded the transactions \<open>txs\<close>: those it acknowledged and those whose record was complete when a
  crash kept the process from acknowledging them. A restart may find any content in the snapshot file
  (it is never synced), as long as it is safe; the records of the log were synced when acknowledged.
  An append that fails and leaves nothing or all of its record in the log may be followed by a
  restart; one that leaves part of it ends the run (\<open>acknowledged_survive_crash\<close> says what the next
  start makes of it, \<open>append_after_torn_tail_is_lost\<close> why the run cannot go on).
\<close>

text \<open>The operations \<open>apply\<close> and \<open>checkpoint\<close> append in a given state.\<close>

definition code_op :: "digest \<Rightarrow> state_store \<Rightarrow> wal_op \<Rightarrow> bool" where
  "code_op D st op \<longleftrightarrow> (case op of Wal_Checkpoint _ _ r \<Rightarrow> r = state_root D st | Wal_Apply _ \<Rightarrow> True)"

inductive wal_run ::
  "profile \<Rightarrow> digest \<Rightarrow> wal_codec \<Rightarrow> snap_codec \<Rightarrow> string \<Rightarrow> string \<Rightarrow>
   nat \<Rightarrow> fs \<Rightarrow> persistent_state \<Rightarrow> tx list \<Rightarrow> bool"
  for p D C SC state_path path where
  start: "f path = None \<Longrightarrow> pst_open p D C SC f state_path path = Some (f', Inr ps) \<Longrightarrow>
    wal_run p D C SC state_path path 0 f' ps []"
| apply_tx: "wal_run p D C SC state_path path n f ps txs \<Longrightarrow>
    pst_apply p D C Written f ps tx = Some (f', ps', Inr k) \<Longrightarrow>
    wal_run p D C SC state_path path (Suc n) f' ps' (txs @ [tx])"
| checkpoint: "wal_run p D C SC state_path path n f ps txs \<Longrightarrow>
    pst_checkpoint p D C SC Written w f ps h tip state_path = Some (f', ps', r) \<Longrightarrow>
    wal_run p D C SC state_path path (Suc n) f' ps' txs"
| restart: "wal_run p D C SC state_path path n f ps txs \<Longrightarrow>
    snapshot_safe D SC (f(state_path := c)) state_path txs \<Longrightarrow>
    pst_open p D C SC (f(state_path := c)) state_path path = Some (f', Inr ps') \<Longrightarrow>
    wal_run p D C SC state_path path n f' ps' txs"
| interrupted: "wal_run p D C SC state_path path n f ps txs \<Longrightarrow>
    code_op D (pst_store ps) op \<Longrightarrow>
    append_op p D C Unsynced f (pst_wal ps) op = Some (f1, l1, r) \<Longrightarrow>
    snapshot_safe D SC (f1(state_path := c)) state_path (txs @ op_txs [op]) \<Longrightarrow>
    pst_open p D C SC (f1(state_path := c)) state_path path = Some (f', Inr ps') \<Longrightarrow>
    wal_run p D C SC state_path path (Suc n) f' ps' (txs @ op_txs [op])"

lemma code_op_simps [simp]:
  "code_op D st (Wal_Apply tx)" "code_op D st (Wal_Checkpoint h t r) \<longleftrightarrow> r = state_root D st"
  by (simp_all add: code_op_def)

text \<open>The invariant: the log holds the recorded transactions, memory holds their effect.\<close>

definition log_holds ::
  "digest \<Rightarrow> wal_codec \<Rightarrow> string \<Rightarrow> nat \<Rightarrow> fs \<Rightarrow> persistent_state \<Rightarrow> tx list \<Rightarrow> wal_record list \<Rightarrow> bool" where
  "log_holds D C path n f ps txs rs \<longleftrightarrow>
     wal_at D C f (pst_wal ps) rs \<and> wal_path (pst_wal ps) = path \<and> length rs = n \<and>
     op_txs (map wr_op rs) = txs \<and> markers_true D new_store (map wr_op rs) \<and>
     pst_store ps = apply_all new_store txs"

lemma run_ops_txs: "run_ops ops = apply_all new_store (op_txs ops)"
  by (simp add: run_ops_def foldl_apply_op)

lemma log_holds_append:
  assumes "wal_codec_ok C" "log_holds D C path n f ps txs rs" "Suc n < 2 ^ 64"
    and "code_op D (pst_store ps) op"
  obtains f' l' where "append_op p D C Written f (pst_wal ps) op = Some (f', l', Inr (of_nat (Suc n)))"
    "log_holds D C path (Suc n) f' (ps\<lparr>pst_wal := l', pst_store := apply_op (pst_store ps) op\<rparr>)
       (txs @ op_txs [op]) (rs @ [next_record D C rs op])"
    "\<And>q. q \<noteq> path \<Longrightarrow> f' q = f q"
proof -
  have inv: "wal_at D C f (pst_wal ps) rs" "wal_path (pst_wal ps) = path" "length rs = n"
    "op_txs (map wr_op rs) = txs" "markers_true D new_store (map wr_op rs)"
    "pst_store ps = apply_all new_store txs"
    using assms(2) by (auto simp: log_holds_def)
  obtain f' l' where app:
    "append_op p D C Written f (pst_wal ps) op = Some (f', l', Inr (of_nat (Suc (length rs))))"
    "wal_at D C f' l' (rs @ [next_record D C rs op])" "wal_path l' = path"
    "f' = f(path \<mapsto> wal_file C (rs @ [next_record D C rs op]))"
    using append_written [OF assms(1) inv(1)] assms(3) inv(2,3) by metis
  have "markers_true D new_store (map wr_op rs @ [op])"
    using inv(4-6) assms(4)
    by (cases op) (simp_all add: markers_true_append foldl_apply_op)
  moreover have "apply_op s op = apply_all s (op_txs [op])" for s
    using foldl_apply_op [of s "[op]"] by simp
  ultimately show thesis
    using app inv by (intro that [of f' l']) (simp_all add: log_holds_def)
qed

lemma wal_at_other: "wal_at D C f l rs \<Longrightarrow> f' (wal_path l) = f (wal_path l) \<Longrightarrow> wal_at D C f' l rs"
  by (simp add: wal_at_def)

lemma apply_holds:
  assumes "wal_codec_ok C" "log_holds D C path n f ps txs rs" "Suc n < 2 ^ 64"
  obtains f' ps' rs' where "pst_apply p D C Written f ps tx = Some (f', ps', Inr (of_nat (Suc n)))"
    "log_holds D C path (Suc n) f' ps' (txs @ [tx]) rs'"
proof -
  obtain f' l' where "append_op p D C Written f (pst_wal ps) (Wal_Apply tx) =
      Some (f', l', Inr (of_nat (Suc n)))"
    "log_holds D C path (Suc n) f' (ps\<lparr>pst_wal := l', pst_store := apply_tx (pst_store ps) tx\<rparr>)
       (txs @ [tx]) (rs @ [next_record D C rs (Wal_Apply tx)])"
    by (rule log_holds_append [OF assms, of "Wal_Apply tx" p]) simp_all
  then show thesis by (intro that) (simp_all add: pst_apply_def wal_append_def del: of_nat_Suc)
qed

lemma checkpoint_holds:
  assumes "wal_codec_ok C" "snap_codec_ok SC" "state_path \<noteq> path"
    and "log_holds D C path n f ps txs rs" "Suc n < 2 ^ 64"
  obtains f' ps' rs' r where
    "pst_checkpoint p D C SC Written w f ps h tip state_path = Some (f', ps', r)"
    "log_holds D C path (Suc n) f' ps' txs rs'"
    "w = Written \<Longrightarrow> r = Inr ()"
    "r = Inr () \<Longrightarrow> load_snapshot_store D SC f' state_path = Some (Inr (pst_store ps))"
proof -
  let ?op = "Wal_Checkpoint h tip (state_root D (pst_store ps))"
  obtain f1 l' where app: "append_op p D C Written f (pst_wal ps) ?op =
      Some (f1, l', Inr (of_nat (Suc n)))"
    "log_holds D C path (Suc n) f1 (ps\<lparr>pst_wal := l'\<rparr>) txs (rs @ [next_record D C rs ?op])"
    by (rule log_holds_append [OF assms(1,4,5), of ?op p]) simp_all
  obtain f' s where save: "save_snapshot_store D SC w f1 (pst_store ps) h tip state_path = Some (f', s)"
    "\<And>q. q \<noteq> state_path \<Longrightarrow> f' q = f1 q"
    "s = Inr () \<Longrightarrow> load_snapshot_store D SC f' state_path = Some (Inr (pst_store ps))"
    "w = Written \<Longrightarrow> s = Inr ()"
    using save_total [OF assms(2), of D w f1 "pst_store ps" h tip state_path] by (metis insertI1)
  have "log_holds D C path (Suc n) f' (ps\<lparr>pst_wal := l'\<rparr>) txs (rs @ [next_record D C rs ?op])"
    using app(2) save(2) [of path] assms(3) wal_at_other [of D C f1 l' _ f']
    by (auto simp: log_holds_def)
  moreover have "map_sum Wal_Io id s = Inr () \<Longrightarrow> s = Inr ()" by (cases s) auto
  ultimately show thesis
    using app(1) save by (intro that [of f' "ps\<lparr>pst_wal := l'\<rparr>" "map_sum Wal_Io id s"])
      (auto simp: pst_checkpoint_def simp del: of_nat_Suc)
qed

lemma restart_holds:
  assumes "wal_codec_ok C" "digest32 D" "sha_str D [] = EMPTY_ROOT" "state_path \<noteq> path"
    and "log_holds D C path n f ps txs rs" "n < 2 ^ 64" "t = [] \<or> torn_tail C t"
    and "snapshot_safe D SC (f(path \<mapsto> contents f path @ t, state_path := c)) state_path txs"
  shows "\<exists>ps'. pst_open p D C SC (f(path \<mapsto> contents f path @ t, state_path := c)) state_path path =
      Some (f(path \<mapsto> contents f path @ t, state_path := c), Inr ps') \<and>
    pst_store ps' = apply_all new_store txs \<and>
    (t = [] \<longrightarrow> log_holds D C path n (f(state_path := c)) ps' txs rs)"
proof -
  let ?f = "f(path \<mapsto> contents f path @ t, state_path := c)"
  let ?ps = "\<lparr>pst_store = run_ops (map wr_op rs),
      pst_wal = \<lparr>wal_path = path, wal_seq = of_nat (length rs), wal_prev = wal_tip D C rs\<rparr>,
      pst_hint = state_path\<rparr>"
  have inv: "wal_at D C f (pst_wal ps) rs" "wal_path (pst_wal ps) = path" "length rs = n"
    "op_txs (map wr_op rs) = txs" "markers_true D new_store (map wr_op rs)"
    using assms(5) by (auto simp: log_holds_def)
  have logf: "?f path = Some (wal_file C rs @ t)"
    using inv(1,2) assms(4) by (simp add: wal_at_def contents_def)
  have open_ok: "pst_open p D C SC ?f state_path path = Some (?f, Inr ?ps)"
    using inv assms(1-3,6,7,8) logf
    by (intro pst_open_correct [of C D rs ?f path t]) (simp_all add: wal_at_def)
  have "t = [] \<longrightarrow> log_holds D C path n (f(state_path := c)) ?ps txs rs"
    using inv assms(4) by (simp add: log_holds_def wal_at_def run_ops_txs)
  with open_ok show ?thesis using inv(4) by (intro exI [of _ ?ps]) (simp add: run_ops_txs)
qed

text \<open>
  A crash during an append: the log ends with any prefix \<open>t\<close> of the line of the next record.
\<close>

lemma replay_interrupted:
  assumes "wal_codec_ok C" "wal_chain D C rs" "Suc (length rs) < 2 ^ 64"
    and "f path = Some (wal_file C rs @ t)" "rec_line C (next_record D C rs op) @ newline = t @ q"
  shows "wal_replay p D C f path =
    (if \<not> utf8_ok t then Some (Inl (Wal_Io Invalid_Data))
     else let rs' = (if length t < length (rec_line C (next_record D C rs op)) then rs
                     else rs @ [next_record D C rs op])
       in Some (Inr (map wr_op rs', of_nat (length rs'), wal_tip D C rs')))"
proof -
  let ?r = "next_record D C rs op"
  let ?line = "rec_line C ?r"
  note line = rec_line_props(2,3) [OF assms(1), of ?r]
  have nl: "newline = [CHR 0x0A]" by (simp add: newline_def)
  consider (torn) q' where "?line = t @ q'" "q' \<noteq> []" | (whole) "t = ?line" | (ended) "t = ?line @ newline"
    using assms(5) unfolding nl by (cases q rule: rev_cases) (force simp: append_eq_append_conv2 Cons_eq_append_conv)+
  then show ?thesis
  proof cases
    case torn
    have short: "length t < length ?line" using torn by simp
    show ?thesis
    proof (cases "utf8_ok t")
      case True
      then have "torn_tail C t" using torn by (auto simp: torn_tail_def)
      then show ?thesis
        using replay_file [of C D rs f path t p] assms(1-4) True short by (simp add: Let_def)
    next
      case False
      then have "t \<noteq> []" by (auto simp: utf8_ok_def)
      moreover have "CHR 0x0A \<notin> set t" using line(1) torn(1) by (auto simp: is_line_def)
      ultimately have "buf_lines t = [t]" by (simp add: buf_lines_plain)
      then show ?thesis
        using replay_from_end [of C D rs f path t p] assms(1-4) False by simp
    qed
  next
    case whole
    have "buf_lines (wal_file C rs @ t) = buf_lines (wal_file C (rs @ [?r]))"
      using buf_lines_file [OF assms(1), of rs] line(1)
        buf_lines_file [OF assms(1), of "rs @ [?r]" "[]"] rec_line_props(4) [OF assms(1), of ?r]
      by (auto simp: whole buf_lines_plain is_line_def trim_is_empty_def)
    then have "wal_replay p D C f path = wal_replay p D C (f(path \<mapsto> wal_file C (rs @ [?r]))) path"
      using assms(4) by (simp add: wal_replay_def)
    then show ?thesis
      using replay_file [of C D "rs @ [?r]" "f(path \<mapsto> wal_file C (rs @ [?r]))" path "[]" p]
        assms(1-3) line(2) whole by (simp add: Let_def del: of_nat_Suc wal_file_simps)
  next
    case ended
    have "utf8_ok newline" by (simp add: nl utf8_ok_def)
    with line(2) have "utf8_ok t" unfolding ended by (rule utf8_append)
    moreover have "f path = Some (wal_file C (rs @ [?r]) @ [])" using assms(4) ended by simp
    ultimately show ?thesis
      using replay_file [of C D "rs @ [?r]" f path "[]" p] assms(1-3) ended
      by (simp add: Let_def del: of_nat_Suc wal_file_simps)
  qed
qed

text \<open>What reopening makes of it, with any safe snapshot file.\<close>

lemma reopen_interrupted:
  assumes "wal_codec_ok C" "digest32 D" "sha_str D [] = EMPTY_ROOT" "state_path \<noteq> path"
    and "log_holds D C path n f ps txs rs" "Suc n < 2 ^ 64" "code_op D (pst_store ps) op"
    and "rec_line C (next_record D C rs op) @ newline = t @ q"
    and "g = f(path \<mapsto> contents f path @ t, state_path := c)"
    and "snapshot_safe D SC g state_path (txs @ op_txs [op])"
  shows "if utf8_ok t
    then \<exists>ps'. pst_open p D C SC g state_path path = Some (g, Inr ps') \<and>
      pst_store ps' = apply_all new_store
        (if length t < length (rec_line C (next_record D C rs op)) then txs else txs @ op_txs [op])
    else pst_open p D C SC g state_path path = Some (g, Inl (Wal_Io Invalid_Data))"
proof -
  let ?r = "next_record D C rs op"
  have inv: "wal_at D C f (pst_wal ps) rs" "wal_path (pst_wal ps) = path" "length rs = n"
    "op_txs (map wr_op rs) = txs" "markers_true D new_store (map wr_op rs)" "pst_store ps = apply_all new_store txs"
    using assms(5) by (auto simp: log_holds_def)
  have logf: "g path = Some (wal_file C rs @ t)" and chain: "wal_chain D C rs"
    using inv(1,2) assms(4) by (simp_all add: assms(9) wal_at_def contents_def)
  have "Suc (length rs) < 2 ^ 64" using assms(6) inv(3) by simp
  note replay = replay_interrupted [of C D rs g path t op q p, OF assms(1) chain this logf assms(8)]
  show ?thesis
  proof (cases "utf8_ok t")
    case False
    then show ?thesis using replay logf by (simp add: pst_open_def)
  next
    case True
    define rs' where "rs' = (if length t < length (rec_line C ?r) then rs else rs @ [?r])"
    have txs': "op_txs (map wr_op rs') =
        (if length t < length (rec_line C ?r) then txs else txs @ op_txs [op])"
      by (simp add: rs'_def inv(4))
    have "markers_true D new_store (map wr_op rs')"
      using inv(4-6) assms(7) by (cases op) (auto simp: rs'_def markers_true_append foldl_apply_op)
    moreover have "snapshot_safe D SC g state_path (op_txs (map wr_op rs'))"
      using assms(10) snapshot_safe_prefix [OF assms(10)] by (simp add: txs')
    moreover have "wal_replay p D C g path = Some (Inr (map wr_op rs', of_nat (length rs'), wal_tip D C rs'))"
      using replay True by (simp add: rs'_def Let_def)
    ultimately have "pst_open p D C SC g state_path path = Some (g, Inr \<lparr>pst_store = run_ops (map wr_op rs'),
        pst_wal = \<lparr>wal_path = path, wal_seq = of_nat (length rs'), wal_prev = wal_tip D C rs'\<rparr>,
        pst_hint = state_path\<rparr>)"
      using pst_open_replayed [of D p C g path rs' "wal_file C rs @ t" SC state_path] assms(2,3) logf by blast
    then show ?thesis using True by (auto simp: run_ops_txs txs')
  qed
qed

text \<open>What an append leaves in the log, whatever becomes of its write.\<close>

lemma append_reaches:
  assumes "wal_codec_ok C" "wal_at D C f l rs" "Suc (length rs) < 2 ^ 64"
    and "append_op p D C w f l op = Some (f1, l1, r)"
  shows "f1 = f(wal_path l \<mapsto> wal_file C rs @ reached w (rec_line C (next_record D C rs op) @ newline))"
proof -
  have l: "f (wal_path l) = Some (wal_file C rs)" "wal_seq l = of_nat (length rs)" "wal_prev l = wal_tip D C rs"
    using assms(2) by (auto simp: wal_at_def)
  have "add_ov p (wal_seq l) 1 = Some (of_nat (Suc (length rs)))"
    unfolding l(2) using assms(3) by (rule add_ov_count)
  moreover have "\<lparr>wr_seq = of_nat (Suc (length rs)), wr_prev = wal_prev l, wr_op = op\<rparr> = next_record D C rs op"
    by (simp add: next_record_def l(3) del: of_nat_Suc)
  ultimately show ?thesis
    using assms(4) l(1) rec_line_props(1) [OF assms(1)]
    by (auto simp: append_op_def fs_append_def contents_def Let_def simp del: of_nat_Suc split: if_splits)
qed

lemma reopen_holds:
  assumes "wal_codec_ok C" "digest32 D" "sha_str D [] = EMPTY_ROOT" "state_path \<noteq> path"
    and "log_holds D C path n f ps txs rs" "n < 2 ^ 64"
    and "snapshot_safe D SC (f(state_path := c)) state_path txs"
    and "pst_open p D C SC (f(state_path := c)) state_path path = Some (f', Inr ps')"
  shows "log_holds D C path n f' ps' txs rs"
proof -
  have "f path = Some (contents f path)"
    using assms(5) by (auto simp: log_holds_def wal_at_def contents_def)
  then have same: "f(path \<mapsto> contents f path @ [], state_path := c) = f(state_path := c)"
    using assms(4) by auto
  obtain ps'' where
    "pst_open p D C SC (f(state_path := c)) state_path path = Some (f(state_path := c), Inr ps'')"
    "log_holds D C path n (f(state_path := c)) ps'' txs rs"
    using restart_holds [OF assms(1-6), of "[]" SC c p] assms(7) unfolding same by blast
  with assms(8) show ?thesis by (metis Inr_inject option.inject prod.inject)
qed

lemma wal_run_holds:
  assumes "wal_codec_ok C" "snap_codec_ok SC" "digest32 D" "sha_str D [] = EMPTY_ROOT"
    and "state_path \<noteq> path"
  shows "wal_run p D C SC state_path path n f ps txs \<Longrightarrow> n < 2 ^ 64 \<Longrightarrow>
    \<exists>rs. log_holds D C path n f ps txs rs"
proof (induction rule: wal_run.induct)
  case (start f f' ps)
  then show ?case
    by (intro exI [of _ "[]"]) (auto simp: pst_open_new log_holds_def wal_at_def)
next
  case (apply_tx n f ps txs tx f' ps' k)
  then obtain rs where "log_holds D C path n f ps txs rs" by auto
  from apply_holds [OF assms(1) this, of p tx] apply_tx.hyps(2) apply_tx.prems show ?case by auto
next
  case (checkpoint n f ps txs w h tip f' ps' r)
  then obtain rs where "log_holds D C path n f ps txs rs" by auto
  from checkpoint_holds [OF assms(1,2,5) this, of p w h tip] checkpoint.hyps(2) checkpoint.prems
  show ?case by auto
next
  case (restart n f ps txs c f' ps')
  then obtain rs where "log_holds D C path n f ps txs rs" by auto
  from reopen_holds [OF assms(1,3-5) this restart.prems restart.hyps(2)] restart.hyps(3) show ?case by blast
next
  case (interrupted n f ps txs op f1 l1 r c f' ps')
  then obtain rs where rs: "log_holds D C path n f ps txs rs" by auto
  then have at: "wal_at D C f (pst_wal ps) rs" "Suc (length rs) < 2 ^ 64"
    using interrupted.prems by (simp_all add: log_holds_def)
  obtain f2 l2 where two: "append_op p D C Written f (pst_wal ps) op = Some (f2, l2, Inr (of_nat (Suc n)))"
    "log_holds D C path (Suc n) f2 (ps\<lparr>pst_wal := l2, pst_store := apply_op (pst_store ps) op\<rparr>)
       (txs @ op_txs [op]) (rs @ [next_record D C rs op])"
    using log_holds_append [OF assms(1) rs interrupted.prems interrupted.hyps(2)] by metis
  have "f1 = f2"
    using append_reaches [OF assms(1) at interrupted.hyps(3)] append_reaches [OF assms(1) at two(1)] by simp
  with reopen_holds [OF assms(1,3-5) two(2) interrupted.prems] interrupted.hyps(4,5) show ?case by blast
qed

text \<open>A checkpoint of any store, whatever the log says.\<close>

lemma checkpoint_any:
  assumes "wal_codec_ok C" "snap_codec_ok SC" "wal_at D C f (pst_wal ps) rs" "Suc (length rs) < 2 ^ 64"
    and "state_path \<noteq> wal_path (pst_wal ps)"
  obtains f' ps' where
    "pst_checkpoint p D C SC Written Written f ps h tip state_path = Some (f', ps', Inr ())"
    "wal_at D C f' (pst_wal ps') (rs @ [next_record D C rs (Wal_Checkpoint h tip (state_root D (pst_store ps)))])"
    "wal_path (pst_wal ps') = wal_path (pst_wal ps)" "pst_store ps' = pst_store ps" "pst_hint ps' = pst_hint ps"
    "load_snapshot_store D SC f' state_path = Some (Inr (pst_store ps))"
    "snapshot_meta SC f' state_path = Inr (h, tip, state_root D (pst_store ps))"
proof -
  let ?op = "Wal_Checkpoint h tip (state_root D (pst_store ps))"
  obtain f1 l' where app: "append_op p D C Written f (pst_wal ps) ?op = Some (f1, l', Inr (of_nat (Suc (length rs))))"
    "wal_at D C f1 l' (rs @ [next_record D C rs ?op])" "wal_path l' = wal_path (pst_wal ps)"
    by (rule append_written [OF assms(1,3,4), of p ?op])
  obtain f' s where save: "save_snapshot_store D SC Written f1 (pst_store ps) h tip state_path = Some (f', s)"
    "\<And>q. q \<noteq> state_path \<Longrightarrow> f' q = f1 q"
    "s = Inr () \<Longrightarrow> load_snapshot_store D SC f' state_path = Some (Inr (pst_store ps)) \<and>
       snapshot_meta SC f' state_path = Inr (h, tip, state_root D (pst_store ps))"
    "Written \<in> {Written, Unsynced} \<Longrightarrow> s = Inr ()"
    by (rule save_total [OF assms(2), of D Written f1 "pst_store ps" h tip state_path]) blast
  have "wal_at D C f' l' (rs @ [next_record D C rs ?op])"
    using wal_at_other [OF app(2), of f'] save(2) [of "wal_path l'"] app(3) assms(5) by simp
  then show thesis
    using app save by (intro that [of f' "ps\<lparr>pst_wal := l'\<rparr>"])
      (simp_all add: pst_checkpoint_def del: of_nat_Suc)
qed

section \<open>Appending behind damage\<close>

lemma wal_atD:
  "wal_at D C f l rs \<Longrightarrow> wal_chain D C rs \<and> f (wal_path l) = Some (wal_file C rs) \<and>
     wal_seq l = of_nat (length rs) \<and> wal_prev l = wal_tip D C rs"
  by (simp add: wal_at_def)

lemma torn_append:
  assumes "wal_codec_ok C" "wal_chain D C rs" "Suc (length rs) < 2 ^ 64"
    and "f path = Some (wal_file C rs @ t)" "torn_tail C t"
    and "l = \<lparr>wal_path = path, wal_seq = of_nat (length rs), wal_prev = wal_tip D C rs\<rparr>"
    and "wc_parse C (t @ rec_line C (next_record D C rs op)) = None"
  shows "\<exists>f' l'. append_op p D C Written f l op = Some (f', l', Inr (of_nat (Suc (length rs)))) \<and>
    wal_replay p D C f' path = Some (Inr (map wr_op rs, of_nat (length rs), wal_tip D C rs))"
proof -
  let ?r = "\<lparr>wr_seq = of_nat (Suc (length rs)), wr_prev = wal_tip D C rs, wr_op = op\<rparr>"
  let ?line = "t @ rec_line C ?r"
  let ?f = "f(path \<mapsto> wal_file C rs @ ?line @ newline)"
  let ?l = "l\<lparr>wal_seq := of_nat (Suc (length rs)), wal_prev := wal_hash D C ?r\<rparr>"
  have rec: "next_record D C rs op = ?r" by (simp add: next_record_def)
  have "add_ov p (of_nat (length rs) :: u64) 1 = Some (of_nat (Suc (length rs)))"
    using assms(3) by (rule add_ov_count)
  then have app: "append_op p D C Written f l op = Some (?f, ?l, Inr (of_nat (Suc (length rs))))"
    using assms(4,6) rec_line_props(1) [OF assms(1), of ?r]
    by (simp add: append_op_def fs_append_def contents_def Let_def del: of_nat_Suc)
  obtain r q where "rec_line C r = t @ q" using assms(5) by (auto simp: torn_tail_def)
  then have "is_line t" using rec_line_props(2) [OF assms(1), of r] by (auto simp: is_line_def)
  then have "is_line ?line" using rec_line_props(2) [OF assms(1), of ?r] by (simp add: is_line_def)
  then have "buf_lines (?line @ newline @ []) = [?line]" by (subst buf_lines_line) (simp_all add: buf_lines_plain)
  moreover have "utf8_ok ?line"
    using assms(5) rec_line_props(3) [OF assms(1)] by (intro utf8_append) (simp_all add: torn_tail_def)
  ultimately have "wal_replay p D C ?f path = Some (Inr (map wr_op rs, of_nat (length rs), wal_tip D C rs))"
    using assms(3,7) unfolding rec by (subst replay_from_end [OF assms(1,2), of ?f path "?line @ newline"]) simp_all
  with app show ?thesis by blast
qed

lemma failed_append:
  assumes "wal_codec_ok C" "wal_at D C f l rs" "Suc (Suc (length rs)) < 2 ^ 64"
  shows "\<exists>f1 l1 f2 l2.
    append_op p D C (Partial 0) f l a = Some (f1, l1, Inl (Wal_Io Write_Failed)) \<and>
    append_op p D C Written f1 l1 b = Some (f2, l2, Inr (of_nat (Suc (Suc (length rs))))) \<and>
    wal_replay p D C f2 (wal_path l) = Some (Inl (Chain_Broken (Suc (length rs))
      (''seq '' @ show_word (of_nat (Suc (length rs)) :: u64))
      (''seq '' @ show_word (of_nat (Suc (Suc (length rs))) :: u64))))"
proof -
  note l = wal_atD [OF assms(2)]
  let ?n = "length rs" and ?w = "\<lambda>k. of_nat k :: u64"
  let ?r = "\<lparr>wr_seq = ?w (Suc (Suc ?n)), wr_prev = wal_tip D C rs, wr_op = b\<rparr>"
  let ?f2 = "f(wal_path l \<mapsto> wal_file C rs @ rec_line C ?r @ newline)"
  have ov: "add_ov p (?w ?n) 1 = Some (?w (Suc ?n))"
    "add_ov p (?w (Suc ?n)) 1 = Some (?w (Suc (Suc ?n)))"
    using assms(3) by (intro add_ov_count; simp)+
  have one: "append_op p D C (Partial 0) f l a =
      Some (f(wal_path l \<mapsto> wal_file C rs), l\<lparr>wal_seq := ?w (Suc ?n)\<rparr>, Inl (Wal_Io Write_Failed))"
    using l ov(1) rec_line_props(1) [OF assms(1)]
    by (simp add: append_op_def fs_append_def contents_def Let_def del: of_nat_Suc)
  have two: "append_op p D C Written (f(wal_path l \<mapsto> wal_file C rs)) (l\<lparr>wal_seq := ?w (Suc ?n)\<rparr>) b =
      Some (?f2, l\<lparr>wal_seq := ?w (Suc (Suc ?n)), wal_prev := wal_hash D C ?r\<rparr>, Inr (?w (Suc (Suc ?n))))"
    using l ov(2) rec_line_props(1) [OF assms(1), of ?r]
    by (simp add: append_op_def fs_append_def Let_def del: of_nat_Suc)
  have "buf_lines (rec_line C ?r @ newline @ []) = [rec_line C ?r]"
    using rec_line_props(2) [OF assms(1)] by (subst buf_lines_line) (simp_all add: buf_lines_plain)
  moreover have "?w (Suc (Suc ?n)) \<noteq> ?w (Suc ?n)" by simp
  ultimately have "wal_replay p D C ?f2 (wal_path l) = Some (Inl (Chain_Broken (Suc ?n)
      (''seq '' @ show_word (?w (Suc ?n))) (''seq '' @ show_word (?w (Suc (Suc ?n))))))"
    using l assms(3) ov(1) rec_line_props(3-5) [OF assms(1), of ?r]
    by (subst replay_from_end [OF assms(1), of D rs ?f2 "wal_path l" "rec_line C ?r @ newline"])
      (simp_all del: of_nat_Suc)
  with one two show ?thesis by blast
qed

section \<open>The codec of the examples\<close>

fun demo_op_fields :: "wal_op \<Rightarrow> string list" where
  "demo_op_fields (Wal_Apply (Tx_Set k v)) = [''set'', k, v]"
| "demo_op_fields (Wal_Apply (Tx_Remove k)) = [''rm'', k]"
| "demo_op_fields (Wal_Checkpoint h t r) = [''cp'', show_word h, t, r]"

definition demo_op_of :: "string list \<Rightarrow> wal_op option" where
  "demo_op_of fs =
     (case fs of
        [g, k] \<Rightarrow> if g = ''rm'' then Some (Wal_Apply (Tx_Remove k)) else None
      | [g, k, v] \<Rightarrow> if g = ''set'' then Some (Wal_Apply (Tx_Set k v)) else None
      | [g, h, t, r] \<Rightarrow>
          if g = ''cp'' then map_option (\<lambda>n. Wal_Checkpoint n t r) (parse_word h) else None
      | _ \<Rightarrow> None)"

definition demo_wal_codec :: wal_codec where
  "demo_wal_codec =
     \<lparr>wc_op = \<lambda>a. Some (pack (demo_op_fields a)),
      wc_rec = \<lambda>r. Some (pack (show_word (wr_seq r) # wr_prev r # demo_op_fields (wr_op r))),
      wc_parse = \<lambda>t. (case unpack t of
          Some (n # q # fs) \<Rightarrow> do { m \<leftarrow> parse_word n; a \<leftarrow> demo_op_of fs;
            Some \<lparr>wr_seq = m, wr_prev = q, wr_op = a\<rparr> }
        | _ \<Rightarrow> None)\<rparr>"

lemma demo_op_of_fields [simp]: "demo_op_of (demo_op_fields a) = Some a"
  by (cases a rule: demo_op_fields.cases) (simp_all add: demo_op_of_def)

lemma demo_op_fields_nonempty [simp]: "demo_op_fields a \<noteq> []"
  by (cases a rule: demo_op_fields.cases) simp_all

lemma demo_wal_codec_ok: "wal_codec_ok demo_wal_codec"
proof -
  have "inj (wc_op demo_wal_codec)"
    by (rule injI) (simp add: demo_wal_codec_def pack_inject, metis demo_op_of_fields option.inject)
  moreover have "is_line (pack fs)" for fs by (simp add: is_line_def)
  moreover have "\<not> trim_is_empty (pack fs)" for fs
  proof
    assume "trim_is_empty (pack fs)"
    then have "(of_char (CHR ''{'') :: nat) \<in> {9, 10, 11, 12, 13, 32, 0xC2, 0xE1, 0xE2, 0xE3}"
      unfolding pack_def by (rule trim_is_empty_head)
    then show False by simp
  qed
  moreover have "\<exists>s. wc_rec demo_wal_codec r = Some s \<and> is_line s \<and> utf8_ok s \<and> \<not> trim_is_empty s \<and>
      wc_parse demo_wal_codec s = Some r \<and>
      (\<forall>p q. s = p @ q \<longrightarrow> q \<noteq> [] \<longrightarrow> wc_parse demo_wal_codec p = None)" for r
  proof (intro exI conjI allI impI)
    let ?fs = "show_word (wr_seq r) # wr_prev r # demo_op_fields (wr_op r)"
    show "wc_rec demo_wal_codec r = Some (pack ?fs)" by (simp add: demo_wal_codec_def)
    show "is_line (pack ?fs)" "\<not> trim_is_empty (pack ?fs)" by fact+
    show "utf8_ok (pack ?fs)" by (simp add: ascii_utf8)
    show "wc_parse demo_wal_codec (pack ?fs) = Some r" by (simp add: demo_wal_codec_def)
    show "wc_parse demo_wal_codec p = None" if "pack ?fs = p @ q" "q \<noteq> []" for p q
      using unpack_prefix [OF that] by (simp add: demo_wal_codec_def)
  qed
  moreover have "wc_op demo_wal_codec a \<noteq> None" for a by (simp add: demo_wal_codec_def)
  ultimately show ?thesis by (simp add: wal_codec_ok_def)
qed

text \<open>One applied transaction: a run of the examples.\<close>

lemma demo_run:
  obtains f ps rs where
    "wal_run Checked demo_digest demo_wal_codec demo_snap_codec ''snap'' ''wal'' 1 f ps [Tx_Set ''a'' ''1'']"
    "log_holds demo_digest demo_wal_codec ''wal'' 1 f ps [Tx_Set ''a'' ''1''] rs"
    "f ''snap'' = None"
proof -
  let ?ps = "\<lparr>pst_store = new_store,
    pst_wal = \<lparr>wal_path = ''wal'', wal_seq = 0, wal_prev = WAL_GENESIS\<rparr>, pst_hint = ''snap''\<rparr>"
  have run: "wal_run Checked demo_digest demo_wal_codec demo_snap_codec ''snap'' ''wal'' 0
      [''wal'' \<mapsto> []] ?ps []"
    by (rule wal_run.start [of Map.empty]) (simp_all add: pst_open_new)
  have "log_holds demo_digest demo_wal_codec ''wal'' 0 [''wal'' \<mapsto> []] ?ps [] []"
    by (simp add: log_holds_def wal_at_def)
  then obtain f' l' where app: "append_op Checked demo_digest demo_wal_codec Written [''wal'' \<mapsto> []]
      (pst_wal ?ps) (Wal_Apply (Tx_Set ''a'' ''1'')) = Some (f', l', Inr (of_nat (Suc 0)))"
    "log_holds demo_digest demo_wal_codec ''wal'' (Suc 0) f'
       (?ps\<lparr>pst_wal := l', pst_store := apply_op (pst_store ?ps) (Wal_Apply (Tx_Set ''a'' ''1''))\<rparr>)
       ([] @ op_txs [Wal_Apply (Tx_Set ''a'' ''1'')])
       ([] @ [next_record demo_digest demo_wal_codec [] (Wal_Apply (Tx_Set ''a'' ''1''))])"
    and other: "\<And>q. q \<noteq> ''wal'' \<Longrightarrow> f' q = [''wal'' \<mapsto> []] q"
    by (rule log_holds_append [OF demo_wal_codec_ok, where op = "Wal_Apply (Tx_Set ''a'' ''1'')" and p = Checked])
      simp_all
  let ?ps' = "?ps\<lparr>pst_wal := l', pst_store := apply_tx new_store (Tx_Set ''a'' ''1'')\<rparr>"
  have "pst_apply Checked demo_digest demo_wal_codec Written [''wal'' \<mapsto> []] ?ps (Tx_Set ''a'' ''1'') =
      Some (f', ?ps', Inr (of_nat (Suc 0)))"
    using app(1) by (simp add: pst_apply_def wal_append_def)
  from wal_run.apply_tx [OF run this] show thesis
    using app(2) other [of "''snap''"]
    by (intro that [of f' ?ps' "[next_record demo_digest demo_wal_codec [] (Wal_Apply (Tx_Set ''a'' ''1''))]"])
      simp_all
qed

lemma demo_safe: "f path = None \<Longrightarrow> snapshot_safe D SC f path txs"
  by (simp add: snapshot_safe_def load_snapshot_store_def read_to_string_def)

section \<open>Properties\<close>


lemma torn_brace: "torn_tail demo_wal_codec ''{''"
proof -
  have "\<exists>q. pack fs = ''{'' @ q \<and> q \<noteq> []" for fs by (simp add: pack_def)
  then have "\<exists>r q. rec_line demo_wal_codec r = ''{'' @ q \<and> q \<noteq> []"
    by (simp add: rec_line_def demo_wal_codec_def)
  then show ?thesis by (simp add: torn_tail_def ascii_utf8 ascii_def)
qed


text \<open>
  C4: Progress. In such a run an apply whose write succeeds is acknowledged with the next number,
  and a checkpoint whose writes succeed reports success, keeps the state, and leaves a snapshot
  file that loads to it.
\<close>

theorem wal_run_progress:
  assumes "wal_run p D C SC state_path path n f ps txs" "Suc n < 2 ^ 64"
    and "wal_codec_ok C" "snap_codec_ok SC" "digest32 D" "sha_str D [] = EMPTY_ROOT"
    and "state_path \<noteq> path"
  shows "(\<exists>f' ps'. pst_apply p D C Written f ps tx = Some (f', ps', Inr (of_nat (Suc n))) \<and>
       pst_store ps' = apply_tx (pst_store ps) tx) \<and>
    (\<exists>f' ps'. pst_checkpoint p D C SC Written Written f ps h tip state_path = Some (f', ps', Inr ()) \<and>
       pst_store ps' = pst_store ps \<and>
       load_snapshot_store D SC f' state_path = Some (Inr (pst_store ps)))"
proof -
  obtain rs where rs: "log_holds D C path n f ps txs rs"
    using wal_run_holds [OF assms(3-7,1)] assms(2) by auto
  have same: "pst_store ps' = apply_all new_store us" if "log_holds D C path m g ps' us rs'"
    for m g ps' us rs' using that by (simp add: log_holds_def)
  obtain f' ps' rs' where "pst_apply p D C Written f ps tx = Some (f', ps', Inr (of_nat (Suc n)))"
    "log_holds D C path (Suc n) f' ps' (txs @ [tx]) rs'"
    by (rule apply_holds [OF assms(3) rs assms(2)])
  moreover obtain g qs ss r where
    "pst_checkpoint p D C SC Written Written f ps h tip state_path = Some (g, qs, r)"
    "log_holds D C path (Suc n) g qs txs ss" "r = Inr ()"
    "load_snapshot_store D SC g state_path = Some (Inr (pst_store ps))"
    by (rule checkpoint_holds [OF assms(3,4,7) rs assms(2), of p Written h tip]) simp
  ultimately show ?thesis using same [OF rs] by (auto dest!: same)
qed

lemma wal_run_progress_witness:
  "\<exists>f ps f' ps'. wal_run Checked demo_digest demo_wal_codec demo_snap_codec ''snap'' ''wal'' 1 f ps
       [Tx_Set ''a'' ''1''] \<and>
     pst_apply Checked demo_digest demo_wal_codec Written f ps (Tx_Remove ''a'') =
       Some (f', ps', Inr (of_nat (Suc 1)))"
proof -
  obtain f ps rs where run:
    "wal_run Checked demo_digest demo_wal_codec demo_snap_codec ''snap'' ''wal'' 1 f ps [Tx_Set ''a'' ''1'']"
    by (rule demo_run)
  have "Suc 1 < 2 ^ 64" "''snap'' \<noteq> ''wal''" by simp_all
  from wal_run_progress [OF run this(1) demo_wal_codec_ok demo_snap_codec_ok digest32_demo
      sha_demo_empty this(2), of "Tx_Remove ''a''"]
  show ?thesis using run by blast
qed

text \<open>
  Tamper evidence. Two log files of any content that replay without error to the same tip
  hash hold the same operations, unless SHA-256 collides on the payloads of the records that
  their lines parse to.
\<close>

theorem log_tip_commits:
  assumes "wal_replay p D C f a = Some (Inr (ops, seq, tip))"
    and "wal_replay p D C g b = Some (Inr (ops', seq', tip))"
    and "ops \<noteq> []" "ops' \<noteq> []" "wal_codec_ok C" "digest32 D"
    and "length (buf_lines (contents f a)) < 2 ^ 64" "length (buf_lines (contents g b)) < 2 ^ 64"
    and "collision_free D (wal_payload C ` (parsed C (buf_lines (contents f a)) \<union>
           parsed C (buf_lines (contents g b))))"
  shows "ops = ops' \<and> seq = seq'"
proof -
  obtain rs where rs: "wal_chain D C rs" "ops = map wr_op rs" "seq = of_nat (length rs)"
    "tip = wal_tip D C rs" "length rs \<le> length (buf_lines (contents f a))"
    "set rs \<subseteq> parsed C (buf_lines (contents f a))"
    by (rule replay_sound [OF assms(1)])
  obtain ss where ss: "wal_chain D C ss" "ops' = map wr_op ss" "seq' = of_nat (length ss)"
    "tip = wal_tip D C ss" "length ss \<le> length (buf_lines (contents g b))"
    "set ss \<subseteq> parsed C (buf_lines (contents g b))"
    by (rule replay_sound [OF assms(2)])
  have cf: "collision_free D (wal_payload C ` (set rs \<union> set ss))"
    by (rule collision_free_mono [OF assms(9)]) (use rs(6) ss(6) in blast)
  have pay: "map (wal_payload C) rs = map (wal_payload C) ss"
    using rs ss assms(3,4,6-8) cf
    by (intro wal_chain.binding [OF assms(6), where g = WAL_GENESIS])
      (auto simp: wal_chain_def wal_tip_def wal_hash_def WAL_GENESIS_def)
  then have len: "length rs = length ss" by (rule map_eq_imp_length_eq)
  have hashes64: "length (wr_prev r) = 64" if "wal_chain D C qs" "r \<in> set qs" for qs r
    using that
  proof (induction qs rule: rev_induct)
    case (snoc q qs)
    have "length (wal_tip D C qs) = 64"
      unfolding wal_tip_def
      by (rule wal_chain.tip_length [OF assms(6)]) (simp_all add: WAL_GENESIS_def wal_hash_def)
    with snoc show ?case by auto
  qed simp
  have "wr_op (rs ! i) = wr_op (ss ! i)" if "i < length rs" for i
  proof -
    have eq: "wal_payload C (rs ! i) = wal_payload C (ss ! i)"
      using pay that len by (metis nth_map)
    then have "wr_seq (rs ! i) = wr_seq (ss ! i)" by (rule wal_chain.payload_sq)
    moreover have "wr_prev (rs ! i) = wr_prev (ss ! i)"
      using hashes64 rs(1) ss(1) that len by (intro wal_chain.payload_pv [OF eq]) simp_all
    moreover obtain x y where "wc_op C (wr_op (rs ! i)) = Some x" "wc_op C (wr_op (ss ! i)) = Some y"
      using assms(5) unfolding wal_codec_ok_def by (meson not_None_eq)
    ultimately have "wc_op C (wr_op (rs ! i)) = wc_op C (wr_op (ss ! i))"
      using eq by (simp add: wal_payload_def)
    then show ?thesis using assms(5) by (auto simp: wal_codec_ok_def dest: injD)
  qed
  then have "map wr_op rs = map wr_op ss" using len by (intro nth_equalityI) simp_all
  then show ?thesis using rs(2,3) ss(2,3) len by simp
qed

definition demo_record :: wal_record where
  "demo_record = \<lparr>wr_seq = 1, wr_prev = WAL_GENESIS, wr_op = Wal_Apply (Tx_Set ''a'' ''1'')\<rparr>"

lemma demo_record_chain: "wal_chain demo_digest demo_wal_codec [demo_record]"
  using wal_chain_simps(2) [of demo_digest demo_wal_codec "[]" demo_record]
  by (simp add: demo_record_def)

lemma demo_record_file:
  "t = [] \<or> torn_tail demo_wal_codec t \<Longrightarrow>
   wal_replay p demo_digest demo_wal_codec [''wal'' \<mapsto> wal_file demo_wal_codec [demo_record] @ t] ''wal'' =
     Some (Inr ([Wal_Apply (Tx_Set ''a'' ''1'')], 1, wal_hash demo_digest demo_wal_codec demo_record))"
  using replay_file [OF demo_wal_codec_ok demo_record_chain, of
      "[''wal'' \<mapsto> wal_file demo_wal_codec [demo_record] @ t]" "''wal''" t p]
    wal_chain_simps(4) [of demo_digest demo_wal_codec "[]" demo_record]
  by (simp add: demo_record_def)

lemma log_tip_commits_witness:
  "[Wal_Apply (Tx_Set ''a'' ''1'')] = [Wal_Apply (Tx_Set ''a'' ''1'')] \<and> (1 :: u64) = 1 \<and>
   wal_file demo_wal_codec [demo_record] \<noteq> wal_file demo_wal_codec [demo_record] @ ''{''"
proof -
  let ?f = "\<lambda>t. [''wal'' \<mapsto> wal_file demo_wal_codec [demo_record] @ t]"
  have lines: "buf_lines (contents (?f t) ''wal'') =
      rec_line demo_wal_codec demo_record # (if t = [] then [] else [t])" if "CHR 0x0A \<notin> set t" for t
    using that buf_lines_line rec_line_props(2) [OF demo_wal_codec_ok]
    by (simp add: contents_def buf_lines_plain)
  have one: "parsed demo_wal_codec (buf_lines (contents (?f t) ''wal'')) \<subseteq> {demo_record}"
    if "t = [] \<or> torn_tail demo_wal_codec t" for t
  proof -
    have "CHR 0x0A \<notin> set t" "t \<noteq> [] \<Longrightarrow> wc_parse demo_wal_codec t = None"
      using that torn_tailD [OF demo_wal_codec_ok, of t] by auto
    then show ?thesis
      using rec_line_props(5) [OF demo_wal_codec_ok, of demo_record]
      by (simp only: lines [OF \<open>CHR 0x0A \<notin> set t\<close>] parsed_def) (auto split: if_splits)
  qed
  have "collision_free demo_digest (wal_payload demo_wal_codec `
      (parsed demo_wal_codec (buf_lines (contents (?f []) ''wal'')) \<union>
       parsed demo_wal_codec (buf_lines (contents (?f ''{'') ''wal''))))"
  proof (rule collision_free_mono)
    show "collision_free demo_digest {wal_payload demo_wal_codec demo_record}"
      by (simp add: collision_free_def)
    show "wal_payload demo_wal_codec `
        (parsed demo_wal_codec (buf_lines (contents (?f []) ''wal'')) \<union>
         parsed demo_wal_codec (buf_lines (contents (?f ''{'') ''wal'')))
        \<subseteq> {wal_payload demo_wal_codec demo_record}"
      using one [OF disjI1 [OF refl]] one [OF disjI2 [OF torn_brace]] by blast
  qed
  note cf = this
  have short: "length (buf_lines (contents (?f t) ''wal'')) < 2 ^ 64" if "CHR 0x0A \<notin> set t" for t
    by (simp only: lines [OF that]) simp
  have "CHR 0x0A \<notin> set []" "CHR 0x0A \<notin> set ''{''" by simp_all
  note short = short [OF this(1)] short [OF this(2)]
  have "[Wal_Apply (Tx_Set ''a'' ''1'')] = [Wal_Apply (Tx_Set ''a'' ''1'')] \<and> (1 :: u64) = 1"
    by (rule log_tip_commits [OF demo_record_file [OF disjI1 [OF refl]]
          demo_record_file [OF disjI2 [OF torn_brace]] _ _ demo_wal_codec_ok digest32_demo short cf])
      simp_all
  then show ?thesis by simp
qed

text \<open>
  The last record is not protected: no record stores its own hash, so replacing the operation
  of the last record leaves a log that opens without error and replays the replacement.
\<close>

theorem last_record_replaceable:
  assumes "wal_codec_ok C" "wal_chain D C (rs @ [r])" "Suc (length rs) < 2 ^ 64"
    and "f path = Some (wal_file C (rs @ [r\<lparr>wr_op := op\<rparr>]))"
  shows "\<exists>seq tip. wal_replay p D C f path = Some (Inr (map wr_op rs @ [op], seq, tip))"
proof -
  have "wal_chain D C (rs @ [r\<lparr>wr_op := op\<rparr>])" using assms(2) by simp
  then show ?thesis
    using replay_file [OF assms(1), of D "rs @ [r\<lparr>wr_op := op\<rparr>]" f path "[]" p] assms(3,4) by simp
qed

lemma last_record_replaceable_witness:
  "\<exists>seq tip. wal_replay Checked demo_digest demo_wal_codec
     [''wal'' \<mapsto> wal_file demo_wal_codec [demo_record\<lparr>wr_op := Wal_Apply (Tx_Set ''a'' ''666'')\<rparr>]]
     ''wal'' = Some (Inr ([Wal_Apply (Tx_Set ''a'' ''666'')], seq, tip))"
  using last_record_replaceable [OF demo_wal_codec_ok, of demo_digest "[]" demo_record
      "[''wal'' \<mapsto> wal_file demo_wal_codec [demo_record\<lparr>wr_op := Wal_Apply (Tx_Set ''a'' ''666'')\<rparr>]]"
      "''wal''" "Wal_Apply (Tx_Set ''a'' ''666'')" Checked]
  by (simp add: demo_record_chain)

text \<open>
  C15: Appending after a torn tail loses an acknowledged operation. Opening a log with a torn tail
  discards the tail but leaves it in the file; the next append glues its record to it. Where the
  glued line does not parse (as a cut JSON object followed by another does not), the append
  reports success and a replay of the file returns the log without it.
\<close>

theorem append_after_torn_tail_is_lost:
  assumes "wal_codec_ok C" "wal_chain D C rs" "Suc (length rs) < 2 ^ 64"
    and "f path = Some (wal_file C rs @ t)" "torn_tail C t"
    and "wc_parse C (t @ rec_line C (next_record D C rs op)) = None"
  shows "\<exists>l f' l'. wal_open p D C f path = Some (f, Inr l) \<and>
    append_op p D C Written f l op = Some (f', l', Inr (of_nat (Suc (length rs)))) \<and>
    wal_replay p D C f' path = Some (Inr (map wr_op rs, of_nat (length rs), wal_tip D C rs))"
proof -
  let ?l = "\<lparr>wal_path = path, wal_seq = of_nat (length rs), wal_prev = wal_tip D C rs\<rparr>"
  have "wal_open p D C f path = Some (f, Inr ?l)"
    using assms(3-5) open_at [OF assms(1,2), of f path t p] by simp
  then show ?thesis using torn_append [of C D rs f path t ?l op p] assms by blast
qed

lemma append_after_torn_tail_is_lost_witness:
  "\<exists>l f' l'. wal_open Checked demo_digest demo_wal_codec [''wal'' \<mapsto> ''{''] ''wal'' =
       Some ([''wal'' \<mapsto> ''{''], Inr l) \<and>
     append_op Checked demo_digest demo_wal_codec Written [''wal'' \<mapsto> ''{''] l
       (Wal_Apply (Tx_Set ''a'' ''1'')) = Some (f', l', Inr 1) \<and>
     wal_replay Checked demo_digest demo_wal_codec f' ''wal'' = Some (Inr ([], 0, WAL_GENESIS))"
proof -
  have "wc_parse demo_wal_codec (''{'' @ rec_line demo_wal_codec
      (next_record demo_digest demo_wal_codec [] (Wal_Apply (Tx_Set ''a'' ''1'')))) = None"
    by (simp add: rec_line_def) (simp add: demo_wal_codec_def unpack_junk)
  with append_after_torn_tail_is_lost [OF demo_wal_codec_ok, of demo_digest "[]" "[''wal'' \<mapsto> ''{'']"
      "''wal''" "''{''" "Wal_Apply (Tx_Set ''a'' ''1'')" Checked] torn_brace
  show ?thesis by simp
qed

text \<open>
  A failed write breaks the log. \<open>append_op\<close> advances the sequence number before it writes.
  If a write fails without touching the file and a later append succeeds, that operation is
  acknowledged, but its number skips one: the log no longer replays and the state no longer opens.
\<close>

theorem failed_append_breaks_log:
  assumes "wal_codec_ok C" "wal_at D C f l rs" "Suc (Suc (length rs)) < 2 ^ 64"
  shows "\<exists>f1 l1 f2 l2.
    append_op p D C (Partial 0) f l a = Some (f1, l1, Inl (Wal_Io Write_Failed)) \<and>
    append_op p D C Written f1 l1 b = Some (f2, l2, Inr (of_nat (Suc (Suc (length rs))))) \<and>
    pst_open p D C SC f2 state_path (wal_path l) = Some (f2, Inl (Chain_Broken (Suc (length rs))
      (''seq '' @ show_word (of_nat (Suc (length rs)) :: u64))
      (''seq '' @ show_word (of_nat (Suc (Suc (length rs))) :: u64))))"
proof -
  obtain f1 l1 f2 l2 where r:
    "append_op p D C (Partial 0) f l a = Some (f1, l1, Inl (Wal_Io Write_Failed))"
    "append_op p D C Written f1 l1 b = Some (f2, l2, Inr (of_nat (Suc (Suc (length rs)))))"
    "wal_replay p D C f2 (wal_path l) = Some (Inl (Chain_Broken (Suc (length rs))
      (''seq '' @ show_word (of_nat (Suc (length rs)) :: u64))
      (''seq '' @ show_word (of_nat (Suc (Suc (length rs))) :: u64))))"
    using failed_append [OF assms] by blast
  have "f2 (wal_path l) \<noteq> None"
    using r(3) by (cases "f2 (wal_path l)") (simp_all add: wal_replay_def)
  with r(3) have "pst_open p D C SC f2 state_path (wal_path l) = Some (f2, Inl (Chain_Broken (Suc (length rs))
      (''seq '' @ show_word (of_nat (Suc (length rs)) :: u64))
      (''seq '' @ show_word (of_nat (Suc (Suc (length rs))) :: u64))))"
    by (simp add: pst_open_def del: of_nat_Suc)
  with r(1,2) show ?thesis by blast
qed

lemma failed_append_breaks_log_witness:
  "\<exists>f1 l1 f2 l2.
    append_op Checked demo_digest demo_wal_codec (Partial 0) [''wal'' \<mapsto> []]
      \<lparr>wal_path = ''wal'', wal_seq = 0, wal_prev = WAL_GENESIS\<rparr> (Wal_Apply (Tx_Set ''a'' ''1'')) =
      Some (f1, l1, Inl (Wal_Io Write_Failed)) \<and>
    append_op Checked demo_digest demo_wal_codec Written f1 l1 (Wal_Apply (Tx_Set ''b'' ''2'')) =
      Some (f2, l2, Inr 2) \<and>
    pst_open Checked demo_digest demo_wal_codec demo_snap_codec f2 ''snap'' ''wal'' =
      Some (f2, Inl (Chain_Broken 1 (''seq '' @ show_word (1 :: u64)) (''seq '' @ show_word (2 :: u64))))"
proof -
  have "wal_at demo_digest demo_wal_codec [''wal'' \<mapsto> []]
      \<lparr>wal_path = ''wal'', wal_seq = 0, wal_prev = WAL_GENESIS\<rparr> []"
    by (simp add: wal_at_def)
  from failed_append_breaks_log [OF demo_wal_codec_ok this, of Checked] show ?thesis by simp
qed

end
