(* ===== verification/Transport.thy ===== *)
theory Transport imports Prelude begin

text \<open>
  \<open>kai-os/network/src/transport.rs\<close> and \<open>tcp.rs\<close>: length-prefixed frames and a receiver that
  cuts them out of a TCP stream. The stream is the list of results of the successive \<open>read\<close>
  calls; a receive that would block for more is \<open>None\<close>.
\<close>

section \<open>Frames\<close>

datatype transport_error =
    Incomplete nat nat
  | Length_Mismatch nat nat
  | Oversized nat nat

definition MAX_FRAME :: nat where
  "MAX_FRAME = 4 * 1024 * 1024"

text \<open>\<open>u32::to_be_bytes\<close> and \<open>u32::from_be_bytes\<close>.\<close>

definition be_bytes32 :: "u32 \<Rightarrow> bytes" where
  "be_bytes32 w =
     (let n = unat w in
      [of_nat (n div 2 ^ 24), of_nat (n div 2 ^ 16 mod 256), of_nat (n div 2 ^ 8 mod 256),
       of_nat (n mod 256)])"

definition from_be32 :: "u8 \<Rightarrow> u8 \<Rightarrow> u8 \<Rightarrow> u8 \<Rightarrow> u32" where
  "from_be32 a b c d =
     of_nat (unat a * 2 ^ 24 + unat b * 2 ^ 16 + unat c * 2 ^ 8 + unat d)"

text \<open>The length is cast with \<open>as u32\<close>, which truncates.\<close>

definition frame :: "bytes \<Rightarrow> bytes" where
  "frame payload = be_bytes32 (of_nat (length payload)) @ payload"

definition parse_frame :: "bytes \<Rightarrow> transport_error + bytes \<times> nat" where
  "parse_frame buf =
     (if length buf < 4 then Inl (Incomplete 4 (length buf))
      else
        let declared = unat (from_be32 (buf ! 0) (buf ! 1) (buf ! 2) (buf ! 3)) in
        if MAX_FRAME < declared then Inl (Oversized declared MAX_FRAME)
        else if length buf - 4 < declared then Inl (Incomplete (4 + declared) (length buf))
        else Inr (take declared (drop 4 buf), 4 + declared))"

section \<open>The receiver\<close>

datatype tcp_error = Tcp_Io | Tcp_Frame transport_error | Closed_Mid_Frame

text \<open>What \<open>stream.read\<close> returns: bytes (none at the end of the stream), or an error.\<close>

datatype read_result = Read bytes | Read_Error

text \<open>The result is the buffer and the reads left, and the outcome.\<close>

fun tcp_receive ::
  "bytes \<Rightarrow> read_result list \<Rightarrow> (bytes \<times> read_result list \<times> (tcp_error + bytes)) option" where
  "tcp_receive buf reads =
     (case parse_frame buf of
        Inr (payload, consumed) \<Rightarrow> Some (drop consumed buf, reads, Inr payload)
      | Inl _ \<Rightarrow>
          (case reads of
             [] \<Rightarrow> None
           | Read_Error # rest \<Rightarrow> Some (buf, rest, Inl Tcp_Io)
           | Read chunk # rest \<Rightarrow>
               if chunk = [] then Some (buf, rest, Inl Closed_Mid_Frame)
               else
                 (case parse_frame (buf @ chunk) of
                    Inl (Oversized declared limit) \<Rightarrow>
                      Some (buf @ chunk, rest, Inl (Tcp_Frame (Oversized declared limit)))
                  | _ \<Rightarrow> tcp_receive (buf @ chunk) rest)))"

declare tcp_receive.simps [simp del]

text \<open>Successive receives on one peer.\<close>

fun receive_many ::
  "nat \<Rightarrow> bytes \<Rightarrow> read_result list \<Rightarrow> (bytes \<times> read_result list \<times> (tcp_error + bytes) list) option" where
  "receive_many 0 buf reads = Some (buf, reads, [])"
| "receive_many (Suc n) buf reads =
     (case tcp_receive buf reads of
        None \<Rightarrow> None
      | Some (buf', reads', r) \<Rightarrow>
          map_option (\<lambda>(b, rs, out). (b, rs, r # out)) (receive_many n buf' reads'))"

text \<open>
  A peer: its buffer, what the successive reads of its socket return, and the bytes written to it.
  The socket has a read timeout, so that a silent peer is an error of \<open>read\<close>. The argument of a send
  is the outcome of \<open>write_all\<close> and \<open>flush\<close>: \<open>None\<close>, or an error after that many bytes.
\<close>

record tcp_peer =
  tp_buf :: bytes
  tp_reads :: "read_result list"
  tp_sent :: bytes

definition from_stream :: "read_result list \<Rightarrow> tcp_peer" where
  "from_stream reads = \<lparr>tp_buf = [], tp_reads = reads, tp_sent = []\<rparr>"

text \<open>
  Setting the two timeouts and \<open>nodelay\<close> on a socket, and connecting: every call may fail, and the
  first failure is the result.
\<close>

definition socket_setup :: "bool list \<Rightarrow> read_result list \<Rightarrow> tcp_error + tcp_peer" where
  "socket_setup options reads = (if list_all id options then Inr (from_stream reads) else Inl Tcp_Io)"

definition tcp_connect :: "bool \<Rightarrow> bool list \<Rightarrow> read_result list \<Rightarrow> tcp_error + tcp_peer" where
  "tcp_connect connected options reads = (if connected then socket_setup options reads else Inl Tcp_Io)"

definition tcp_send :: "nat option \<Rightarrow> tcp_peer \<Rightarrow> bytes \<Rightarrow> tcp_peer \<times> (tcp_error + unit)" where
  "tcp_send fails p payload =
     (let framed = frame payload in
      case fails of
        None \<Rightarrow> (p\<lparr>tp_sent := tp_sent p @ framed\<rparr>, Inr ())
      | Some n \<Rightarrow> (p\<lparr>tp_sent := tp_sent p @ take n framed\<rparr>, Inl Tcp_Io))"

definition peer_receive :: "tcp_peer \<Rightarrow> tcp_peer \<times> (tcp_error + bytes)" where
  "peer_receive p =
     (case tcp_receive (tp_buf p) (tp_reads p @ [Read_Error]) of
        Some (buf, reads, r) \<Rightarrow> (p\<lparr>tp_buf := buf, tp_reads := reads\<rparr>, r)
      | None \<Rightarrow> (p, Inl Tcp_Io))"

section \<open>Frames are self-delimiting\<close>

lemma length_be_bytes32 [simp]: "length (be_bytes32 w) = 4"
  by (simp add: be_bytes32_def Let_def)

lemma be_decompose:
  fixes n :: nat
  shows "n div 2 ^ 24 * 2 ^ 24 + n div 2 ^ 16 mod 256 * 2 ^ 16 + n div 2 ^ 8 mod 256 * 2 ^ 8 + n mod 256 = n"
proof -
  have "n mod 2 ^ 16 = n div 2 ^ 8 mod 256 * 2 ^ 8 + n mod 256" 
    using mod_mult2_eq [of n "2 ^ 8" "2 ^ 8"] by simp
  moreover have "n mod 2 ^ 24 = n div 2 ^ 16 mod 256 * 2 ^ 16 + n mod 2 ^ 16"
    using mod_mult2_eq [of n "2 ^ 16" "2 ^ 8"] by simp
  moreover have "n = n div 2 ^ 24 * 2 ^ 24 + n mod 2 ^ 24" by simp
  ultimately show ?thesis by linarith
qed

lemma from_be_bytes [simp]:
  "from_be32 (be_bytes32 w ! 0) (be_bytes32 w ! 1) (be_bytes32 w ! 2) (be_bytes32 w ! 3) = w"
proof -
  have u8: "m < 256 \<Longrightarrow> unat (of_nat m :: u8) = m" for m by (simp add: unat_of_nat)
  have "unat w < 2 ^ 32" using unsigned_less [of w] by simp
  then have "unat w div 2 ^ 24 < 256" by (simp add: less_mult_imp_div_less)
  then show ?thesis
    by (simp add: be_bytes32_def from_be32_def Let_def u8 be_decompose [simplified] numeral_3_eq_3)
qed

lemma unat_frame_length: "length m \<le> MAX_FRAME \<Longrightarrow> unat (of_nat (length m) :: u32) = length m"
  by (simp add: unat_of_nat MAX_FRAME_def)

lemma nth_header: "i < 4 \<Longrightarrow> (be_bytes32 w @ xs) ! i = be_bytes32 w ! i"
  by (simp add: nth_append)

lemma parse_header:
  "4 \<le> length buf \<Longrightarrow> take 4 buf = be_bytes32 w \<Longrightarrow>
   parse_frame buf =
     (if MAX_FRAME < unat w then Inl (Oversized (unat w) MAX_FRAME)
      else if length buf - 4 < unat w then Inl (Incomplete (4 + unat w) (length buf))
      else Inr (take (unat w) (drop 4 buf), 4 + unat w))"
proof -
  assume len: "4 \<le> length buf" and hd: "take 4 buf = be_bytes32 w"
  have "buf ! i = be_bytes32 w ! i" if "i < 4" for i using that by (metis hd nth_take)
  then have "buf ! 0 = be_bytes32 w ! 0" "buf ! 1 = be_bytes32 w ! 1" "buf ! 2 = be_bytes32 w ! 2"
    "buf ! 3 = be_bytes32 w ! 3" by simp_all
  then have "from_be32 (buf ! 0) (buf ! 1) (buf ! 2) (buf ! 3) = w" by (simp only: from_be_bytes)
  with len show ?thesis by (simp add: parse_frame_def Let_def)
qed

lemma parse_frame_append:
  "length m \<le> MAX_FRAME \<Longrightarrow> parse_frame (frame m @ rest) = Inr (m, 4 + length m)"
  using parse_header [of "frame m @ rest" "of_nat (length m)"] unat_frame_length [of m]
  by (simp add: frame_def)

text \<open>The four header bytes determine the word they encode.\<close>

lemma be_bytes_from: "be_bytes32 (from_be32 a b c d) = [a, b, c, d]"
proof -
  let ?n = "unat a * 2 ^ 24 + unat b * 2 ^ 16 + unat c * 2 ^ 8 + unat d"
  have lt: "unat x < 256" for x :: u8 using unsigned_less [of x] by simp
  have "?n < 2 ^ 32" using lt [of a] lt [of b] lt [of c] lt [of d] by simp
  then have u: "unat (from_be32 a b c d) = ?n" by (simp only: from_be32_def unat_of_nat) simp
  have d: "(x * 256 + unat y) div 256 = x" "(x * 256 + unat y) mod 256 = unat y" for x and y :: u8
    using lt [of y] by simp_all
  let ?k = "(unat a * 256 + unat b) * 256 + unat c"
  define n where "n = ?n"
  have n: "n = ?k * 256 + unat d" by (simp add: n_def)
  have d1: "n div 2 ^ 8 = ?k" using d(1) [of ?k d] by (simp only: n) simp
  have d2: "n div 2 ^ 16 = unat a * 256 + unat b"
    using d1 d(1) [of "unat a * 256 + unat b" c] div_mult2_eq [of n "2 ^ 8" "2 ^ 8"] by simp
  have d3: "n div 2 ^ 24 = unat a"
    using d2 d(1) [of "unat a" b] div_mult2_eq [of n "2 ^ 16" "2 ^ 8"] by simp
  have d0: "n mod 256 = unat d" unfolding n by (rule d(2))
  have d1': "n div 2 ^ 8 mod 256 = unat c" unfolding d1 by (rule d(2))
  have d2': "n div 2 ^ 16 mod 256 = unat b" unfolding d2 by (rule d(2))
  note u = u [folded n_def]
  show ?thesis unfolding be_bytes32_def u Let_def d0 d1' d2' d3 by simp
qed

lemma take_4: "4 \<le> length buf \<Longrightarrow> take 4 buf = [buf ! 0, buf ! 1, buf ! 2, buf ! 3]"
  by (cases buf; cases "tl buf"; cases "tl (tl buf)"; cases "tl (tl (tl buf))") auto

lemma parse_frame_iff:
  "parse_frame buf = Inr (m, k) \<longleftrightarrow>
     (\<exists>rest. buf = frame m @ rest) \<and> k = 4 + length m \<and> length m \<le> MAX_FRAME"
proof
  assume p: "parse_frame buf = Inr (m, k)"
  then have len: "4 \<le> length buf" by (simp add: parse_frame_def not_less split: if_splits)
  let ?w = "from_be32 (buf ! 0) (buf ! 1) (buf ! 2) (buf ! 3)"
  have hd: "take 4 buf = be_bytes32 ?w" using len by (simp add: be_bytes_from take_4)
  from p have m: "m = take (unat ?w) (drop 4 buf)" "k = 4 + unat ?w" "unat ?w \<le> MAX_FRAME"
    "unat ?w \<le> length buf - 4"
    unfolding parse_header [OF len hd] by (simp_all split: if_splits)
  then have lm: "length m = unat ?w" by simp
  then have "of_nat (length m) = ?w" by simp
  then have "buf = frame m @ drop (unat ?w) (drop 4 buf)"
    using hd m(1) by (metis append_assoc append_take_drop_id frame_def)
  with m lm show "(\<exists>rest. buf = frame m @ rest) \<and> k = 4 + length m \<and> length m \<le> MAX_FRAME" by auto
qed (auto simp: parse_frame_append)

section \<open>Chunks\<close>

text \<open>A buffer that is a proper prefix of a frame is incomplete, and never oversized.\<close>

lemma parse_prefix:
  assumes "buf @ later = frame m @ rest" "length m \<le> MAX_FRAME" "length buf < length (frame m)"
  shows "\<exists>e a. parse_frame buf = Inl (Incomplete e a)"
proof (cases "4 \<le> length buf")
  case False
  then show ?thesis by (simp add: parse_frame_def)
next
  case True
  let ?w = "of_nat (length m) :: u32"
  have "take 4 buf = take 4 (buf @ later)" using True by simp
  then have hd: "take 4 buf = be_bytes32 ?w" unfolding assms(1) by (simp add: frame_def)
  have "length buf - 4 < unat ?w" using assms(2,3) True by (simp add: frame_def unat_frame_length)
  then show ?thesis
    using assms(2) unfolding parse_header [OF True hd] by (simp add: unat_frame_length)
qed

lemma parse_within:
  assumes "buf @ later = frame m @ rest" "length m \<le> MAX_FRAME" "length (frame m) \<le> length buf"
  shows "parse_frame buf = Inr (m, 4 + length m) \<and> drop (4 + length m) buf @ later = rest"
proof -
  have "buf = frame m @ drop (length (frame m)) buf"
    using assms(1,3) by (metis append_eq_append_conv_if append_take_drop_id)
  moreover from this have "drop (length (frame m)) buf @ later = rest"
    using assms(1) by (metis append_assoc same_append_eq)
  ultimately show ?thesis
    using assms(2) parse_frame_append by (metis frame_def length_append length_be_bytes32)
qed

lemma tcp_receive_frame:
  "buf @ concat cs = frame m @ rest \<Longrightarrow> length m \<le> MAX_FRAME \<Longrightarrow> [] \<notin> set cs \<Longrightarrow>
   \<exists>buf' cs'. tcp_receive buf (map Read cs @ later) = Some (buf', map Read cs' @ later, Inr m) \<and>
     buf' @ concat cs' = rest \<and> [] \<notin> set cs'"
proof (induction cs arbitrary: buf)
  case Nil
  then have "length (frame m) \<le> length buf" by (metis append_Nil2 concat.simps(1) le_add1 length_append)
  with parse_within [OF Nil.prems(1,2)] show ?case
    by (intro exI [of _ "drop (4 + length m) buf"] exI [of _ "[]"]) (simp add: tcp_receive.simps)
next
  case (Cons c cs)
  show ?case
  proof (cases "length (frame m) \<le> length buf")
    case True
    with parse_within [OF Cons.prems(1,2)] Cons.prems(3) show ?thesis
      by (intro exI [of _ "drop (4 + length m) buf"] exI [of _ "c # cs"]) (simp add: tcp_receive.simps)
  next
    case False
    then obtain e a where inc: "parse_frame buf = Inl (Incomplete e a)"
      using parse_prefix [OF Cons.prems(1,2)] by auto
    have next_buf: "(buf @ c) @ concat cs = frame m @ rest" using Cons.prems(1) by simp
    have "parse_frame (buf @ c) \<noteq> Inl (Oversized d l)" for d l
      using parse_prefix [OF next_buf Cons.prems(2)] parse_within [OF next_buf Cons.prems(2)]
      by (cases "length (frame m) \<le> length (buf @ c)") auto
    then have "tcp_receive buf (map Read (c # cs) @ later) = tcp_receive (buf @ c) (map Read cs @ later)"
      using Cons.prems(3) inc
      by (subst tcp_receive.simps) (auto split: sum.splits transport_error.splits)
    with Cons.IH [OF next_buf Cons.prems(2)] Cons.prems(3) show ?thesis by auto
  qed
qed

lemma receive_many_frames:
  "buf @ concat cs = concat (map frame ms) @ rest \<Longrightarrow> \<forall>m \<in> set ms. length m \<le> MAX_FRAME \<Longrightarrow>
   [] \<notin> set cs \<Longrightarrow>
   \<exists>buf' cs'. receive_many (length ms) buf (map Read cs) = Some (buf', map Read cs', map Inr ms) \<and>
     buf' @ concat cs' = rest"
proof (induction ms arbitrary: buf cs)
  case (Cons m ms)
  then obtain buf1 cs1 where one: "tcp_receive buf (map Read cs) = Some (buf1, map Read cs1, Inr m)"
    "buf1 @ concat cs1 = concat (map frame ms) @ rest" "[] \<notin> set cs1"
    using tcp_receive_frame [of buf cs m "concat (map frame ms) @ rest" "[]"] by auto
  with Cons.IH [OF one(2)] Cons.prems(2) show ?case by auto
qed auto

text \<open>With the timeout a receive always returns.\<close>

lemma tcp_receive_timeout: "tcp_receive buf (reads @ [Read_Error]) \<noteq> None"
proof (induction reads arbitrary: buf)
  case Nil
  then show ?case by (subst tcp_receive.simps) (simp split: sum.split)
next
  case (Cons r reads)
  then show ?case
    by (subst tcp_receive.simps) (auto split: sum.split read_result.split transport_error.split)
qed

lemma peer_receive_frame:
  assumes "concat cs = frame m @ rest" "length m \<le> MAX_FRAME" "[] \<notin> set cs"
  obtains p' where "peer_receive (from_stream (map Read cs)) = (p', Inr m)" "tp_sent p' = []"
proof -
  obtain buf cs' where "tcp_receive [] (map Read cs @ [Read_Error]) = Some (buf, map Read cs' @ [Read_Error], Inr m)"
    using tcp_receive_frame [of "[]" cs m rest "[Read_Error]"] assms by auto
  then show thesis
    by (intro that [of "\<lparr>tp_buf = buf, tp_reads = map Read cs' @ [Read_Error], tp_sent = []\<rparr>"])
      (simp_all add: peer_receive_def from_stream_def)
qed

lemma frame_nonempty [simp]: "frame m \<noteq> []" "[] \<noteq> frame m"
  by (simp_all add: frame_def be_bytes32_def Let_def)

lemma peer_receive_sent: "tp_sent (fst (peer_receive p)) = tp_sent p"
  by (simp add: peer_receive_def split: option.split)

section \<open>Every byte is accounted for\<close>

text \<open>The bytes a read brings, and the payloads among the results of receives.\<close>

primrec read_bytes :: "read_result \<Rightarrow> bytes" where
  "read_bytes (Read chunk) = chunk"
| "read_bytes Read_Error = []"

definition payloads :: "(tcp_error + bytes) list \<Rightarrow> bytes list" where
  "payloads rs = concat (map (case_sum (\<lambda>_. []) (\<lambda>m. [m])) rs)"

lemma payloads_simps [simp]:
  "payloads [] = []" "payloads (Inl e # rs) = payloads rs" "payloads (Inr m # rs) = m # payloads rs"
  by (simp_all add: payloads_def)

text \<open>
  One receive: it consumes some reads, whose bytes come after those of the buffer. A payload is the
  frame they start with; an error keeps them all, and is returned only when they hold no frame.
\<close>

definition accounts ::
  "bytes \<Rightarrow> read_result list \<Rightarrow> bytes \<Rightarrow> (tcp_error + bytes) \<Rightarrow> bool" where
  "accounts buf used buf' r \<longleftrightarrow>
     buf @ concat (map read_bytes used) = concat (map frame (payloads [r])) @ buf' \<and>
     (case r of Inr m \<Rightarrow> length m \<le> MAX_FRAME | Inl _ \<Rightarrow> \<exists>e. parse_frame buf' = Inl e) \<and>
     count_list used Read_Error = count_list [r] (Inl Tcp_Io) \<and>
     count_list used (Read []) = count_list [r] (Inl Closed_Mid_Frame)"

lemma accounts_more:
  "accounts (buf @ chunk) used buf' r \<Longrightarrow> chunk \<noteq> [] \<Longrightarrow> accounts buf (Read chunk # used) buf' r"
  by (simp add: accounts_def)

lemma accounts_frame: "parse_frame buf = Inr (m, k) \<Longrightarrow> accounts buf [] (drop k buf) (Inr m)"
  by (auto simp: accounts_def parse_frame_iff frame_def)

lemma accounts_error:
  "parse_frame buf = Inl e \<Longrightarrow> accounts buf [Read_Error] buf (Inl Tcp_Io)"
  "parse_frame buf = Inl e \<Longrightarrow> accounts buf [Read []] buf (Inl Closed_Mid_Frame)"
  "parse_frame (buf @ chunk) = Inl e \<Longrightarrow> chunk \<noteq> [] \<Longrightarrow>
   accounts buf [Read chunk] (buf @ chunk) (Inl (Tcp_Frame e))"
  by (auto simp: accounts_def)

lemma tcp_receive_accounts:
  "tcp_receive buf reads = Some (buf', reads', r) \<Longrightarrow>
   \<exists>used. reads = used @ reads' \<and> accounts buf used buf' r"
proof (induction reads arbitrary: buf)
  case Nil
  then show ?case
    by (subst (asm) tcp_receive.simps) (auto intro: accounts_frame split: sum.splits)
next
  case (Cons read reads)
  show ?case
  proof (cases "parse_frame buf")
    case (Inr mk)
    with Cons.prems show ?thesis
      by (subst (asm) tcp_receive.simps) (cases mk, auto intro: accounts_frame)
  next
    case inc: (Inl e)
    show ?thesis
    proof (cases "\<exists>chunk. read = Read chunk \<and> chunk \<noteq> [] \<and> (\<nexists>d l. parse_frame (buf @ chunk) = Inl (Oversized d l))")
      case True
      then obtain chunk where c: "read = Read chunk" "chunk \<noteq> []"
        "\<nexists>d l. parse_frame (buf @ chunk) = Inl (Oversized d l)" by blast
      then have "tcp_receive buf (read # reads) = tcp_receive (buf @ chunk) reads"
        using inc by (subst tcp_receive.simps) (auto split: sum.splits transport_error.splits)
      with Cons.prems obtain used where "reads = used @ reads'" "accounts (buf @ chunk) used buf' r"
        using Cons.IH [of "buf @ chunk"] by auto
      with accounts_more [OF this(2) c(2)] c(1) show ?thesis by (intro exI [of _ "read # used"]) simp
    next
      case False
      with Cons.prems inc have "reads' = reads \<and> accounts buf [read] buf' r"
        by (subst (asm) tcp_receive.simps)
          (cases read; auto intro: accounts_error split: if_splits)
      then show ?thesis by (intro exI [of _ "[read]"]) simp
    qed
  qed
qed

lemma receive_many_accounts:
  "receive_many n buf reads = Some (buf', reads', rs) \<Longrightarrow>
   \<exists>used. reads = used @ reads' \<and> length rs = n \<and>
     buf @ concat (map read_bytes used) = concat (map frame (payloads rs)) @ buf' \<and>
     list_all (\<lambda>m. length m \<le> MAX_FRAME) (payloads rs) \<and>
     count_list used Read_Error = count_list rs (Inl Tcp_Io) \<and>
     count_list used (Read []) = count_list rs (Inl Closed_Mid_Frame) \<and>
     (rs \<noteq> [] \<longrightarrow> (case last rs of Inr _ \<Rightarrow> True | Inl _ \<Rightarrow> \<exists>e. parse_frame buf' = Inl e))"
proof (induction n arbitrary: buf reads rs)
  case (Suc n)
  then obtain buf1 reads1 r rs1 where one: "tcp_receive buf reads = Some (buf1, reads1, r)"
    and rest: "receive_many n buf1 reads1 = Some (buf', reads', rs1)" and rs: "rs = r # rs1"
    by (auto split: option.splits)
  obtain us where us: "reads = us @ reads1" "accounts buf us buf1 r"
    using tcp_receive_accounts [OF one] by blast
  note ac = us(2) [unfolded accounts_def]
  obtain vs where vs: "reads1 = vs @ reads'" "length rs1 = n"
    "buf1 @ concat (map read_bytes vs) = concat (map frame (payloads rs1)) @ buf'"
    "list_all (\<lambda>m. length m \<le> MAX_FRAME) (payloads rs1)"
    "count_list vs Read_Error = count_list rs1 (Inl Tcp_Io)"
    "count_list vs (Read []) = count_list rs1 (Inl Closed_Mid_Frame)"
    "rs1 \<noteq> [] \<longrightarrow> (case last rs1 of Inr _ \<Rightarrow> True | Inl _ \<Rightarrow> \<exists>e. parse_frame buf' = Inl e)"
    using Suc.IH [OF rest] by blast
  have lst: "case last rs of Inr _ \<Rightarrow> True | Inl _ \<Rightarrow> \<exists>e. parse_frame buf' = Inl e"
  proof (cases "rs1 = []")
    case True
    then have "buf' = buf1" using rest vs(2) by auto
    then show ?thesis using ac True rs by (auto split: sum.splits)
  qed (use vs(7) rs in auto)
  have "buf @ concat (map read_bytes (us @ vs)) =
      concat (map frame (payloads [r])) @ concat (map frame (payloads rs1)) @ buf'"
    using ac vs(3) by (metis append_assoc concat_append map_append)
  then have bytes: "buf @ concat (map read_bytes (us @ vs)) = concat (map frame (payloads rs)) @ buf'"
    unfolding rs by (cases r) simp_all
  have "list_all (\<lambda>m. length m \<le> MAX_FRAME) (payloads rs)"
    using ac vs(4) unfolding rs by (cases r) simp_all
  with bytes lst show ?case
    using us(1) vs ac rs by (intro exI [of _ "us @ vs"]) auto
qed auto

section \<open>Properties\<close>

text \<open>
  Framing is exact: a buffer parses to a payload precisely when it starts with that payload's
  frame and the payload is within the limit; the bytes consumed are those of the frame.
\<close>

theorem parse_frame_exact:
  "parse_frame buf = Inr (m, k) \<longleftrightarrow>
     (\<exists>rest. buf = frame m @ rest) \<and> k = 4 + length m \<and> length m \<le> MAX_FRAME"
  by (rule parse_frame_iff)

text \<open>
  C25: A stream is not a message: however TCP cuts the bytes of a sequence of frames into reads,
  as many receives as there are messages return exactly the messages, in order, and what follows
  them stays in the buffer and the stream.
\<close>

theorem stream_delivers_messages:
  assumes "concat cs = concat (map frame ms) @ rest" "\<forall>m \<in> set ms. length m \<le> MAX_FRAME"
    and "[] \<notin> set cs"
  shows "\<exists>buf cs'. receive_many (length ms) [] (map Read cs) = Some (buf, map Read cs', map Inr ms) \<and>
    buf @ concat cs' = rest"
  using receive_many_frames [of "[]" cs ms rest] assms by simp

lemma stream_delivers_messages_witness:
  "\<exists>buf cs'. receive_many (length [[7 :: u8], [], [8, 9]]) []
     (map Read [[0, 0], [0, 1, 7, 0, 0, 0, 0, 0, 0], [0, 2, 8], [9, 0]]) =
       Some (buf, map Read cs', map Inr [[7], [], [8, 9]]) \<and> buf @ concat cs' = [0]"
  by (rule stream_delivers_messages)
    (simp_all add: frame_def be_bytes32_def Let_def MAX_FRAME_def)

text \<open>
  C22: No byte is lost, invented or altered on the receiving side. Whatever the reads return, errors
  and closed connections included: after any number of receives the bytes held at first and those of
  the reads consumed are exactly the frames of the payloads returned, in order, followed by the bytes
  still held. Every payload is within the frame limit. Every error of a read is reported exactly once
  and so is every read at the end of the stream, and an error is returned only when the bytes held
  do not start with a frame.
\<close>

theorem receives_account_for_every_byte:
  assumes "receive_many n buf reads = Some (buf', reads', rs)"
  shows "\<exists>used. reads = used @ reads' \<and> length rs = n \<and>
    buf @ concat (map read_bytes used) = concat (map frame (payloads rs)) @ buf' \<and>
    list_all (\<lambda>m. length m \<le> MAX_FRAME) (payloads rs) \<and>
    count_list used Read_Error = count_list rs (Inl Tcp_Io) \<and>
    count_list used (Read []) = count_list rs (Inl Closed_Mid_Frame) \<and>
    (rs \<noteq> [] \<longrightarrow> (case last rs of Inr _ \<Rightarrow> True | Inl _ \<Rightarrow> \<exists>e. parse_frame buf' = Inl e))"
  using assms by (rule receive_many_accounts)

lemma receives_account_for_every_byte_witness:
  "receive_many 3 [] [Read [0, 0], Read_Error, Read [0, 1, 7, 0], Read [], Read [5]] =
     Some ([0], [Read [5]], [Inl Tcp_Io, Inr [7 :: u8], Inl Closed_Mid_Frame]) \<and>
   (\<exists>used. [Read [0, 0], Read_Error, Read [0, 1, 7, 0], Read [], Read [5]] = used @ [Read [5]] \<and>
     concat (map read_bytes used) = frame [7] @ [0])"
proof
  show run: "receive_many 3 [] [Read [0, 0], Read_Error, Read [0, 1, 7, 0], Read [], Read [5]] =
     Some ([0], [Read [5]], [Inl Tcp_Io, Inr [7 :: u8], Inl Closed_Mid_Frame])"
    by (simp add: numeral_3_eq_3 tcp_receive.simps parse_frame_def from_be32_def Let_def MAX_FRAME_def)
  from receives_account_for_every_byte [OF run]
  show "\<exists>used. [Read [0, 0], Read_Error, Read [0, 1, 7, 0], Read [], Read [5]] = used @ [Read [5]] \<and>
     concat (map read_bytes used) = frame [7] @ [0]" by auto
qed

text \<open>
  The limit is not enforced where it is promised. The sender frames payloads over the limit
  and every receiver refuses them; a peer that closes cleanly between two messages is reported
  as closed inside a frame; and an oversized header left in the buffer by the previous receive is
  not refused: the next receive waits for more data instead.
\<close>

theorem frame_limit_gaps:
  assumes "MAX_FRAME < length m" "length m < 2 ^ 32"
  shows "parse_frame (frame m @ rest) = Inl (Oversized (length m) MAX_FRAME) \<and>
    tcp_receive [] (Read [] # reads) = Some ([], reads, Inl Closed_Mid_Frame) \<and>
    tcp_receive [] [Read (frame m)] =
      Some (frame m, [], Inl (Tcp_Frame (Oversized (length m) MAX_FRAME))) \<and>
    tcp_receive [] [Read (frame [] @ frame m)] = Some (frame m, [], Inr []) \<and>
    tcp_receive (frame m) [] = None"
proof (intro conjI)
  show over: "parse_frame (frame m @ rest) = Inl (Oversized (length m) MAX_FRAME)" for rest
    using assms parse_header [of "frame m @ rest" "of_nat (length m)"]
    by (simp add: frame_def unat_of_nat)
  note over0 = over [of "[]", simplified]
  have empty: "parse_frame [] = Inl (Incomplete 4 0)" by (simp add: parse_frame_def)
  have first: "parse_frame (frame [] @ frame m) = Inr ([], 4)"
    using parse_frame_append [of "[]" "frame m"] by (simp add: MAX_FRAME_def)
  show "tcp_receive [] (Read [] # reads) = Some ([], reads, Inl Closed_Mid_Frame)"
    by (subst tcp_receive.simps) (simp add: empty)
  show "tcp_receive (frame m) [] = None"
    by (subst tcp_receive.simps) (simp add: over0)
  show "tcp_receive [] [Read (frame m)] =
      Some (frame m, [], Inl (Tcp_Frame (Oversized (length m) MAX_FRAME)))"
    by (subst tcp_receive.simps) (simp add: empty over0)
  have "tcp_receive (frame [] @ frame m) [] = Some (frame m, [], Inr [])"
    by (subst tcp_receive.simps) (simp add: first, simp add: frame_def)
  then show "tcp_receive [] [Read (frame [] @ frame m)] = Some (frame m, [], Inr [])"
    by (subst tcp_receive.simps) (simp add: empty first)
qed

lemma frame_limit_gaps_witness:
  "\<exists>m. tcp_receive [] [Read (frame [] @ frame m)] = Some (frame m, [], Inr []) \<and>
     tcp_receive (frame m) [] = None"
proof -
  define m :: bytes where "m = replicate (MAX_FRAME + 1) 0"
  have "MAX_FRAME < length m" "length m < 2 ^ 32" by (simp_all add: m_def MAX_FRAME_def)
  from frame_limit_gaps [OF this] show ?thesis by blast
qed

end
