(* ===== verification/Replay_Guard.thy ===== *)
theory Replay_Guard imports Prelude begin

text \<open>
  Replay protection by strictly increasing numbers: secure sessions, the authentication registry
  and the IPC gateway accept a message only if its number exceeds the last one accepted on its
  channel, and remember it. The contract and its consequences, once, as a locale.
\<close>

text \<open>The messages a receiver accepts out of a sequence of received ones.\<close>

fun accepted :: "('s \<Rightarrow> 'm \<Rightarrow> 's \<times> ('e + 'a)) \<Rightarrow> 's \<Rightarrow> 'm list \<Rightarrow> 'm list" where
  "accepted step s [] = []"
| "accepted step s (m # ms) =
     (case step s m of
        (s', Inl _) \<Rightarrow> accepted step s' ms
      | (s', Inr _) \<Rightarrow> m # accepted step s' ms)"

fun final :: "('s \<Rightarrow> 'm \<Rightarrow> 's \<times> 'r) \<Rightarrow> 's \<Rightarrow> 'm list \<Rightarrow> 's" where
  "final step s [] = s"
| "final step s (m # ms) = final step (fst (step s m)) ms"

fun outcomes :: "('s \<Rightarrow> 'm \<Rightarrow> 's \<times> 'r) \<Rightarrow> 's \<Rightarrow> 'm list \<Rightarrow> 'r list" where
  "outcomes step s [] = []"
| "outcomes step s (m # ms) = snd (step s m) # outcomes step (fst (step s m)) ms"

lemma accepted_invariant:
  assumes "\<And>s m. P s \<Longrightarrow> P (fst (step s m))"
    and "\<And>s m s' v. P s \<Longrightarrow> step s m = (s', Inr v) \<Longrightarrow> Q m"
  shows "P s \<Longrightarrow> m \<in> set (accepted step s ms) \<Longrightarrow> Q m"
proof (induction ms arbitrary: s)
  case (Cons x ms)
  obtain s' r where st: "step s x = (s', r)" by (cases "step s x") auto
  then have "P s'" using assms(1) [OF Cons.prems(1), of x] by simp
  with Cons assms(2) [OF Cons.prems(1), of x s'] st show ?case by (cases r) auto
qed simp

locale replay_guard =
  fixes step :: "'s \<Rightarrow> 'm \<Rightarrow> 's \<times> ('e + 'a)"
    and chan :: "'m \<Rightarrow> 'c"
    and num :: "'m \<Rightarrow> u64"
    and mark :: "'s \<Rightarrow> 'c \<Rightarrow> u64"
  assumes accept_law: "step s m = (s', Inr v) \<Longrightarrow>
      mark s (chan m) < num m \<and> mark s' = (mark s)(chan m := num m)"
    and reject_law: "step s m = (s', Inl e) \<Longrightarrow> mark s' = mark s"
begin

lemma increasing:
  "sorted_wrt (<) (map num (filter (\<lambda>m. chan m = c) (accepted step s ms))) \<and>
   (\<forall>m \<in> set (accepted step s ms). mark s (chan m) < num m)"
proof (induction ms arbitrary: s)
  case (Cons m ms)
  obtain s' r where st: "step s m = (s', r)" by (cases "step s m") auto
  note IH = Cons.IH [of s']
  show ?case
  proof (cases r)
    case (Inl e)
    with st reject_law [of s m s' e] IH show ?thesis by simp
  next
    case (Inr v)
    then have law: "mark s (chan m) < num m" "mark s' = (mark s)(chan m := num m)"
      using accept_law st by auto
    have up: "mark s (chan x) < num x \<and> (chan x = chan m \<longrightarrow> num m < num x)"
      if "x \<in> set (accepted step s' ms)" for x
      using IH that law by (cases "chan x = chan m") (fastforce dest: less_trans)+
    with IH law(1) st Inr show ?thesis by auto
  qed
qed simp

lemma marks_grow: "mark s c \<le> mark (final step s ms) c"
proof (induction ms arbitrary: s)
  case (Cons m ms)
  obtain s' r where st: "step s m = (s', r)" by (cases "step s m") auto
  have "mark s c \<le> mark s' c"
  proof (cases r)
    case (Inl e)
    with st reject_law show ?thesis by simp
  next
    case (Inr v)
    with st accept_law [of s m s' v] show ?thesis by auto
  qed
  with Cons.IH [of s'] st show ?case by simp
qed simp

lemma accepted_below: "m \<in> set (accepted step s ms) \<Longrightarrow> num m \<le> mark (final step s ms) (chan m)"
proof (induction ms arbitrary: s)
  case (Cons x ms)
  obtain s' r where st: "step s x = (s', r)" by (cases "step s x") auto
  show ?case
  proof (cases "m \<in> set (accepted step s' ms)")
    case True
    with Cons.IH st show ?thesis by simp
  next
    case False
    with Cons.prems st obtain v where "m = x" "r = Inr v" by (cases r) auto
    then have "mark s' (chan m) = num m" using st accept_law by simp
    with marks_grow [of s' "chan m" ms] st show ?thesis by simp
  qed
qed simp

text \<open>Nothing is accepted twice, and what was accepted is refused from then on.\<close>

lemma no_replay: "distinct (accepted step s ms)"
proof (induction ms arbitrary: s)
  case (Cons m ms)
  obtain s' r where st: "step s m = (s', r)" by (cases "step s m") auto
  show ?case
  proof (cases r)
    case (Inr v)
    then have "mark s' (chan m) = num m" using st accept_law by simp
    then have "m \<notin> set (accepted step s' ms)" using increasing [of _ s' ms] by fastforce
    with Cons.IH st Inr show ?thesis by simp
  qed (use Cons.IH st in simp)
qed simp

lemma replay_refused:
  "m \<in> set (accepted step s ms) \<Longrightarrow> \<not> is_ok (snd (step (final step s ms) m))"
proof -
  assume "m \<in> set (accepted step s ms)"
  then have "num m \<le> mark (final step s ms) (chan m)" by (rule accepted_below)
  then show ?thesis
    using accept_law [of "final step s ms" m]
    by (cases "step (final step s ms) m"; cases "snd (step (final step s ms) m)") auto
qed

end

end
