(* ===== verification/Peer_Security.thy ===== *)
theory Peer_Security imports Replay_Guard "HOL-Library.Sublist" begin

text \<open>
  \<open>kai-os/network/src/peer.rs\<close> (key pairs), \<open>auth.rs\<close> and \<open>session.rs\<close>: challenge-response
  authentication and secure sessions over signed envelopes. Ed25519 (crate \<open>ed25519_dalek\<close>) is the
  parameter \<open>G\<close>, SHA-256 the parameter \<open>D\<close>; both replay protections are interpretations of
  \<open>replay_guard\<close>.
\<close>

section \<open>Key pairs\<close>

text \<open>
  \<open>sg_verify\<close> is false when the public key does not decode. \<open>sg_ok\<close> is the documented behaviour
  of Ed25519: keys of 32 bytes, signatures of 64, and a signature made with a seed verifies under
  its public key.
\<close>

record sig_scheme =
  sg_public :: "bytes \<Rightarrow> bytes"
  sg_sign :: "bytes \<Rightarrow> bytes \<Rightarrow> bytes"
  sg_verify :: "bytes \<Rightarrow> bytes \<Rightarrow> bytes \<Rightarrow> bool"

definition sg_ok :: "sig_scheme \<Rightarrow> bool" where
  "sg_ok G \<longleftrightarrow> (\<forall>seed msg. length seed = 32 \<longrightarrow>
     length (sg_public G seed) = 32 \<and> length (sg_sign G seed msg) = 64 \<and>
     sg_verify G (sg_public G seed) msg (sg_sign G seed msg))"

record keypair =
  kp_seed :: bytes

definition public_bytes :: "sig_scheme \<Rightarrow> keypair \<Rightarrow> bytes" where
  "public_bytes G k = sg_public G (kp_seed k)"

definition peer_id_of :: "sig_scheme \<Rightarrow> keypair \<Rightarrow> string" where
  "peer_id_of G k = hex (public_bytes G k)"

definition kp_sign :: "sig_scheme \<Rightarrow> keypair \<Rightarrow> bytes \<Rightarrow> bytes" where
  "kp_sign G k msg = sg_sign G (kp_seed k) msg"

definition verify_signature :: "sig_scheme \<Rightarrow> bytes \<Rightarrow> bytes \<Rightarrow> bytes \<Rightarrow> bool" where
  "verify_signature G public msg sig = sg_verify G public msg sig"

section \<open>Authentication\<close>

record challenge =
  ch_from :: string
  ch_to :: string
  ch_nonce :: u64

record challenge_response =
  cr_from :: string
  cr_to :: string
  cr_nonce :: u64
  cr_signature :: bytes

datatype auth_error = Auth_Replay u64 u64 | Wrong_Peer string string | Auth_Bad_Signature

definition challenge_payload :: "digest \<Rightarrow> challenge \<Rightarrow> bytes" where
  "challenge_payload D c =
     D (as_bytes (ch_from c @ ''|'' @ ch_to c @ ''|'' @ show_word (ch_nonce c)))"

record challenge_generator =
  cg_last :: u64

definition new_generator :: challenge_generator where
  "new_generator = \<lparr>cg_last = 0\<rparr>"

definition next_challenge ::
  "profile \<Rightarrow> challenge_generator \<Rightarrow> string \<Rightarrow> string \<Rightarrow> (challenge_generator \<times> challenge) option" where
  "next_challenge p g from_id to_id = do {
     n \<leftarrow> add_ov p (cg_last g) 1;
     Some (g\<lparr>cg_last := n\<rparr>, \<lparr>ch_from = from_id, ch_to = to_id, ch_nonce = n\<rparr>)
   }"

definition respond :: "sig_scheme \<Rightarrow> digest \<Rightarrow> challenge \<Rightarrow> keypair \<Rightarrow> challenge_response" where
  "respond G D c k =
     \<lparr>cr_from = ch_to c, cr_to = ch_from c, cr_nonce = ch_nonce c,
      cr_signature = kp_sign G k (challenge_payload D c)\<rparr>"

record auth_registry =
  ar_last :: "string \<rightharpoonup> u64"

definition new_registry :: auth_registry where
  "new_registry = \<lparr>ar_last = Map.empty\<rparr>"

definition last_nonce_of :: "auth_registry \<Rightarrow> string \<Rightarrow> u64" where
  "last_nonce_of r peer = (case ar_last r peer of None \<Rightarrow> 0 | Some n \<Rightarrow> n)"

definition auth_verify ::
  "sig_scheme \<Rightarrow> digest \<Rightarrow> auth_registry \<Rightarrow> challenge \<times> challenge_response \<times> bytes \<Rightarrow>
   auth_registry \<times> (auth_error + unit)" where
  "auth_verify G D r msg =
     (case msg of (c, resp, public) \<Rightarrow>
        if cr_to resp \<noteq> ch_from c \<or> cr_from resp \<noteq> ch_to c
        then (r, Inl (Wrong_Peer (ch_to c) (cr_from resp)))
        else
          let last = last_nonce_of r (cr_from resp) in
          if cr_nonce resp \<le> last then (r, Inl (Auth_Replay (cr_nonce resp) last))
          else if length (cr_signature resp) \<noteq> 64 then (r, Inl Auth_Bad_Signature)
          else if \<not> verify_signature G public (challenge_payload D c) (cr_signature resp)
          then (r, Inl Auth_Bad_Signature)
          else (r\<lparr>ar_last := (ar_last r)(cr_from resp \<mapsto> cr_nonce resp)\<rparr>, Inr ()))"

definition session_id :: "digest \<Rightarrow> string \<Rightarrow> string \<Rightarrow> u64 \<Rightarrow> string" where
  "session_id D a b nonce = hex (D (as_bytes (a @ ''|'' @ b @ ''|'' @ show_word nonce)))"

interpretation auth: replay_guard "auth_verify G D" "\<lambda>(c, r, k). cr_from r" "\<lambda>(c, r, k). cr_nonce r"
  last_nonce_of for G D
  by unfold_locales
    (auto simp: auth_verify_def last_nonce_of_def Let_def not_le fun_eq_iff
      split: prod.splits if_splits option.splits)

section \<open>Sessions\<close>

datatype session_error = Sess_Replay u64 u64 | Wrong_Session string string | Sess_Bad_Signature

record envelope =
  en_session :: string
  en_seq :: u64
  en_from :: string
  en_payload :: bytes

record signed_envelope =
  se_envelope :: envelope
  se_signature :: bytes

record secure_session =
  ss_id :: string
  ss_local :: string
  ss_remote :: string
  ss_remote_public :: bytes
  ss_next_local :: u64
  ss_last_remote :: u64

text \<open>\<open>u64::to_be_bytes\<close>, most significant byte first.\<close>

definition be_bytes64 :: "u64 \<Rightarrow> bytes" where
  "be_bytes64 w = map (\<lambda>i. of_nat (unat w div 2 ^ (8 * (7 - i)))) [0..<8]"

definition bar :: u8 where
  "bar = 124"

definition envelope_input :: "envelope \<Rightarrow> bytes" where
  "envelope_input e =
     as_bytes (en_session e) @ [bar] @ be_bytes64 (en_seq e) @ [bar] @ as_bytes (en_from e) @ [bar] @
     en_payload e"

definition envelope_bytes :: "digest \<Rightarrow> envelope \<Rightarrow> bytes" where
  "envelope_bytes D e = D (envelope_input e)"

definition new_session :: "string \<Rightarrow> string \<Rightarrow> string \<Rightarrow> bytes \<Rightarrow> secure_session" where
  "new_session sid local remote remote_public =
     \<lparr>ss_id = sid, ss_local = local, ss_remote = remote, ss_remote_public = remote_public,
      ss_next_local = 1, ss_last_remote = 0\<rparr>"

definition session_send ::
  "profile \<Rightarrow> sig_scheme \<Rightarrow> digest \<Rightarrow> secure_session \<Rightarrow> keypair \<Rightarrow> bytes \<Rightarrow>
   (secure_session \<times> signed_envelope) option" where
  "session_send p G D s k payload = (
     let env = \<lparr>en_session = ss_id s, en_seq = ss_next_local s, en_from = ss_local s,
                en_payload = payload\<rparr>
     in do {
       n \<leftarrow> add_ov p (ss_next_local s) 1;
       Some (s\<lparr>ss_next_local := n\<rparr>,
         \<lparr>se_envelope = env, se_signature = kp_sign G k (envelope_bytes D env)\<rparr>)
     })"

definition session_receive ::
  "sig_scheme \<Rightarrow> digest \<Rightarrow> secure_session \<Rightarrow> signed_envelope \<Rightarrow>
   secure_session \<times> (session_error + bytes)" where
  "session_receive G D s sg =
     (let e = se_envelope sg in
      if en_session e \<noteq> ss_id s then (s, Inl (Wrong_Session (ss_id s) (en_session e)))
      else if en_seq e \<le> ss_last_remote s then (s, Inl (Sess_Replay (en_seq e) (ss_last_remote s)))
      else if length (se_signature sg) \<noteq> 64 then (s, Inl Sess_Bad_Signature)
      else if \<not> verify_signature G (ss_remote_public s) (envelope_bytes D e) (se_signature sg)
      then (s, Inl Sess_Bad_Signature)
      else (s\<lparr>ss_last_remote := en_seq e\<rparr>, Inr (en_payload e)))"

interpretation sess: replay_guard "session_receive G D" "\<lambda>_. ()" "\<lambda>m. en_seq (se_envelope m)"
  "\<lambda>s _. ss_last_remote s" for G D
  by unfold_locales
    (auto simp: session_receive_def Let_def not_le fun_eq_iff split: if_splits)

section \<open>Lemmas\<close>

fun send_all ::
  "profile \<Rightarrow> sig_scheme \<Rightarrow> digest \<Rightarrow> secure_session \<Rightarrow> keypair \<Rightarrow> bytes list \<Rightarrow>
   (secure_session \<times> signed_envelope list) option" where
  "send_all p G D s k [] = Some (s, [])"
| "send_all p G D s k (x # xs) = do {
     (s', m) \<leftarrow> session_send p G D s k x;
     (s'', ms) \<leftarrow> send_all p G D s' k xs;
     Some (s'', m # ms)
   }"

lemma as_bytes_simps [simp]: "as_bytes [] = []" "as_bytes (s @ t) = as_bytes s @ as_bytes t"
  "as_bytes (c # s) = of_char c # as_bytes s"
  by (simp_all add: as_bytes_def)

definition honest :: "sig_scheme \<Rightarrow> digest \<Rightarrow> keypair \<Rightarrow> string \<Rightarrow> signed_envelope \<Rightarrow> bool" where
  "honest G D k sid m \<longleftrightarrow>
     en_session (se_envelope m) = sid \<and>
     se_signature m = kp_sign G k (envelope_bytes D (se_envelope m))"

lemma send_all_honest:
  "ss_next_local s = of_nat n \<Longrightarrow> n + length xs < 2 ^ 64 \<Longrightarrow>
   \<exists>s' ms. send_all p G D s k xs = Some (s', ms) \<and>
     map (\<lambda>m. en_payload (se_envelope m)) ms = xs \<and>
     (\<forall>m \<in> set ms. honest G D k (ss_id s) m) \<and>
     map (\<lambda>m. en_seq (se_envelope m)) ms = map of_nat [n ..< n + length xs]"
proof (induction xs arbitrary: s n)
  case (Cons x xs)
  let ?e = "\<lparr>en_session = ss_id s, en_seq = of_nat n, en_from = ss_local s, en_payload = x\<rparr>"
  let ?m = "\<lparr>se_envelope = ?e, se_signature = kp_sign G k (envelope_bytes D ?e)\<rparr>"
  let ?s = "s\<lparr>ss_next_local := of_nat (Suc n)\<rparr>"
  have "add_ov p (of_nat n :: u64) 1 = Some (of_nat (Suc n))"
    using Cons.prems(2) by (intro add_ov_count) simp
  then have one: "session_send p G D s k x = Some (?s, ?m)"
    using Cons.prems(1) by (simp add: session_send_def Let_def del: of_nat_Suc)
  obtain s' ms where rest: "send_all p G D ?s k xs = Some (s', ms)"
    "map (\<lambda>m. en_payload (se_envelope m)) ms = xs" "\<forall>m \<in> set ms. honest G D k (ss_id s) m"
    "map (\<lambda>m. en_seq (se_envelope m)) ms = map of_nat [Suc n ..< Suc n + length xs]"
    using Cons.IH [of ?s "Suc n"] Cons.prems(2) by auto
  have "[n ..< n + length (x # xs)] = n # [Suc n ..< Suc n + length xs]"
    using upt_conv_Cons [of n "Suc (n + length xs)"] by simp
  with one rest show ?case by (auto simp: honest_def simp del: of_nat_Suc upt_Suc)
qed simp

lemma receive_honest:
  assumes "sg_ok G" "length (kp_seed k) = 32" "honest G D k (ss_id s) m"
    and "ss_remote_public s = public_bytes G k" "ss_last_remote s < en_seq (se_envelope m)"
  shows "session_receive G D s m =
    (s\<lparr>ss_last_remote := en_seq (se_envelope m)\<rparr>, Inr (en_payload (se_envelope m)))"
  using assms
  by (auto simp: session_receive_def Let_def honest_def sg_ok_def kp_sign_def public_bytes_def
      verify_signature_def)

lemma receive_all_honest:
  assumes "sg_ok G" "length (kp_seed k) = 32" "ss_remote_public s = public_bytes G k"
    and "\<forall>m \<in> set ms. honest G D k (ss_id s) m"
    and "sorted_wrt (<) (map (\<lambda>m. en_seq (se_envelope m)) ms)"
    and "\<forall>m \<in> set ms. ss_last_remote s < en_seq (se_envelope m)"
  shows "outcomes (session_receive G D) s ms = map (\<lambda>m. Inr (en_payload (se_envelope m))) ms"
  using assms(3-)
proof (induction ms arbitrary: s)
  case (Cons m ms)
  then show ?case using receive_honest [OF assms(1,2), of D s m] by simp
qed simp

lemma set_mono_subseq: "subseq xs ys \<Longrightarrow> set xs \<subseteq> set ys"
  by (auto dest: list_emb_set)

lemma sorted_wrt_of_subseq: "subseq xs ys \<Longrightarrow> sorted_wrt P ys \<Longrightarrow> sorted_wrt P xs"
  by (induction rule: list_emb.induct) (auto dest: set_mono_subseq)

lemma sorted_seqs: "n + k < 2 ^ 64 \<Longrightarrow> sorted_wrt (<) (map (of_nat :: nat \<Rightarrow> u64) [n ..< n + k])"
proof -
  assume "n + k < 2 ^ 64"
  then have "(of_nat i :: u64) < of_nat j" if "i < j" "j < n + k" for i j
    using that by (simp add: word_less_nat_alt unat_of_nat)
  then show ?thesis by (auto simp: sorted_wrt_iff_nth_less simp del: of_nat_add)
qed

lemma session_receive_keeps:
  "ss_id (fst (session_receive G D s m)) = ss_id s \<and>
   ss_remote_public (fst (session_receive G D s m)) = ss_remote_public s"
  by (auto simp: session_receive_def Let_def)

lemma session_receive_ok:
  "session_receive G D s m = (s', Inr v) \<Longrightarrow>
   en_session (se_envelope m) = ss_id s \<and> v = en_payload (se_envelope m) \<and>
   verify_signature G (ss_remote_public s) (envelope_bytes D (se_envelope m)) (se_signature m)"
  by (auto simp: session_receive_def Let_def split: if_splits)

lemma session_accepted_verified:
  assumes "m \<in> set (accepted (session_receive G D) s ms)"
  shows "en_session (se_envelope m) = ss_id s \<and>
    verify_signature G (ss_remote_public s) (envelope_bytes D (se_envelope m)) (se_signature m)"
  by (rule accepted_invariant [where P = "\<lambda>t. ss_id t = ss_id s \<and> ss_remote_public t = ss_remote_public s",
        OF _ _ _ assms])
    (use session_receive_keeps [of G D] session_receive_ok [of G D] in \<open>fastforce+\<close>)

section \<open>A signature scheme for the examples\<close>

definition demo_sig :: sig_scheme where
  "demo_sig =
     (let sign = \<lambda>seed msg. take 64 (seed @ msg @ replicate 64 0) in
      \<lparr>sg_public = \<lambda>seed. seed, sg_sign = sign, sg_verify = \<lambda>k msg sig. sig = sign k msg\<rparr>)"

lemma demo_sig_ok: "sg_ok demo_sig"
proof -
  have "length (take 64 (seed @ msg @ replicate 64 (0 :: u8))) = 64" for seed msg by simp
  then show ?thesis by (simp only: sg_ok_def demo_sig_def Let_def sig_scheme.simps) blast
qed

definition demo_key :: keypair where
  "demo_key = \<lparr>kp_seed = replicate 32 7\<rparr>"

lemma length_demo_key [simp]: "length (kp_seed demo_key) = 32"
  by (simp add: demo_key_def)

section \<open>Properties\<close>

text \<open>
  Delivery. Sending any messages over a session succeeds, and the peer that holds the matching
  session accepts every subsequence of them in order, returning each payload unchanged: lost
  messages do not block later ones.
\<close>

theorem session_delivers:
  assumes "sg_ok G" "length (kp_seed k) = 32" "Suc (length xs) < 2 ^ 64"
  shows "\<exists>s' sent. send_all p G D (new_session sid a b kb) k xs = Some (s', sent) \<and>
    map (\<lambda>m. en_payload (se_envelope m)) sent = xs \<and>
    (\<forall>ms. subseq ms sent \<longrightarrow>
       outcomes (session_receive G D) (new_session sid b a (public_bytes G k)) ms =
         map (\<lambda>m. Inr (en_payload (se_envelope m))) ms)"
proof -
  let ?s = "new_session sid a b kb" and ?r = "new_session sid b a (public_bytes G k)"
  obtain s' sent where sent: "send_all p G D ?s k xs = Some (s', sent)"
    "map (\<lambda>m. en_payload (se_envelope m)) sent = xs" "\<forall>m \<in> set sent. honest G D k sid m"
    "map (\<lambda>m. en_seq (se_envelope m)) sent = map of_nat [1 ..< 1 + length xs]"
    using send_all_honest [of ?s 1 xs p G D k] assms(3) by (auto simp: new_session_def)
  have "outcomes (session_receive G D) ?r ms = map (\<lambda>m. Inr (en_payload (se_envelope m))) ms"
    if "subseq ms sent" for ms
  proof (rule receive_all_honest [OF assms(1,2)])
    have sub: "subseq (map (\<lambda>m. en_seq (se_envelope m)) ms) (map of_nat [1 ..< 1 + length xs])"
      unfolding sent(4) [symmetric] using that by (rule subseq_map)
    then show "sorted_wrt (<) (map (\<lambda>m. en_seq (se_envelope m)) ms)"
      using sorted_seqs [of 1 "length xs"] assms(3) by (auto intro: sorted_wrt_of_subseq)
    have "\<forall>q \<in> set (map of_nat [1 ..< 1 + length xs]). (0 :: u64) < q"
      using assms(3) by (auto simp: word_less_nat_alt unat_of_nat)
    then have "\<forall>q \<in> set (map (\<lambda>m. en_seq (se_envelope m)) ms). 0 < q"
      using sub by (meson set_mono_subseq subsetD)
    then show "\<forall>m \<in> set ms. ss_last_remote ?r < en_seq (se_envelope m)"
      by (simp add: new_session_def)
    show "\<forall>m \<in> set ms. honest G D k (ss_id ?r) m"
      using sent(3) that by (auto simp: new_session_def dest: set_mono_subseq)
  qed (simp add: new_session_def)
  with sent(1,2) show ?thesis by blast
qed

lemma session_delivers_witness:
  "\<exists>s' sent. send_all Checked demo_sig demo_digest (new_session ''s'' ''a'' ''b'' []) demo_key [[1], [2]] =
      Some (s', sent) \<and>
    outcomes (session_receive demo_sig demo_digest)
      (new_session ''s'' ''b'' ''a'' (public_bytes demo_sig demo_key)) sent = [Inr [1], Inr [2]]"
proof -
  have "Suc (length [[1 :: u8], [2]]) < 2 ^ 64" by simp
  from session_delivers [OF demo_sig_ok length_demo_key this, of Checked demo_digest "''s''" "''a''" "''b''" "[]"]
  obtain s' sent where sent:
    "send_all Checked demo_sig demo_digest (new_session ''s'' ''a'' ''b'' []) demo_key [[1], [2]] = Some (s', sent)"
    "map (\<lambda>m. en_payload (se_envelope m)) sent = [[1], [2]]"
    "\<forall>ms. subseq ms sent \<longrightarrow> outcomes (session_receive demo_sig demo_digest)
      (new_session ''s'' ''b'' ''a'' (public_bytes demo_sig demo_key)) ms =
      map (\<lambda>m. Inr (en_payload (se_envelope m))) ms"
    by (elim exE conjE)
  note sent(3) [rule_format, OF subseq_order.order_refl]
  moreover have "map (\<lambda>m. Inr (en_payload (se_envelope m))) sent =
      map Inr (map (\<lambda>m. en_payload (se_envelope m)) sent)" by simp
  ultimately have "outcomes (session_receive demo_sig demo_digest)
      (new_session ''s'' ''b'' ''a'' (public_bytes demo_sig demo_key)) sent = [Inr [1], Inr [2]]"
    unfolding sent(2) by simp
  with sent(1) show ?thesis by blast
qed

text \<open>
  C23: Replay protection. Whatever a session is fed, the envelopes it accepts carry strictly
  increasing sequence numbers, all of them belong to the session and verify under the peer's key,
  and an accepted envelope is refused ever after.
\<close>

theorem session_accepts_once:
  "let acc = accepted (session_receive G D) s ms; s' = final (session_receive G D) s ms
   in sorted_wrt (<) (map (\<lambda>m. en_seq (se_envelope m)) acc) \<and>
      list_all (\<lambda>m. en_session (se_envelope m) = ss_id s \<and>
        verify_signature G (ss_remote_public s) (envelope_bytes D (se_envelope m)) (se_signature m) \<and>
        \<not> is_ok (snd (session_receive G D s' m))) acc"
proof -
  let ?acc = "accepted (session_receive G D) s ms"
  have "sorted_wrt (<) (map (\<lambda>m. en_seq (se_envelope m)) ?acc)"
    using sess.increasing [of "()" G D s ms] by simp
  moreover have "en_session (se_envelope m) = ss_id s \<and>
      verify_signature G (ss_remote_public s) (envelope_bytes D (se_envelope m)) (se_signature m)"
    if "m \<in> set ?acc" for m
    by (rule session_accepted_verified [OF that])
  ultimately show ?thesis
    using sess.replay_refused [of _ G D s ms] by (simp add: Let_def list_all_iff)
qed

text \<open>
  The signature does not fix where the sender's name ends. The signed bytes join the fields
  with bars and the receiver does not check the sender field, so whoever relays an envelope can
  move the part of the payload before a bar into the sender field: the session then accepts a
  payload that was never sent.
\<close>

theorem session_payload_malleable:
  assumes "session_receive G D s \<lparr>se_envelope = e, se_signature = sg\<rparr> =
      (s', Inr (as_bytes x @ [bar] @ rest))"
  shows "session_receive G D s
      \<lparr>se_envelope = e\<lparr>en_from := en_from e @ ''|'' @ x, en_payload := rest\<rparr>, se_signature = sg\<rparr> =
    (s', Inr rest)"
proof -
  have "en_payload e = as_bytes x @ [bar] @ rest"
    using session_receive_ok [OF assms] by simp
  then have "envelope_bytes D (e\<lparr>en_from := en_from e @ ''|'' @ x, en_payload := rest\<rparr>) = envelope_bytes D e"
    by (simp add: envelope_bytes_def envelope_input_def bar_def)
  then show ?thesis using assms by (auto simp: session_receive_def Let_def split: if_splits)
qed

definition demo_envelope :: envelope where
  "demo_envelope = \<lparr>en_session = ''s'', en_seq = 1, en_from = ''a'', en_payload = [1, 124, 2]\<rparr>"

lemma session_payload_malleable_witness:
  "session_receive demo_sig demo_digest (new_session ''s'' ''b'' ''a'' (public_bytes demo_sig demo_key))
     \<lparr>se_envelope = demo_envelope\<lparr>en_from := ''a'' @ ''|'' @ [CHR 0x01], en_payload := [2]\<rparr>,
      se_signature = kp_sign demo_sig demo_key (envelope_bytes demo_digest demo_envelope)\<rparr> =
   (new_session ''s'' ''b'' ''a'' (public_bytes demo_sig demo_key)\<lparr>ss_last_remote := 1\<rparr>, Inr [2])"
proof -
  let ?s = "new_session ''s'' ''b'' ''a'' (public_bytes demo_sig demo_key)"
  let ?m = "\<lparr>se_envelope = demo_envelope,
      se_signature = kp_sign demo_sig demo_key (envelope_bytes demo_digest demo_envelope)\<rparr>"
  have "session_receive demo_sig demo_digest ?s ?m =
      (?s\<lparr>ss_last_remote := 1\<rparr>, Inr (as_bytes [CHR 0x01] @ [bar] @ [2]))"
    using receive_honest [OF demo_sig_ok length_demo_key, of demo_digest ?s ?m]
    by (simp add: honest_def new_session_def) (simp add: demo_envelope_def bar_def)
  from session_payload_malleable [OF this] show ?thesis by (simp add: demo_envelope_def)
qed

text \<open>
  C24: Mutual authentication. The response of the challenged peer is accepted when the nonce is
  newer than the last one accepted from it; whatever responses arrive, the accepted nonces of each
  peer strictly increase and each accepted response carries a valid signature of its challenge.
\<close>

theorem auth_handshake:
  assumes "sg_ok G" "length (kp_seed k) = 32"
    and "last_nonce_of (final (auth_verify G D) r ms) (ch_to c) < ch_nonce c"
  shows "is_ok (snd (auth_verify G D (final (auth_verify G D) r ms)
      (c, respond G D c k, public_bytes G k))) \<and>
    sorted_wrt (<) (map (\<lambda>(c, resp, pk). cr_nonce resp)
      (filter (\<lambda>(c, resp, pk). cr_from resp = peer) (accepted (auth_verify G D) r ms))) \<and>
    (\<forall>(c, resp, pk) \<in> set (accepted (auth_verify G D) r ms).
       cr_from resp = ch_to c \<and> cr_to resp = ch_from c \<and>
       verify_signature G pk (challenge_payload D c) (cr_signature resp))"
proof (intro conjI)
  show "is_ok (snd (auth_verify G D (final (auth_verify G D) r ms) (c, respond G D c k, public_bytes G k)))"
    using assms by (simp add: auth_verify_def respond_def Let_def sg_ok_def kp_sign_def public_bytes_def
        verify_signature_def)
  show "sorted_wrt (<) (map (\<lambda>(c, resp, pk). cr_nonce resp)
      (filter (\<lambda>(c, resp, pk). cr_from resp = peer) (accepted (auth_verify G D) r ms)))"
    using auth.increasing [of peer G D r ms] by (simp add: case_prod_unfold)
  have "case m of (c, resp, pk) \<Rightarrow> cr_from resp = ch_to c \<and> cr_to resp = ch_from c \<and>
      verify_signature G pk (challenge_payload D c) (cr_signature resp)"
    if "m \<in> set (accepted (auth_verify G D) r ms)" for m
    by (rule accepted_invariant [where P = "\<lambda>_. True", OF _ _ _ that])
      (auto simp: auth_verify_def Let_def split: prod.splits if_splits)
  then show "\<forall>(c, resp, pk) \<in> set (accepted (auth_verify G D) r ms).
      cr_from resp = ch_to c \<and> cr_to resp = ch_from c \<and>
      verify_signature G pk (challenge_payload D c) (cr_signature resp)" by blast
qed

definition demo_challenge :: challenge where
  "demo_challenge = \<lparr>ch_from = ''a'', ch_to = ''b'', ch_nonce = 1\<rparr>"

lemma auth_handshake_witness:
  "is_ok (snd (auth_verify demo_sig demo_digest (final (auth_verify demo_sig demo_digest) new_registry [])
     (demo_challenge, respond demo_sig demo_digest demo_challenge demo_key, public_bytes demo_sig demo_key)))"
proof -
  have "last_nonce_of (final (auth_verify demo_sig demo_digest) new_registry []) (ch_to demo_challenge) <
      ch_nonce demo_challenge"
    by (simp add: new_registry_def last_nonce_of_def demo_challenge_def)
  from auth_handshake [OF demo_sig_ok length_demo_key this] show ?thesis by blast
qed

text \<open>
  The nonce of a response is not signed, only that of the challenge. Whoever relays a valid
  response can raise its nonce to the maximum; it is still accepted, and from then on every
  response of that peer is refused as a replay.
\<close>

theorem auth_nonce_lockout:
  assumes "auth_verify G D r (c, resp, pk) = (r', Inr ())"
  shows "is_ok (snd (auth_verify G D r (c, resp\<lparr>cr_nonce := - 1\<rparr>, pk))) \<and>
    snd (auth_verify G D (fst (auth_verify G D r (c, resp\<lparr>cr_nonce := - 1\<rparr>, pk)))
      (c2\<lparr>ch_to := cr_from resp\<rparr>, respond G D (c2\<lparr>ch_to := cr_from resp\<rparr>) k, pk2)) =
    Inl (Auth_Replay (ch_nonce c2) (- 1))"
proof -
  have ok: "\<not> (cr_to resp \<noteq> ch_from c \<or> cr_from resp \<noteq> ch_to c)"
    "last_nonce_of r (cr_from resp) < cr_nonce resp" "length (cr_signature resp) = 64"
    "verify_signature G pk (challenge_payload D c) (cr_signature resp)"
    using assms by (auto simp: auth_verify_def Let_def not_le split: if_splits)
  then have "last_nonce_of r (cr_from resp) < - 1"
    by (metis less_le_trans word_order.extremum)
  with ok have acc: "auth_verify G D r (c, resp\<lparr>cr_nonce := - 1\<rparr>, pk) =
      (r\<lparr>ar_last := (ar_last r)(cr_from resp \<mapsto> - 1)\<rparr>, Inr ())"
    by (simp add: auth_verify_def Let_def not_le)
  then show ?thesis
    by (auto simp: auth_verify_def Let_def last_nonce_of_def respond_def)
qed

lemma auth_nonce_lockout_witness:
  "snd (auth_verify demo_sig demo_digest
     (fst (auth_verify demo_sig demo_digest new_registry
        (demo_challenge, (respond demo_sig demo_digest demo_challenge demo_key)\<lparr>cr_nonce := - 1\<rparr>,
         public_bytes demo_sig demo_key)))
     (demo_challenge\<lparr>ch_nonce := 2\<rparr>,
      respond demo_sig demo_digest (demo_challenge\<lparr>ch_nonce := 2\<rparr>) demo_key,
      public_bytes demo_sig demo_key)) = Inl (Auth_Replay 2 (- 1))"
proof -
  have "auth_verify demo_sig demo_digest new_registry
      (demo_challenge, respond demo_sig demo_digest demo_challenge demo_key, public_bytes demo_sig demo_key) =
    (new_registry\<lparr>ar_last := [''b'' \<mapsto> 1]\<rparr>, Inr ())"
    using demo_sig_ok
    by (simp add: auth_verify_def respond_def Let_def sg_ok_def kp_sign_def public_bytes_def
        verify_signature_def new_registry_def last_nonce_of_def) (simp add: demo_challenge_def)
  from auth_nonce_lockout [OF this, of "demo_challenge\<lparr>ch_nonce := 2\<rparr>" demo_key]
  show ?thesis by (simp add: respond_def demo_challenge_def)
qed

end
