(* ===== verification/Peers.thy ===== *)
theory Peers imports BTree_Map "HOL-Library.Multiset" begin

text \<open>
  \<open>kai-os/network/src/peer.rs\<close> (peer store), \<open>discovery.rs\<close> and \<open>upgrade.rs\<close>. The store is a
  \<open>HashMap\<close>, whose iteration order is not specified: \<open>ord\<close> stands for it, and is only assumed to
  permute the values.
\<close>

section \<open>The peer store\<close>

record peer_info =
  pi_id :: string
  pi_addr :: string
  pi_caps :: "string list"
  pi_last_seen :: u64

record peer_store =
  ps_peers :: "(string, peer_info) bmap"

type_synonym hash_order = "peer_info list \<Rightarrow> peer_info list"

definition hash_order :: "hash_order \<Rightarrow> bool" where
  "hash_order ord \<longleftrightarrow> (\<forall>xs. mset (ord xs) = mset xs)"

definition new_peer_store :: peer_store where
  "new_peer_store = \<lparr>ps_peers = bm_empty\<rparr>"

definition upsert :: "peer_store \<Rightarrow> peer_info \<Rightarrow> peer_store" where
  "upsert s info = s\<lparr>ps_peers := bm_insert (pi_id info) info (ps_peers s)\<rparr>"

definition peer_get :: "peer_store \<Rightarrow> string \<Rightarrow> peer_info option" where
  "peer_get s peer = bm_get (ps_peers s) peer"

definition peer_remove :: "peer_store \<Rightarrow> string \<Rightarrow> peer_store \<times> bool" where
  "peer_remove s peer =
     (s\<lparr>ps_peers := bm_remove peer (ps_peers s)\<rparr>, bm_get (ps_peers s) peer \<noteq> None)"

definition peer_len :: "peer_store \<Rightarrow> nat" where
  "peer_len s = bm_len (ps_peers s)"

definition peer_is_empty :: "peer_store \<Rightarrow> bool" where
  "peer_is_empty s = (bm_len (ps_peers s) = 0)"

definition peer_values :: "hash_order \<Rightarrow> peer_store \<Rightarrow> peer_info list" where
  "peer_values ord s = ord (bm_values (ps_peers s))"

text \<open>\<open>sort_by\<close> is a stable sort.\<close>

definition peer_all :: "hash_order \<Rightarrow> peer_store \<Rightarrow> peer_info list" where
  "peer_all ord s = sort_key pi_id (peer_values ord s)"

definition evict_stale :: "hash_order \<Rightarrow> peer_store \<Rightarrow> u64 \<Rightarrow> u64 \<Rightarrow> peer_store \<times> string list" where
  "evict_stale ord s now max_age =
     (let stale = map pi_id (filter (\<lambda>p. max_age < saturating_sub now (pi_last_seen p)) (peer_values ord s))
      in (s\<lparr>ps_peers := foldl (\<lambda>m i. bm_remove i m) (ps_peers s) stale\<rparr>, stale))"

section \<open>Discovery\<close>

datatype discovery_message =
    Announce peer_info
  | Ping string u64
  | Pong string u64
  | Peer_List string "peer_info list"

record discovery =
  self_peer_id :: string
  disc_store :: peer_store

definition new_discovery :: "string \<Rightarrow> discovery" where
  "new_discovery me = \<lparr>self_peer_id = me, disc_store = new_peer_store\<rparr>"

fun disc_handle ::
  "discovery \<Rightarrow> discovery_message \<Rightarrow> u64 \<Rightarrow> discovery \<times> discovery_message option" where
  "disc_handle d (Announce info) now =
     (d\<lparr>disc_store := upsert (disc_store d) (info\<lparr>pi_last_seen := now\<rparr>)\<rparr>, None)"
| "disc_handle d (Ping sender tick) now = (d, Some (Pong (self_peer_id d) tick))"
| "disc_handle d (Pong sender tick) now = (d, None)"
| "disc_handle d (Peer_List sender peers) now =
     (d\<lparr>disc_store := foldl (\<lambda>s p. upsert s (p\<lparr>pi_last_seen := now\<rparr>)) (disc_store d) peers\<rparr>, None)"

definition disc_peer_list :: "hash_order \<Rightarrow> discovery \<Rightarrow> peer_info list" where
  "disc_peer_list ord d = peer_all ord (disc_store d)"

text \<open>The messages a node receives over time, and the store they leave.\<close>

definition disc_run :: "discovery \<Rightarrow> (discovery_message \<times> u64) list \<Rightarrow> discovery" where
  "disc_run d ms = foldl (\<lambda>d (m, now). fst (disc_handle d m now)) d ms"

section \<open>Version negotiation\<close>

definition PROTOCOL_VERSION :: u32 where "PROTOCOL_VERSION = 2"
definition MIN_COMPATIBLE :: u32 where "MIN_COMPATIBLE = 1"

record protocol_support =
  sup_current :: u32
  sup_min :: u32

definition ours_support :: protocol_support where
  "ours_support = \<lparr>sup_current = PROTOCOL_VERSION, sup_min = MIN_COMPATIBLE\<rparr>"

datatype upgrade_error =
    Malformed_Support u32 u32
  | Incompatible "u32 \<times> u32" "u32 \<times> u32" string
  | Unknown_Envelope_Version u32 u32
  | Envelope_Too_Old u32 u32

definition sup_validate :: "protocol_support \<Rightarrow> upgrade_error + unit" where
  "sup_validate s =
     (if sup_current s < sup_min s then Inl (Malformed_Support (sup_current s) (sup_min s)) else Inr ())"

record hello =
  he_support :: protocol_support
  he_root :: string

definition negotiate :: "hello \<Rightarrow> hello \<Rightarrow> upgrade_error + u32" where
  "negotiate a b =
     (case sup_validate (he_support a) of
        Inl e \<Rightarrow> Inl e
      | Inr _ \<Rightarrow>
          (case sup_validate (he_support b) of
             Inl e \<Rightarrow> Inl e
           | Inr _ \<Rightarrow>
               let shared = min (sup_current (he_support a)) (sup_current (he_support b));
                   required = max (sup_min (he_support a)) (sup_min (he_support b))
               in if shared < required
                  then Inl (Incompatible (sup_current (he_support a), sup_min (he_support a))
                              (sup_current (he_support b), sup_min (he_support b)) (he_root b))
                  else Inr shared))"

record versioned_envelope =
  ve_version :: u32
  ve_payload :: bytes

definition ve_encode :: "u32 \<Rightarrow> bytes \<Rightarrow> versioned_envelope" where
  "ve_encode v payload = \<lparr>ve_version = v, ve_payload = payload\<rparr>"

definition decode_checked :: "versioned_envelope \<Rightarrow> protocol_support \<Rightarrow> upgrade_error + bytes" where
  "decode_checked e s =
     (case sup_validate s of
        Inl err \<Rightarrow> Inl err
      | Inr _ \<Rightarrow>
          if sup_current s < ve_version e then Inl (Unknown_Envelope_Version (ve_version e) (sup_current s))
          else if ve_version e < sup_min s then Inl (Envelope_Too_Old (ve_version e) (sup_min s))
          else Inr (ve_payload e))"

text \<open>The wire form is JSON: printing and parsing are parameters.\<close>

definition ve_to_wire :: "(versioned_envelope \<Rightarrow> bytes option) \<Rightarrow> versioned_envelope \<Rightarrow> bytes" where
  "ve_to_wire print e = (case print e of None \<Rightarrow> [] | Some b \<Rightarrow> b)"

definition ve_from_wire ::
  "(bytes \<Rightarrow> versioned_envelope option) \<Rightarrow> bytes \<Rightarrow> upgrade_error + versioned_envelope" where
  "ve_from_wire parse b =
     (case parse b of None \<Rightarrow> Inl (Unknown_Envelope_Version 0 PROTOCOL_VERSION) | Some e \<Rightarrow> Inr e)"

section \<open>Lemmas\<close>

text \<open>Every peer is stored under its own id.\<close>

definition own_keys :: "peer_store \<Rightarrow> bool" where
  "own_keys s \<longleftrightarrow> (\<forall>(k, v) \<in> set (bm_entries (ps_peers s)). pi_id v = k)"

lemma own_keys_iff: "own_keys s \<longleftrightarrow> (\<forall>k v. peer_get s k = Some v \<longrightarrow> pi_id v = k)"
  by (auto simp: own_keys_def peer_get_def bm_get_iff)

lemma own_keys_new [simp]: "own_keys new_peer_store"
  by (simp add: own_keys_iff peer_get_def new_peer_store_def)

lemma peer_get_upsert: "peer_get (upsert s i) k = (if k = pi_id i then Some i else peer_get s k)"
  by (simp add: peer_get_def upsert_def)

lemma own_keys_upsert [simp]: "own_keys s \<Longrightarrow> own_keys (upsert s i)"
  by (auto simp: own_keys_iff peer_get_upsert split: if_splits)

lemma own_keys_handle: "own_keys (disc_store d) \<Longrightarrow> own_keys (disc_store (fst (disc_handle d m now)))"
proof (cases m)
  case (Peer_List q ps)
  have "own_keys s \<Longrightarrow> own_keys (foldl (\<lambda>s p. upsert s (p\<lparr>pi_last_seen := now\<rparr>)) s ps)" for s
    by (induction ps arbitrary: s) simp_all
  then show "own_keys (disc_store d) \<Longrightarrow> ?thesis" using Peer_List by simp
qed simp_all

lemma own_keys_run: "own_keys (disc_store d) \<Longrightarrow> own_keys (disc_store (disc_run d ms))"
  unfolding disc_run_def by (induction ms arbitrary: d) (auto simp: own_keys_handle)

lemma sorted_values: "own_keys s \<Longrightarrow> map pi_id (bm_values (ps_peers s)) = bm_keys (ps_peers s)"
  by (auto simp: own_keys_def bm_values_def bm_keys_def)

lemma peer_all_sorted:
  assumes "hash_order ord" "own_keys s"
  shows "peer_all ord s = bm_values (ps_peers s)"
proof -
  let ?vs = "bm_values (ps_peers s)"
  have keys: "map pi_id ?vs = bm_keys (ps_peers s)" using assms(2) by (rule sorted_values)
  have "sorted (map pi_id ?vs)" unfolding keys using ascending_bm_keys strict_sorted_imp_sorted by blast
  moreover have "distinct (map pi_id ?vs)" unfolding keys by (rule distinct_bm_keys)
  moreover have "mset (ord ?vs) = mset ?vs" using assms(1) by (simp add: hash_order_def)
  ultimately show ?thesis
    unfolding peer_all_def peer_values_def
    by (intro sort_key_inj_key_eq) (auto simp: distinct_map dest: mset_eq_setD)
qed

lemma bm_get_remove_many: "bm_get (foldl (\<lambda>m i. bm_remove i m) m is) k = (if k \<in> set is then None else bm_get m k)"
  by (induction "is" arbitrary: m) auto

lemma peer_values_iff: "p \<in> set (bm_values (ps_peers s)) \<longleftrightarrow> (\<exists>j. peer_get s j = Some p)"
proof -
  have "p \<in> snd ` A \<longleftrightarrow> (\<exists>j. (j, p) \<in> A)" for A :: "(string \<times> peer_info) set" by force
  then show ?thesis by (simp only: bm_values_def peer_get_def bm_get_iff set_map)
qed

lemma evict_stale_get:
  assumes "hash_order ord" "own_keys s"
  shows "peer_get (fst (evict_stale ord s now age)) k =
    (case peer_get s k of
       Some p \<Rightarrow> if age < saturating_sub now (pi_last_seen p) then None else Some p | None \<Rightarrow> None)"
proof -
  have "set (peer_values ord s) = set (bm_values (ps_peers s))"
    using assms(1) unfolding hash_order_def peer_values_def by (intro mset_eq_setD) (rule spec)
  then have "k \<in> set (snd (evict_stale ord s now age)) \<longleftrightarrow>
      (\<exists>p \<in> set (bm_values (ps_peers s)). age < saturating_sub now (pi_last_seen p) \<and> pi_id p = k)"
    by (auto simp: evict_stale_def Let_def)
  then have "k \<in> set (snd (evict_stale ord s now age)) \<longleftrightarrow>
      (\<exists>p. peer_get s k = Some p \<and> age < saturating_sub now (pi_last_seen p))"
    using assms(2) unfolding own_keys_iff Bex_def peer_values_iff by blast
  moreover have "peer_get (fst (evict_stale ord s now age)) k =
      (if k \<in> set (snd (evict_stale ord s now age)) then None else peer_get s k)"
    by (simp add: evict_stale_def Let_def peer_get_def bm_get_remove_many)
  ultimately show ?thesis by (auto split: option.split)
qed

lemma negotiate_ok_iff:
  "negotiate a b = Inr v \<longleftrightarrow>
     sup_min (he_support a) \<le> sup_current (he_support a) \<and>
     sup_min (he_support b) \<le> sup_current (he_support b) \<and>
     v = min (sup_current (he_support a)) (sup_current (he_support b)) \<and>
     sup_min (he_support a) \<le> v \<and> sup_min (he_support b) \<le> v"
  by (auto simp: negotiate_def sup_validate_def Let_def not_less min_def max_def split: if_splits)

lemma negotiate_comm: "negotiate a b = Inr v \<longleftrightarrow> negotiate b a = Inr v"
  unfolding negotiate_ok_iff by (subst min.commute) blast

section \<open>Properties\<close>

text \<open>
  The peer list is deterministic. After any sequence of discovery messages, from an empty
  store, the list a node sends is sorted by peer id, has every known peer exactly once, and does
  not depend on the iteration order of the hash map.
\<close>

theorem peer_list_deterministic:
  assumes "hash_order ord" "hash_order ord'"
  shows "disc_peer_list ord (disc_run (new_discovery me) ms) =
      disc_peer_list ord' (disc_run (new_discovery me) ms) \<and>
    sorted_wrt (<) (map pi_id (disc_peer_list ord (disc_run (new_discovery me) ms))) \<and>
    set (disc_peer_list ord (disc_run (new_discovery me) ms)) =
      {p. peer_get (disc_store (disc_run (new_discovery me) ms)) (pi_id p) = Some p}"
proof -
  let ?s = "disc_store (disc_run (new_discovery me) ms)"
  have own: "own_keys ?s" by (rule own_keys_run) (simp add: new_discovery_def)
  have all: "disc_peer_list o' (disc_run (new_discovery me) ms) = bm_values (ps_peers ?s)"
    if "hash_order o'" for o'
    using peer_all_sorted [OF that own] by (simp add: disc_peer_list_def)
  have "p \<in> set (bm_values (ps_peers ?s)) \<longleftrightarrow> peer_get ?s (pi_id p) = Some p" for p
    using own unfolding own_keys_iff peer_values_iff by blast
  then show ?thesis
    using all [OF assms(1)] all [OF assms(2)] sorted_values [OF own] by auto
qed

definition demo_peers :: "(discovery_message \<times> u64) list" where
  "demo_peers =
     [(Announce \<lparr>pi_id = ''b'', pi_addr = ''x'', pi_caps = [], pi_last_seen = 0\<rparr>, 1),
      (Peer_List ''b'' [\<lparr>pi_id = ''a'', pi_addr = ''y'', pi_caps = [], pi_last_seen = 9\<rparr>], 2)]"

lemma peer_list_deterministic_witness:
  "disc_peer_list rev (disc_run (new_discovery ''me'') demo_peers) =
     disc_peer_list id (disc_run (new_discovery ''me'') demo_peers)"
  using peer_list_deterministic [of rev id "''me''" demo_peers] by (simp add: hash_order_def)

text \<open>
  Eviction removes exactly the peers not heard of for more than the given number of ticks,
  keeps all others unchanged, and reports the ids it removed; the clock may lie behind the last
  tick seen, in which case nothing is stale.
\<close>

theorem evict_stale_exact:
  assumes "hash_order ord" "own_keys s"
  shows "peer_get (fst (evict_stale ord s now age)) k =
      (case peer_get s k of
         Some p \<Rightarrow> if age < saturating_sub now (pi_last_seen p) then None else Some p | None \<Rightarrow> None) \<and>
    (k \<in> set (snd (evict_stale ord s now age)) \<longleftrightarrow>
       peer_get s k \<noteq> None \<and> peer_get (fst (evict_stale ord s now age)) k = None)"
proof -
  have "peer_get (fst (evict_stale ord s now age)) k =
      (if k \<in> set (snd (evict_stale ord s now age)) then None else peer_get s k)"
    by (simp add: evict_stale_def Let_def peer_get_def bm_get_remove_many)
  moreover have "k \<in> set (snd (evict_stale ord s now age)) \<Longrightarrow> peer_get s k \<noteq> None"
  proof -
    assume "k \<in> set (snd (evict_stale ord s now age))"
    then obtain p where "p \<in> set (peer_values ord s)" "pi_id p = k"
      by (auto simp: evict_stale_def Let_def)
    then have "p \<in> set (bm_values (ps_peers s))"
      using assms(1) mset_eq_setD unfolding hash_order_def peer_values_def by blast
    then obtain j where "peer_get s j = Some p" unfolding peer_values_iff by blast
    with \<open>pi_id p = k\<close> assms(2) show "peer_get s k \<noteq> None" unfolding own_keys_iff by auto
  qed
  ultimately show ?thesis
    using evict_stale_get [OF assms, of now age k] by (auto split: option.splits)
qed

lemma evict_stale_exact_witness:
  "peer_get (fst (evict_stale rev (disc_store (disc_run (new_discovery ''me'') demo_peers)) 9 7)) ''b'' = None \<and>
   peer_get (fst (evict_stale rev (disc_store (disc_run (new_discovery ''me'') demo_peers)) 9 7)) ''a'' \<noteq> None"
proof -
  let ?s = "disc_store (disc_run (new_discovery ''me'') demo_peers)"
  have own: "own_keys ?s" by (rule own_keys_run) (simp add: new_discovery_def)
  have ord: "hash_order rev" by (simp add: hash_order_def)
  have s: "peer_get ?s ''b'' = Some \<lparr>pi_id = ''b'', pi_addr = ''x'', pi_caps = [], pi_last_seen = 1\<rparr>"
    "peer_get ?s ''a'' = Some \<lparr>pi_id = ''a'', pi_addr = ''y'', pi_caps = [], pi_last_seen = 2\<rparr>"
    by (simp_all add: disc_run_def demo_peers_def peer_get_upsert new_discovery_def)
  show ?thesis
    using evict_stale_exact [OF ord own, of 9 7 "''b''"] evict_stale_exact [OF ord own, of 9 7 "''a''"] s
    by (simp add: saturating_sub_def)
qed

text \<open>
  C26: Negotiation finds the best common version and both sides agree on it: for well-formed
  supports it succeeds exactly when some version lies in both ranges, the result is the greatest
  such version, the other side computes the same one, and both sides decode envelopes that carry
  it. On failure the error carries the other side's root. Decoding is by the range of the receiver,
  not by the version agreed on: an envelope is decoded, to its payload, exactly when its version is
  in the range, and otherwise the error says on which side of the range it is.
\<close>

theorem negotiation_agrees:
  "(case negotiate a b of
     Inr v \<Rightarrow> negotiate b a = Inr v \<and>
       decode_checked (ve_encode v payload) (he_support a) = Inr payload \<and>
       decode_checked (ve_encode v payload) (he_support b) = Inr payload \<and>
       {sup_min (he_support a)..sup_current (he_support a)} \<inter>
         {sup_min (he_support b)..sup_current (he_support b)} \<inter> {v<..} = {}
   | Inl err \<Rightarrow> \<not> is_ok (negotiate b a) \<and>
       ({sup_min (he_support a)..sup_current (he_support a)} \<inter>
         {sup_min (he_support b)..sup_current (he_support b)} = {}) \<and>
       (case err of Incompatible _ _ hint \<Rightarrow> hint = he_root b | _ \<Rightarrow> True)) \<and>
   (if sup_min s \<le> sup_current s
    then decode_checked (ve_encode w payload) s =
      (if w \<in> {sup_min s..sup_current s} then Inr payload
       else if sup_current s < w then Inl (Unknown_Envelope_Version w (sup_current s))
       else Inl (Envelope_Too_Old w (sup_min s)))
    else decode_checked (ve_encode w payload) s = Inl (Malformed_Support (sup_current s) (sup_min s)))"
proof
  show "if sup_min s \<le> sup_current s
    then decode_checked (ve_encode w payload) s =
      (if w \<in> {sup_min s..sup_current s} then Inr payload
       else if sup_current s < w then Inl (Unknown_Envelope_Version w (sup_current s))
       else Inl (Envelope_Too_Old w (sup_min s)))
    else decode_checked (ve_encode w payload) s = Inl (Malformed_Support (sup_current s) (sup_min s))"
    by (auto simp: decode_checked_def sup_validate_def ve_encode_def)
next
  show "case negotiate a b of
     Inr v \<Rightarrow> negotiate b a = Inr v \<and>
       decode_checked (ve_encode v payload) (he_support a) = Inr payload \<and>
       decode_checked (ve_encode v payload) (he_support b) = Inr payload \<and>
       {sup_min (he_support a)..sup_current (he_support a)} \<inter>
         {sup_min (he_support b)..sup_current (he_support b)} \<inter> {v<..} = {}
   | Inl err \<Rightarrow> \<not> is_ok (negotiate b a) \<and>
       ({sup_min (he_support a)..sup_current (he_support a)} \<inter>
         {sup_min (he_support b)..sup_current (he_support b)} = {}) \<and>
       (case err of Incompatible _ _ hint \<Rightarrow> hint = he_root b | _ \<Rightarrow> True)"
  proof (cases "negotiate a b")
    case (Inl err)
    then have no: "negotiate a b \<noteq> Inr v" for v by simp
    then have "negotiate b a \<noteq> Inr v" for v
      using no [of v] by (simp only: negotiate_comm [of b a])
    then have "\<not> is_ok (negotiate b a)" by (auto simp: is_ok_iff)
    moreover have "{sup_min (he_support a)..sup_current (he_support a)} \<inter>
        {sup_min (he_support b)..sup_current (he_support b)} = {}"
      using no [of "min (sup_current (he_support a)) (sup_current (he_support b))"]
      unfolding negotiate_ok_iff by (auto simp: min_def split: if_splits)
    moreover have "case err of Incompatible _ _ hint \<Rightarrow> hint = he_root b | _ \<Rightarrow> True"
      using Inl by (auto simp: negotiate_def sup_validate_def Let_def split: if_splits)
    ultimately show ?thesis using Inl by simp
  next
    case (Inr v)
    then have v: "sup_min (he_support a) \<le> sup_current (he_support a)"
      "sup_min (he_support b) \<le> sup_current (he_support b)"
      "v = min (sup_current (he_support a)) (sup_current (he_support b))"
      "sup_min (he_support a) \<le> v" "sup_min (he_support b) \<le> v"
      unfolding negotiate_ok_iff by auto
    have "negotiate b a = Inr v" using Inr by (simp only: negotiate_comm [of b a])
    with v Inr show ?thesis
      by (auto simp: decode_checked_def sup_validate_def ve_encode_def not_less min_def split: if_splits)
  qed
qed

text \<open>
  A refusal names no boundary to resync to: the error of the node that refuses does not depend on the
  root of its own last verified boundary; the root in it is the one that the refused peer sent.
\<close>

theorem refusal_names_no_root:
  assumes "negotiate b a = Inl e"
  shows "negotiate (b\<lparr>he_root := r\<rparr>) a = Inl e \<and> (case e of Incompatible _ _ hint \<Rightarrow> hint = he_root a | _ \<Rightarrow> True)"
proof
  have support: "he_support (b\<lparr>he_root := r\<rparr>) = he_support b" by simp
  show "negotiate (b\<lparr>he_root := r\<rparr>) a = Inl e"
    using assms unfolding negotiate_def support .
  show "case e of Incompatible _ _ hint \<Rightarrow> hint = he_root a | _ \<Rightarrow> True"
    using assms by (auto simp: negotiate_def sup_validate_def Let_def split: if_splits)
qed

end
