(* ===== verification/Lifecycle.thy ===== *)
theory Lifecycle imports Prelude "HOL-Library.Sublist" begin

text \<open>
  \<open>kai-os/node/src/lifecycle.rs\<close> and \<open>health.rs\<close>: the life cycle of the daemon, a state machine
  that refuses every transition not in its table, and the worst-of aggregation of health.
\<close>

section \<open>Health\<close>

datatype health = Healthy | Degraded | Unhealthy

fun worst :: "health \<Rightarrow> health \<Rightarrow> health" where
  "worst Unhealthy _ = Unhealthy"
| "worst _ Unhealthy = Unhealthy"
| "worst Degraded _ = Degraded"
| "worst _ Degraded = Degraded"
| "worst Healthy Healthy = Healthy"

definition overall :: "health list \<Rightarrow> health" where
  "overall statuses = foldl worst Healthy statuses"

text \<open>Severity, as an order; \<open>worst\<close> is its maximum.\<close>

instantiation health :: linorder
begin

definition severity :: "health \<Rightarrow> nat" where
  "severity h = (case h of Healthy \<Rightarrow> 0 | Degraded \<Rightarrow> 1 | Unhealthy \<Rightarrow> 2)"

definition less_eq_health :: "health \<Rightarrow> health \<Rightarrow> bool" where
  "less_eq_health a b = (severity a \<le> severity b)"

definition less_health :: "health \<Rightarrow> health \<Rightarrow> bool" where
  "less_health a b = (severity a < severity b)"

instance
  by standard (auto simp: less_eq_health_def less_health_def severity_def split: health.splits)

end

lemma worst_max: "worst a b = max a b"
  by (cases a; cases b) (simp_all add: max_def less_eq_health_def severity_def)

lemma Healthy_least [simp]: "Healthy \<le> h"
  by (simp add: less_eq_health_def severity_def)

lemma overall_Max: "overall hs = Max (insert Healthy (set hs))"
proof -
  have "foldl worst h hs = Max (insert h (set hs))" for h
  proof (induction hs arbitrary: h)
    case (Cons x hs)
    then show ?case
      by (cases "hs = []") (simp_all add: worst_max max.assoc)
  qed simp
  then show ?thesis by (simp add: overall_def)
qed

lemma overall_upper: "h \<in> set hs \<Longrightarrow> h \<le> overall hs"
  by (simp add: overall_Max)

lemma overall_Healthy_iff: "overall hs = Healthy \<longleftrightarrow> (\<forall>h \<in> set hs. h = Healthy)"
proof
  assume "overall hs = Healthy"
  then show "\<forall>h \<in> set hs. h = Healthy" by (metis Healthy_least antisym overall_upper)
next
  assume "\<forall>h \<in> set hs. h = Healthy"
  then have "insert Healthy (set hs) = {Healthy}" by auto
  then show "overall hs = Healthy" by (simp only: overall_Max Max_singleton)
qed

section \<open>The life cycle\<close>

datatype lstate = Init | Boot | Running | LDegraded | Shutdown | Stopped

record lifecycle_error =
  le_from :: lstate
  le_to :: lstate

fun can_transition :: "lstate \<Rightarrow> lstate \<Rightarrow> bool" where
  "can_transition Init Boot = True"
| "can_transition Init Shutdown = True"
| "can_transition Boot Running = True"
| "can_transition Boot LDegraded = True"
| "can_transition Boot Shutdown = True"
| "can_transition Running LDegraded = True"
| "can_transition Running Shutdown = True"
| "can_transition LDegraded Running = True"
| "can_transition LDegraded Shutdown = True"
| "can_transition Shutdown Stopped = True"
| "can_transition _ _ = False"

text \<open>The audit callback is a function \<open>cb\<close> on a state of its own, kept in \<open>lc_audit\<close>.\<close>

record 'a lifecycle =
  lc_current :: lstate
  lc_history :: "(lstate \<times> lstate) list"
  lc_audit :: 'a

definition new_lifecycle :: "'a \<Rightarrow> 'a lifecycle" where
  "new_lifecycle a = \<lparr>lc_current = Init, lc_history = [], lc_audit = a\<rparr>"

definition lifecycle_at :: "lstate \<Rightarrow> 'a \<Rightarrow> 'a lifecycle" where
  "lifecycle_at s a = \<lparr>lc_current = s, lc_history = [], lc_audit = a\<rparr>"

definition transition ::
  "('a \<Rightarrow> lstate \<Rightarrow> lstate \<Rightarrow> 'a) \<Rightarrow> 'a lifecycle \<Rightarrow> lstate \<Rightarrow> 'a lifecycle \<times> (lifecycle_error + lstate)" where
  "transition cb l target =
     (if \<not> can_transition (lc_current l) target
      then (l, Inl \<lparr>le_from = lc_current l, le_to = target\<rparr>)
      else (l\<lparr>lc_history := lc_history l @ [(lc_current l, target)],
              lc_audit := cb (lc_audit l) (lc_current l) target,
              lc_current := target\<rparr>, Inr target))"

inductive lc_step :: "lstate \<Rightarrow> lstate \<Rightarrow> bool" where
  "can_transition s t \<Longrightarrow> lc_step s t"

inductive_simps lc_step_simps: "lc_step s t"
inductive_cases from_shutdown: "lc_step Shutdown t"
inductive_cases from_stopped: "lc_step Stopped t"

text \<open>Driving the machine with any requests, legal or not.\<close>

definition lc_run :: "('a \<Rightarrow> lstate \<Rightarrow> lstate \<Rightarrow> 'a) \<Rightarrow> 'a lifecycle \<Rightarrow> lstate list \<Rightarrow> 'a lifecycle" where
  "lc_run cb l ts = foldl (\<lambda>l t. fst (transition cb l t)) l ts"

text \<open>A history is a path of table transitions from the start state to the current one.\<close>

fun lc_path :: "lstate \<Rightarrow> (lstate \<times> lstate) list \<Rightarrow> lstate \<Rightarrow> bool" where
  "lc_path s [] t \<longleftrightarrow> s = t"
| "lc_path s ((a, b) # es) t \<longleftrightarrow> a = s \<and> can_transition a b \<and> lc_path b es t"

lemma lc_path_snoc: "lc_path s (es @ [(a, b)]) t \<longleftrightarrow> lc_path s es a \<and> can_transition a b \<and> b = t"
  by (induction es arbitrary: s) auto

lemma lc_path_reach: "lc_path s es t \<Longrightarrow> lc_step\<^sup>*\<^sup>* s t"
proof (induction es arbitrary: s)
  case (Cons e es)
  then show ?case by (cases e) (auto simp: lc_step_simps intro: converse_rtranclp_into_rtranclp)
qed simp

lemma lc_run_invariant:
  assumes "lc_path s (lc_history l) (lc_current l)"
    and "lc_audit l = foldl (\<lambda>a (x, y). cb a x y) a0 (lc_history l)"
  shows "lc_path s (lc_history (lc_run cb l ts)) (lc_current (lc_run cb l ts)) \<and>
    lc_audit (lc_run cb l ts) = foldl (\<lambda>a (x, y). cb a x y) a0 (lc_history (lc_run cb l ts)) \<and>
    prefix (lc_history l) (lc_history (lc_run cb l ts))"
  using assms unfolding lc_run_def
proof (induction ts arbitrary: l)
  case (Cons t ts)
  let ?l = "fst (transition cb l t)"
  have "lc_path s (lc_history ?l) (lc_current ?l)"
    "lc_audit ?l = foldl (\<lambda>a (x, y). cb a x y) a0 (lc_history ?l)"
    "prefix (lc_history l) (lc_history ?l)"
    using Cons.prems by (auto simp: transition_def lc_path_snoc)
  with Cons.IH [of ?l] show ?case by (auto intro: prefix_order.trans)
qed simp

lemma lc_run_reach: "lc_step\<^sup>*\<^sup>* (lc_current l) (lc_current (lc_run cb l ts))"
  unfolding lc_run_def
proof (induction ts arbitrary: l)
  case (Cons t ts)
  have "lc_current (fst (transition cb l t)) = lc_current l \<or>
      lc_step (lc_current l) (lc_current (fst (transition cb l t)))"
    by (auto simp: transition_def lc_step_simps)
  with Cons.IH [of "fst (transition cb l t)"] show ?case
    by (auto intro: converse_rtranclp_into_rtranclp)
qed simp

lemma shutdown_is_final: "lc_step\<^sup>*\<^sup>* s t \<Longrightarrow> s = Shutdown \<or> s = Stopped \<Longrightarrow> t = Shutdown \<or> t = Stopped"
proof (induction rule: rtranclp_induct)
  case (step u v)
  then show ?case by (cases u; cases v) (auto simp: lc_step_simps)
qed simp

section \<open>Properties\<close>

text \<open>
  C19: Whatever transitions are requested, in any order: the history of a life cycle is a path of
  table transitions from INIT to the current state, the audit callback has seen exactly that
  history, refused requests change nothing, and once shutdown has begun the daemon can only stop.
\<close>

theorem lifecycle_history_is_legal:
  "let l = lc_run cb (new_lifecycle a0) ts in
   lc_path Init (lc_history l) (lc_current l) \<and> lc_step\<^sup>*\<^sup>* Init (lc_current l) \<and>
   lc_audit l = foldl (\<lambda>a (x, y). cb a x y) a0 (lc_history l) \<and>
   (if can_transition (lc_current l) t then snd (transition cb l t) = Inr t
    else transition cb l t = (l, Inl \<lparr>le_from = lc_current l, le_to = t\<rparr>)) \<and>
   (if lc_current l = Shutdown \<or> lc_current l = Stopped
    then lc_current (lc_run cb l us) \<in> {Shutdown, Stopped} else True)"
proof -
  let ?l = "lc_run cb (new_lifecycle a0) ts"
  have inv: "lc_path Init (lc_history ?l) (lc_current ?l)"
    "lc_audit ?l = foldl (\<lambda>a (x, y). cb a x y) a0 (lc_history ?l)"
    using lc_run_invariant [of Init "new_lifecycle a0" cb a0 ts] by (auto simp: new_lifecycle_def)
  have "lc_step\<^sup>*\<^sup>* (lc_current ?l) (lc_current (lc_run cb ?l us))" by (rule lc_run_reach)
  then have final: "lc_current ?l = Shutdown \<or> lc_current ?l = Stopped \<Longrightarrow>
      lc_current (lc_run cb ?l us) \<in> {Shutdown, Stopped}"
    using shutdown_is_final by blast
  show ?thesis
    using inv lc_path_reach [OF inv(1)] final by (auto simp: Let_def transition_def)
qed

end
