(* ===== verification/Node_Audit.thy ===== *)
theory Node_Audit imports Hash_Chain Files "HOL-Library.Sublist" begin

text \<open>
  \<open>kai-os/node/src/audit.rs\<close>: the append-only audit log of the node daemon, a hash chain kept in
  memory and written to a file. \<open>pr\<close> is the JSON printer of \<open>serde_json\<close>.
\<close>

definition GENESIS_HASH :: string where
  "GENESIS_HASH = replicate 64 CHR ''0''"

record audit_event =
  ae_seq :: u64
  ae_kind :: string
  ae_detail :: string
  ae_prev :: string
  ae_hash :: string

record audit_logger =
  al_events :: "audit_event list"
  al_sink :: "string option"

type_synonym event_printer = "audit_event \<Rightarrow> string option"

definition in_memory :: audit_logger where
  "in_memory = \<lparr>al_events = [], al_sink = None\<rparr>"

text \<open>\<open>mkdir_ok\<close>: whether \<open>create_dir_all\<close> of the parent directory succeeds.\<close>

definition to_file :: "bool \<Rightarrow> string \<Rightarrow> io_error + audit_logger" where
  "to_file mkdir_ok path =
     (if mkdir_ok then Inr \<lparr>al_events = [], al_sink = Some path\<rparr> else Inl Write_Failed)"

definition audit_payload :: "audit_event \<Rightarrow> string" where
  "audit_payload e =
     show_word (ae_seq e) @ ''|'' @ ae_kind e @ ''|'' @ ae_detail e @ ''|'' @ ae_prev e"

definition audit_hash :: "digest \<Rightarrow> audit_event \<Rightarrow> string" where
  "audit_hash D e = sha_str D (audit_payload e)"

definition last_hash :: "audit_logger \<Rightarrow> string" where
  "last_hash l = (if al_events l = [] then GENESIS_HASH else ae_hash (last (al_events l)))"

text \<open>The event \<open>record\<close> builds; a vector never holds 2^64 - 1 events, so its number cannot overflow.\<close>

definition new_event :: "digest \<Rightarrow> audit_logger \<Rightarrow> string \<Rightarrow> string \<Rightarrow> audit_event" where
  "new_event D l kind detail =
     (let seq = of_nat (length (al_events l)) + 1;
          e = \<lparr>ae_seq = seq, ae_kind = kind, ae_detail = detail, ae_prev = last_hash l, ae_hash = []\<rparr>
      in e\<lparr>ae_hash := sha_str D (show_word seq @ ''|'' @ kind @ ''|'' @ detail @ ''|'' @ last_hash l)\<rparr>)"

definition al_push :: "audit_logger \<Rightarrow> audit_event \<Rightarrow> audit_logger" where
  "al_push l e = l\<lparr>al_events := al_events l @ [e]\<rparr>"

definition al_record ::
  "digest \<Rightarrow> event_printer \<Rightarrow> write_outcome \<Rightarrow> fs \<Rightarrow> audit_logger \<Rightarrow> string \<Rightarrow> string \<Rightarrow>
   fs \<times> audit_logger \<times> (io_error + audit_event)" where
  "al_record D pr w f l kind detail =
     (let e = new_event D l kind detail in
      case al_sink l of
        None \<Rightarrow> (f, al_push l e, Inr e)
      | Some path \<Rightarrow>
          if w = Denied then (f, l, Inl Write_Failed)
          else
            (case pr e of
               None \<Rightarrow> (fs_create f path, l, Inl Serde_Failed)
             | Some line \<Rightarrow>
                 let f' = fst (fs_append w f path (line @ newline)) in
                 (case w of Partial _ \<Rightarrow> (f', l, Inl Write_Failed) | _ \<Rightarrow> (f', al_push l e, Inr e))))"

fun verify_loop :: "digest \<Rightarrow> nat \<Rightarrow> string \<Rightarrow> audit_event list \<Rightarrow> bool" where
  "verify_loop D i prev [] = True"
| "verify_loop D i prev (e # es) =
     (if ae_seq e \<noteq> of_nat i + 1 \<or> ae_prev e \<noteq> prev then False
      else if ae_hash e \<noteq> sha_str D (show_word (ae_seq e) @ ''|'' @ ae_kind e @ ''|'' @ ae_detail e @
             ''|'' @ ae_prev e) then False
      else verify_loop D (i + 1) (ae_hash e) es)"

definition verify_chain :: "digest \<Rightarrow> audit_logger \<Rightarrow> bool" where
  "verify_chain D l = verify_loop D 0 GENESIS_HASH (al_events l)"

text \<open>A sequence of records, each with the outcome of its write.\<close>

definition al_run ::
  "digest \<Rightarrow> event_printer \<Rightarrow> fs \<times> audit_logger \<Rightarrow> (write_outcome \<times> string \<times> string) list \<Rightarrow>
   fs \<times> audit_logger" where
  "al_run D pr s rs =
     foldl (\<lambda>(f, l) (w, kind, detail). case al_record D pr w f l kind detail of (f', l', _) \<Rightarrow> (f', l')) s rs"

section \<open>Lemmas\<close>

lemma verify_loop_iff:
  "verify_loop D i prev es \<longleftrightarrow>
     chain_from ae_seq ae_prev ae_hash i prev es \<and> (\<forall>e \<in> set es. ae_hash e = audit_hash D e)"
  by (induction es arbitrary: i prev) (auto simp: audit_hash_def audit_payload_def add.commute)

interpretation audit_chain: hash_chain ae_seq ae_prev ae_hash audit_payload
proof
  fix e e' :: audit_event
  assume pay: "audit_payload e = audit_payload e'"
  then have "show_word (ae_seq e) = show_word (ae_seq e')"
    unfolding audit_payload_def by (metis append_Cons append_Nil bar_split bar_notin_show_word)
  then show "ae_seq e = ae_seq e'" by simp
  assume "length (ae_prev e) = 64" "length (ae_prev e') = 64"
  then have "length (ae_prev e) = length (ae_prev e')" by simp
  moreover define X where
    "X x = show_word (ae_seq x) @ ''|'' @ ae_kind x @ ''|'' @ ae_detail x @ ''|''" for x :: audit_event
  then have "audit_payload x = X x @ ae_prev x" for x by (simp add: audit_payload_def)
  with pay have "X e @ ae_prev e = X e' @ ae_prev e'" by simp
  ultimately show "ae_prev e = ae_prev e'" using append_eq_append_conv by blast
qed

lemma verify_push: "verify_chain D l \<Longrightarrow> verify_chain D (al_push l (new_event D l kind detail))"
  by (auto simp: verify_chain_def verify_loop_iff al_push_def new_event_def Let_def last_hash_def
      audit_hash_def audit_payload_def chain_tip_def add.commute)

lemma al_record_cases:
  "al_record D pr w f l kind detail = (f', l', r) \<Longrightarrow>
   (\<exists>err. r = Inl err) \<and> l' = l \<or>
   r = Inr (new_event D l kind detail) \<and> l' = al_push l (new_event D l kind detail)"
  by (auto simp: al_record_def Let_def split: option.splits write_outcome.splits if_splits)

section \<open>Properties\<close>

text \<open>
  C20: The log the daemon writes always verifies: after any sequence of records, whatever happens
  to their writes, the events in memory form a chain with correct numbers, links and hashes, and
  no event recorded earlier has changed or disappeared.
\<close>

theorem audit_log_verifies:
  assumes "verify_chain D l"
  shows "verify_chain D (snd (al_run D pr (f, l) rs)) \<and>
    prefix (al_events l) (al_events (snd (al_run D pr (f, l) rs))) \<and>
    length (al_events (snd (al_run D pr (f, l) rs))) \<le> length (al_events l) + length rs"
  using assms
proof (induction rs arbitrary: f l)
  case (Cons r rs)
  obtain w kind detail where r: "r = (w, kind, detail)" by (cases r)
  obtain f' l' res where rec: "al_record D pr w f l kind detail = (f', l', res)"
    by (cases "al_record D pr w f l kind detail")
  from al_record_cases [OF rec] verify_push [OF Cons.prems]
  have step: "verify_chain D l' \<and> prefix (al_events l) (al_events l') \<and>
      length (al_events l') \<le> Suc (length (al_events l))"
    using Cons.prems by (auto simp: al_push_def)
  have run: "al_run D pr (f, l) (r # rs) = al_run D pr (f', l') rs"
    by (simp add: al_run_def r rec)
  show ?case
    using Cons.IH [of l' f'] step unfolding run by (auto intro: prefix_order.trans)
qed (simp add: al_run_def)

lemma audit_log_verifies_witness:
  "verify_chain demo_digest (snd (al_run demo_digest (\<lambda>_. None) (Map.empty, in_memory)
     [(Written, ''daemon'', ''boot''), (Written, ''lifecycle'', ''Init -> Boot'')]))"
  using audit_log_verifies [of demo_digest in_memory]
  by (simp add: verify_chain_def in_memory_def)

text \<open>
  Tamper evidence. Two non-empty logs that verify and end in the same hash record the same
  number of events with the same hashed texts, unless SHA-256 collides on those texts.
\<close>

theorem audit_tip_commits:
  assumes "verify_chain D l" "verify_chain D m" "digest32 D"
    and "al_events l \<noteq> []" "al_events m \<noteq> []" "last_hash l = last_hash m"
    and "length (al_events l) < 2 ^ 64" "length (al_events m) < 2 ^ 64"
    and "collision_free D (audit_payload ` (set (al_events l) \<union> set (al_events m)))"
  shows "map audit_payload (al_events l) = map audit_payload (al_events m) \<and>
    map ae_hash (al_events l) = map ae_hash (al_events m)"
proof -
  have h: "\<forall>e \<in> set (al_events l) \<union> set (al_events m). ae_hash e = sha_str D (audit_payload e)"
    using assms(1,2) by (auto simp: verify_chain_def verify_loop_iff audit_hash_def)
  have pay: "map audit_payload (al_events l) = map audit_payload (al_events m)"
    using assms h
    by (intro audit_chain.binding [OF assms(3), where g = GENESIS_HASH])
      (auto simp: verify_chain_def verify_loop_iff GENESIS_HASH_def last_hash_def chain_tip_def)
  with audit_chain.digests_agree [OF pay h] show ?thesis by simp
qed

lemma audit_tip_commits_witness:
  "map audit_payload [new_event demo_digest in_memory ''k'' ''d|x''] =
     map audit_payload [(new_event demo_digest in_memory ''k'' ''d|x'')\<lparr>ae_kind := ''k|d'', ae_detail := ''x''\<rparr>] \<and>
   new_event demo_digest in_memory ''k'' ''d|x'' \<noteq>
     (new_event demo_digest in_memory ''k'' ''d|x'')\<lparr>ae_kind := ''k|d'', ae_detail := ''x''\<rparr>"
proof -
  let ?e = "new_event demo_digest in_memory ''k'' ''d|x''"
  let ?e' = "?e\<lparr>ae_kind := ''k|d'', ae_detail := ''x''\<rparr>"
  have l: "verify_chain demo_digest (al_push in_memory ?e)"
    by (rule verify_push) (simp add: verify_chain_def in_memory_def)
  have m: "verify_chain demo_digest (al_push in_memory ?e')"
    by (simp add: verify_chain_def al_push_def in_memory_def new_event_def Let_def last_hash_def)
  have same: "audit_payload ?e = audit_payload ?e'"
    by (simp add: audit_payload_def new_event_def Let_def)
  have "?e \<noteq> ?e'" by (simp add: new_event_def Let_def)
  moreover have "map audit_payload (al_events (al_push in_memory ?e)) =
      map audit_payload (al_events (al_push in_memory ?e'))"
    using same by (intro conjunct1 [OF audit_tip_commits [OF l m digest32_demo]])
      (simp_all add: al_push_def in_memory_def last_hash_def collision_free_def)
  ultimately show ?thesis by (simp add: al_push_def in_memory_def)
qed

text \<open>
  The chain does not fix where the kind of an event ends: the hashed text joins kind and
  detail with a bar. Moving a bar's left part from the detail to the kind of any event leaves a
  log that still verifies, with the same hashes.
\<close>

theorem audit_field_shift:
  assumes "verify_chain D (l\<lparr>al_events := es @ e\<lparr>ae_kind := k, ae_detail := d @ ''|'' @ rest\<rparr> # fs\<rparr>)"
  shows "verify_chain D (l\<lparr>al_events := es @ e\<lparr>ae_kind := k @ ''|'' @ d, ae_detail := rest\<rparr> # fs\<rparr>)"
  using assms
  by (auto simp: verify_chain_def verify_loop_iff chain_from_append audit_hash_def audit_payload_def)

lemma audit_field_shift_witness:
  "verify_chain demo_digest (in_memory\<lparr>al_events :=
     [(new_event demo_digest in_memory ''shutdown'' ''a|b'')\<lparr>ae_kind := ''shutdown'' @ ''|'' @ ''a'', ae_detail := ''b''\<rparr>]\<rparr>)"
proof -
  let ?e = "new_event demo_digest in_memory ''shutdown'' ''a|b''"
  have "verify_chain demo_digest (al_push in_memory ?e)"
    by (rule verify_push) (simp add: verify_chain_def in_memory_def)
  then have "verify_chain demo_digest
      (in_memory\<lparr>al_events := [] @ ?e\<lparr>ae_kind := ''shutdown'', ae_detail := ''a'' @ ''|'' @ ''b''\<rparr> # []\<rparr>)"
    by (simp add: al_push_def in_memory_def new_event_def Let_def)
  from audit_field_shift [OF this] show ?thesis by simp
qed

end
