(* ===== verification/Supervisor.thy ===== *)
theory Supervisor imports Lifecycle Files "HOL-Library.Multiset" "HOL-Library.Sublist" begin

text \<open>
  \<open>kai-os/node/src/supervisor.rs\<close> and \<open>shutdown.rs\<close>: the supervisor over registered subsystems.

  A \<open>Box<dyn Subsystem>\<close> is a value of a type \<open>'s\<close> with the operations \<open>ops\<close> of the trait; the
  locale \<open>subsystem\<close> is the trait's contract. Audit records whose result the supervisor ignores
  are a function \<open>lg\<close> on a state of their own. Every function also returns the calls it makes on
  the subsystems, in order.
\<close>

section \<open>Subsystems\<close>

record 's subsystem_ops =
  sub_name :: "'s \<Rightarrow> string"
  sub_start :: "'s \<Rightarrow> 's \<times> (string + unit)"
  sub_stop :: "'s \<Rightarrow> 's \<times> (string + unit)"
  sub_health :: "'s \<Rightarrow> health"
  sub_tick :: "'s \<Rightarrow> ('s \<times> (string + unit)) option"

datatype call = Call_Start string | Call_Stop string | Call_Tick string

record 's entry =
  en_sub :: 's
  en_restarts :: u32
  en_health :: health
  en_running :: bool

record 's supervisor =
  sv_entries :: "'s entry list"
  sv_max_restarts :: u32
  sv_backoff_ms :: u64

type_synonym 'a log_op = "'a \<Rightarrow> string \<Rightarrow> string \<Rightarrow> 'a"

definition new_supervisor :: "u32 \<Rightarrow> u64 \<Rightarrow> 's supervisor" where
  "new_supervisor max_restarts backoff =
     \<lparr>sv_entries = [], sv_max_restarts = max_restarts, sv_backoff_ms = backoff\<rparr>"

definition sv_register :: "'s supervisor \<Rightarrow> 's \<Rightarrow> 's supervisor" where
  "sv_register v s =
     v\<lparr>sv_entries := sv_entries v @
        [\<lparr>en_sub = s, en_restarts = 0, en_health = Healthy, en_running = False\<rparr>]\<rparr>"

definition stop_if_running :: "'s subsystem_ops \<Rightarrow> 's entry \<Rightarrow> 's entry" where
  "stop_if_running ops e =
     (if en_running e then e\<lparr>en_sub := fst (sub_stop ops (en_sub e)), en_running := False\<rparr> else e)"

definition stop_started_reverse :: "'s subsystem_ops \<Rightarrow> 's entry list \<Rightarrow> 's entry list \<times> call list" where
  "stop_started_reverse ops es =
     (map (stop_if_running ops) es,
      map (\<lambda>e. Call_Stop (sub_name ops (en_sub e))) (filter en_running (rev es)))"

text \<open>The loop of \<open>start_all\<close>: \<open>front\<close> are the entries already visited.\<close>

fun start_loop ::
  "'s subsystem_ops \<Rightarrow> 'a log_op \<Rightarrow> 's entry list \<Rightarrow> 's entry list \<Rightarrow> 'a \<Rightarrow> call list \<Rightarrow>
   's entry list \<times> 'a \<times> call list \<times> (string + unit)" where
  "start_loop ops lg front [] a calls = (front, a, calls, Inr ())"
| "start_loop ops lg front (e # es) a calls =
     (let name = sub_name ops (en_sub e); calls' = calls @ [Call_Start name] in
      case sub_start ops (en_sub e) of
        (s, Inr _) \<Rightarrow>
          start_loop ops lg
            (front @ [e\<lparr>en_sub := s, en_running := True, en_health := sub_health ops s\<rparr>]) es
            (lg a ''supervisor'' (''started '' @ name)) calls'
      | (s, Inl err) \<Rightarrow>
          (case stop_started_reverse ops (front @ e\<lparr>en_sub := s, en_health := Unhealthy\<rparr> # es) of
             (es', stops) \<Rightarrow>
               (es', lg a ''supervisor'' (''BOOT FAILED at '' @ name @ '': subsystem error: '' @ err),
                calls' @ stops, Inl err)))"

definition start_all ::
  "'s subsystem_ops \<Rightarrow> 'a log_op \<Rightarrow> 's supervisor \<Rightarrow> 'a \<Rightarrow>
   's supervisor \<times> 'a \<times> call list \<times> (string + unit)" where
  "start_all ops lg v a =
     (case start_loop ops lg [] (sv_entries v) a [] of
        (es, a', calls, r) \<Rightarrow> (v\<lparr>sv_entries := es\<rparr>, a', calls, r))"

definition show_bool :: "bool \<Rightarrow> string" where
  "show_bool b = (if b then ''true'' else ''false'')"

definition tick_entry ::
  "'s subsystem_ops \<Rightarrow> 'a log_op \<Rightarrow> u32 \<Rightarrow> 's entry \<Rightarrow> 'a \<Rightarrow> ('s entry \<times> 'a \<times> call list) option" where
  "tick_entry ops lg max_restarts e a =
     (if \<not> en_running e then Some (e, a, [])
      else do {
        (s, r) \<leftarrow> sub_tick ops (en_sub e);
        let name = sub_name ops s in
        if is_ok r then
          Some (e\<lparr>en_sub := s, en_health := sub_health ops s\<rparr>, a, [Call_Tick name])
        else if en_restarts e < max_restarts then
          (let stopped = sub_stop ops s;
               started = sub_start ops (fst stopped);
               n = en_restarts e + 1;
               a' = lg a ''supervisor'' (''restart #'' @ show_word n @ '' of '' @ name @ '' (stop_ok='' @
                 show_bool (is_ok (snd stopped)) @ '', start_ok='' @ show_bool (is_ok (snd started)) @ '')'')
           in Some (e\<lparr>en_sub := fst started, en_restarts := n, en_running := is_ok (snd started),
                     en_health := sub_health ops (fst started)\<rparr>,
                    a', [Call_Tick name, Call_Stop name, Call_Start name]))
        else
          (let s' = fst (sub_stop ops s) in
           Some (e\<lparr>en_sub := s', en_running := False, en_health := sub_health ops s'\<rparr>,
                 lg a ''supervisor'' (name @ '' exceeded max_restarts -> UNHEALTHY''),
                 [Call_Tick name, Call_Stop name]))
      })"

fun tick_loop ::
  "'s subsystem_ops \<Rightarrow> 'a log_op \<Rightarrow> u32 \<Rightarrow> 's entry list \<Rightarrow> 'a \<Rightarrow>
   ('s entry list \<times> 'a \<times> call list) option" where
  "tick_loop ops lg m [] a = Some ([], a, [])"
| "tick_loop ops lg m (e # es) a = do {
     (e', a', calls) \<leftarrow> tick_entry ops lg m e a;
     (es', a'', calls') \<leftarrow> tick_loop ops lg m es a';
     Some (e' # es', a'', calls @ calls')
   }"

definition overall_health :: "'s supervisor \<Rightarrow> health" where
  "overall_health v = overall (map en_health (sv_entries v))"

definition tick_all ::
  "'s subsystem_ops \<Rightarrow> 'a log_op \<Rightarrow> 's supervisor \<Rightarrow> 'a \<Rightarrow> ('s supervisor \<times> 'a \<times> call list \<times> health) option" where
  "tick_all ops lg v a = do {
     (es, a', calls) \<leftarrow> tick_loop ops lg (sv_max_restarts v) (sv_entries v) a;
     Some (v\<lparr>sv_entries := es\<rparr>, a', calls, overall (map en_health es))
   }"

definition restart_count :: "'s subsystem_ops \<Rightarrow> 's supervisor \<Rightarrow> string \<Rightarrow> u32 option" where
  "restart_count ops v name =
     map_option en_restarts (find (\<lambda>e. sub_name ops (en_sub e) = name) (sv_entries v))"

section \<open>Persistence of the supervisor\<close>

record subsystem_state =
  sb_name :: string
  sb_restarts :: u32
  sb_last_health :: string
  sb_running :: bool

fun show_health :: "health \<Rightarrow> string" where
  "show_health Healthy = ''Healthy''"
| "show_health Degraded = ''Degraded''"
| "show_health Unhealthy = ''Unhealthy''"

definition sv_snapshot :: "'s subsystem_ops \<Rightarrow> 's supervisor \<Rightarrow> subsystem_state list" where
  "sv_snapshot ops v =
     map (\<lambda>e. \<lparr>sb_name = sub_name ops (en_sub e), sb_restarts = en_restarts e,
               sb_last_health = show_health (en_health e), sb_running = en_running e\<rparr>) (sv_entries v)"

text \<open>\<open>iter_mut().find(...)\<close>, then an update of the element found.\<close>

fun update_first :: "('a \<Rightarrow> bool) \<Rightarrow> ('a \<Rightarrow> 'a) \<Rightarrow> 'a list \<Rightarrow> 'a list" where
  "update_first P f [] = []"
| "update_first P f (x # xs) = (if P x then f x # xs else x # update_first P f xs)"

definition sv_restore :: "'s subsystem_ops \<Rightarrow> 's supervisor \<Rightarrow> subsystem_state list \<Rightarrow> 's supervisor" where
  "sv_restore ops v states =
     foldl (\<lambda>v s. v\<lparr>sv_entries := update_first (\<lambda>e. sub_name ops (en_sub e) = sb_name s)
        (\<lambda>e. e\<lparr>en_restarts := sb_restarts s, en_running := sb_running s\<rparr>) (sv_entries v)\<rparr>) v states"

definition persist_state ::
  "'s subsystem_ops \<Rightarrow> (subsystem_state list \<Rightarrow> string option) \<Rightarrow> write_outcome \<Rightarrow> fs \<Rightarrow> 's supervisor \<Rightarrow>
   string \<Rightarrow> fs \<times> (io_error + unit)" where
  "persist_state ops pr w f v path =
     (case pr (sv_snapshot ops v) of None \<Rightarrow> (f, Inl Serde_Failed) | Some json \<Rightarrow> fs_write w f path json)"

definition load_state ::
  "(string \<Rightarrow> subsystem_state list option) \<Rightarrow> fs \<Rightarrow> string \<Rightarrow> io_error + subsystem_state list" where
  "load_state parse f path =
     (case read_to_string f path of
        Inl e \<Rightarrow> Inl e
      | Inr raw \<Rightarrow> (case parse raw of None \<Rightarrow> Inl Serde_Failed | Some s \<Rightarrow> Inr s))"

section \<open>Shutdown\<close>

definition shutdown_order :: "'s subsystem_ops \<Rightarrow> 's supervisor \<Rightarrow> string list" where
  "shutdown_order ops v =
     map (\<lambda>e. sub_name ops (en_sub e)) (filter en_running (rev (sv_entries v)))"

definition stop_subsystem ::
  "'s subsystem_ops \<Rightarrow> 's supervisor \<Rightarrow> string \<Rightarrow> 's supervisor \<times> call list \<times> (string + unit)" where
  "stop_subsystem ops v name =
     (let P = \<lambda>e. sub_name ops (en_sub e) = name \<and> en_running e in
      case find P (sv_entries v) of
        None \<Rightarrow> (v, [], Inr ())
      | Some e \<Rightarrow>
          (v\<lparr>sv_entries := update_first P
               (\<lambda>e. e\<lparr>en_sub := fst (sub_stop ops (en_sub e)), en_running := False\<rparr>) (sv_entries v)\<rparr>,
           [Call_Stop name], snd (sub_stop ops (en_sub e))))"

record shutdown_report =
  stopped_in_order :: "string list"
  forced :: "string list"
  clean :: bool

fun shutdown_loop ::
  "'s subsystem_ops \<Rightarrow> 's supervisor \<Rightarrow> string list \<Rightarrow>
   's supervisor \<times> call list \<times> string list \<times> string list" where
  "shutdown_loop ops v [] = (v, [], [], [])"
| "shutdown_loop ops v (name # names) =
     (case stop_subsystem ops v name of
        (v', calls, r) \<Rightarrow>
          (case shutdown_loop ops v' names of
             (v'', calls', ok, bad) \<Rightarrow>
               (v'', calls @ calls', if is_ok r then name # ok else ok, if is_ok r then bad else name # bad)))"

definition shutdown_all :: "'s subsystem_ops \<Rightarrow> 's supervisor \<Rightarrow> 's supervisor \<times> call list \<times> shutdown_report" where
  "shutdown_all ops v =
     (case shutdown_loop ops v (shutdown_order ops v) of
        (v', calls, ok, bad) \<Rightarrow>
          (v', calls, \<lparr>stopped_in_order = ok, forced = bad, clean = (bad = [])\<rparr>))"

section \<open>The stub\<close>

record stub =
  st_name :: string
  st_fail_starts :: u32
  st_fail_ticks :: u32
  st_started :: bool
  st_ticks :: u32

definition new_stub :: "string \<Rightarrow> stub" where
  "new_stub name =
     \<lparr>st_name = name, st_fail_starts = 0, st_fail_ticks = 0, st_started = False, st_ticks = 0\<rparr>"

definition failing_starts :: "stub \<Rightarrow> u32 \<Rightarrow> stub" where
  "failing_starts s n = s\<lparr>st_fail_starts := n\<rparr>"

definition failing_ticks :: "stub \<Rightarrow> u32 \<Rightarrow> stub" where
  "failing_ticks s n = s\<lparr>st_fail_ticks := n\<rparr>"

definition stub_start :: "stub \<Rightarrow> stub \<times> (string + unit)" where
  "stub_start s =
     (if 0 < st_fail_starts s
      then (s\<lparr>st_fail_starts := st_fail_starts s - 1\<rparr>, Inl (st_name s @ '': simulated start failure''))
      else (s\<lparr>st_started := True\<rparr>, Inr ()))"

definition stub_stop :: "stub \<Rightarrow> stub \<times> (string + unit)" where
  "stub_stop s = (s\<lparr>st_started := False\<rparr>, Inr ())"

definition stub_health :: "stub \<Rightarrow> health" where
  "stub_health s = (if st_started s then Healthy else Unhealthy)"

definition stub_tick :: "profile \<Rightarrow> stub \<Rightarrow> (stub \<times> (string + unit)) option" where
  "stub_tick p s = do {
     n \<leftarrow> add_ov p (st_ticks s) 1;
     let s' = s\<lparr>st_ticks := n\<rparr> in
     if 0 < st_fail_ticks s
     then Some (s'\<lparr>st_fail_ticks := st_fail_ticks s - 1\<rparr>, Inl (st_name s @ '': simulated tick failure''))
     else Some (s', Inr ())
   }"

definition stub_ops :: "profile \<Rightarrow> stub subsystem_ops" where
  "stub_ops p =
     \<lparr>sub_name = st_name, sub_start = stub_start, sub_stop = stub_stop, sub_health = stub_health,
      sub_tick = stub_tick p\<rparr>"

section \<open>The trait's contract\<close>

definition names :: "'s subsystem_ops \<Rightarrow> 's entry list \<Rightarrow> string list" where
  "names ops es = map (\<lambda>e. sub_name ops (en_sub e)) es"

fun is_start :: "call \<Rightarrow> bool" where
  "is_start (Call_Start _) = True"
| "is_start _ = False"

definition starts :: "call list \<Rightarrow> nat" where
  "starts calls = length (filter is_start calls)"

lemma starts_simps [simp]: "starts [] = 0" "starts (xs @ ys) = starts xs + starts ys"
  by (simp_all add: starts_def)

definition running_names :: "'s subsystem_ops \<Rightarrow> 's entry list \<Rightarrow> string list" where
  "running_names ops es = names ops (filter en_running es)"

definition restarts_sum :: "'s entry list \<Rightarrow> nat" where
  "restarts_sum es = sum_list (map (\<lambda>e. unat (en_restarts e)) es)"

text \<open>\<open>fn name(&self) -> &'static str\<close>: no operation changes the name.\<close>

locale subsystem =
  fixes ops :: "'s subsystem_ops"
  assumes name_start: "sub_name ops (fst (sub_start ops s)) = sub_name ops s"
    and name_stop: "sub_name ops (fst (sub_stop ops s)) = sub_name ops s"
    and name_tick: "sub_tick ops s = Some (s', r) \<Longrightarrow> sub_name ops s' = sub_name ops s"
begin

lemma name_started: "sub_start ops s = (s', r) \<Longrightarrow> sub_name ops s' = sub_name ops s"
  using name_start [of s] by simp

lemma stop_if_running_simps:
  "sub_name ops (en_sub (stop_if_running ops e)) = sub_name ops (en_sub e)"
  "\<not> en_running (stop_if_running ops e)"
  by (simp_all add: stop_if_running_def name_stop)

lemma boot:
  "start_loop ops lg front es a calls = (es', a', calls', r) \<Longrightarrow>
   \<forall>e \<in> set es. \<not> en_running e \<Longrightarrow> \<forall>e \<in> set front. en_running e \<and> en_health e = sub_health ops (en_sub e) \<Longrightarrow>
   names ops es' = names ops front @ names ops es \<and>
   (case r of
      Inr _ \<Rightarrow> (\<forall>e \<in> set es'. en_running e \<and> en_health e = sub_health ops (en_sub e)) \<and>
        calls' = calls @ map Call_Start (names ops es)
    | Inl _ \<Rightarrow> (\<forall>e \<in> set es'. \<not> en_running e) \<and>
        (\<exists>i < length es. calls' = calls @ map Call_Start (take (Suc i) (names ops es)) @
           map Call_Stop (rev (names ops front @ take i (names ops es)))))"
proof (induction es arbitrary: front a calls)
  case Nil
  then show ?case by (auto simp: names_def)
next
  case (Cons e es)
  obtain s x where st: "sub_start ops (en_sub e) = (s, x)" by (cases "sub_start ops (en_sub e)") auto
  show ?case
  proof (cases x)
    case (Inr u)
    let ?e = "e\<lparr>en_sub := s, en_running := True, en_health := sub_health ops s\<rparr>"
    have run: "start_loop ops lg (front @ [?e]) es (lg a ''supervisor'' (''started '' @ sub_name ops (en_sub e)))
        (calls @ [Call_Start (sub_name ops (en_sub e))]) = (es', a', calls', r)"
      using Cons.prems(1) st Inr by (simp add: Let_def)
    have nm: "names ops (front @ [?e]) = names ops front @ [sub_name ops (en_sub e)]"
      using name_started [OF st] by (simp add: names_def)
    have ne: "names ops (e # es) = sub_name ops (en_sub e) # names ops es" by (simp add: names_def)
    have pre: "\<forall>e \<in> set es. \<not> en_running e"
      "\<forall>e \<in> set (front @ [?e]). en_running e \<and> en_health e = sub_health ops (en_sub e)"
      using Cons.prems(2,3) by auto
    note IH = Cons.IH [OF run pre, unfolded nm]
    show ?thesis
    proof (cases r)
      case (Inl err)
      with IH obtain i where "i < length es"
        "calls' = (calls @ [Call_Start (sub_name ops (en_sub e))]) @ map Call_Start (take (Suc i) (names ops es)) @
           map Call_Stop (rev ((names ops front @ [sub_name ops (en_sub e)]) @ take i (names ops es)))"
        by auto
      with IH Inl ne show ?thesis by (intro conjI) (auto intro!: exI [of _ "Suc i"])
    qed (use IH ne in auto)
  next
    case (Inl err)
    let ?all = "front @ e\<lparr>en_sub := s, en_health := Unhealthy\<rparr> # es"
    have eqs: "es' = map (stop_if_running ops) ?all" "r = Inl err"
      "calls' = (calls @ [Call_Start (sub_name ops (en_sub e))]) @
         map (\<lambda>e. Call_Stop (sub_name ops (en_sub e))) (filter en_running (rev ?all))"
      using Cons.prems(1) st Inl by (auto simp: Let_def stop_started_reverse_def)
    have flt: "filter en_running (rev ?all) = rev front"
      using Cons.prems(2,3) by (auto simp: filter_id_conv filter_empty_conv)
    have calls': "calls' = calls @ [Call_Start (sub_name ops (en_sub e))] @
        map Call_Stop (rev (names ops front))"
      unfolding eqs(3) flt by (simp add: names_def rev_map comp_def)
    have "names ops es' = names ops front @ names ops (e # es)" "\<forall>e \<in> set es'. \<not> en_running e"
      using eqs(1) name_started [OF st] by (auto simp: names_def stop_if_running_simps)
    moreover have "\<exists>i < length (e # es). calls' = calls @ map Call_Start (take (Suc i) (names ops (e # es))) @
        map Call_Stop (rev (names ops front @ take i (names ops (e # es))))"
      unfolding calls' by (intro exI [of _ 0]) (simp add: names_def)
    ultimately show ?thesis using eqs(2) by simp
  qed
qed

lemma tick_entry_facts:
  assumes "tick_entry ops lg m e a = Some (e', a', calls)"
  shows "sub_name ops (en_sub e') = sub_name ops (en_sub e)"
    and "en_restarts e \<le> m \<Longrightarrow> en_restarts e' \<le> m"
    and "en_restarts e \<le> m \<Longrightarrow> unat (en_restarts e') =
      unat (en_restarts e) + starts calls"
    and "\<not> en_running e \<Longrightarrow> e' = e \<and> calls = []"
    and "en_running e \<Longrightarrow> en_health e' = sub_health ops (en_sub e')"
proof -
  have stop_name: "sub_stop ops s = (s', r) \<Longrightarrow> sub_name ops s' = sub_name ops s" for s s' r
    using name_stop [of s] by simp
  have inc: "unat (n + 1) = Suc (unat n)" "n + 1 \<le> m" if "n < m" for n
  proof -
    have "unat n + 1 < 2 ^ 32"
    proof -
      have "unat m < 2 ^ LENGTH(32)" by (rule unsigned_less)
      with that show ?thesis by (simp add: word_less_nat_alt)
    qed
    then show "unat (n + 1) = Suc (unat n)" by (simp add: unat_word_ariths)
    show "n + 1 \<le> m" using that by (rule inc_le)
  qed
  show "sub_name ops (en_sub e') = sub_name ops (en_sub e)"
    using assms by (auto simp: tick_entry_def Let_def bind_eq_Some_conv name_start name_stop
        dest: name_tick split: if_splits)
  show "\<not> en_running e \<Longrightarrow> e' = e \<and> calls = []" using assms by (simp add: tick_entry_def)
  show "en_running e \<Longrightarrow> en_health e' = sub_health ops (en_sub e')"
    using assms by (auto simp: tick_entry_def Let_def bind_eq_Some_conv split: if_splits)
  show "en_restarts e \<le> m \<Longrightarrow> en_restarts e' \<le> m"
    using assms inc(2) by (auto simp: tick_entry_def Let_def bind_eq_Some_conv split: if_splits)
  show "en_restarts e \<le> m \<Longrightarrow> unat (en_restarts e') =
      unat (en_restarts e) + starts calls"
    using assms inc(1) by (auto simp: tick_entry_def Let_def bind_eq_Some_conv starts_def split: if_splits)
qed

lemma ticks:
  "tick_loop ops lg m es a = Some (es', a', calls) \<Longrightarrow> \<forall>e \<in> set es. en_restarts e \<le> m \<Longrightarrow>
   names ops es' = names ops es \<and> (\<forall>e \<in> set es'. en_restarts e \<le> m) \<and>
   restarts_sum es' = restarts_sum es + starts calls \<and>
   list_all2 (\<lambda>e e'. if en_running e then en_health e' = sub_health ops (en_sub e') else e' = e) es es'"
proof (induction es arbitrary: a es' calls)
  case (Cons e es)
  then obtain e' a1 c1 es1 c2 where st: "tick_entry ops lg m e a = Some (e', a1, c1)"
    "tick_loop ops lg m es a1 = Some (es1, a', c2)" "es' = e' # es1" "calls = c1 @ c2"
    by (auto simp: bind_eq_Some_conv)
  with Cons.IH [OF st(2)] tick_entry_facts [OF st(1)] Cons.prems(2) show ?case
    by (auto simp: names_def restarts_sum_def)
qed (auto simp: names_def restarts_sum_def)

lemma stop_subsystem_running:
  assumes "n \<in> set (running_names ops (sv_entries v))"
  obtains v' r where "stop_subsystem ops v n = (v', [Call_Stop n], r)"
    "mset (running_names ops (sv_entries v)) = add_mset n (mset (running_names ops (sv_entries v')))"
    "names ops (sv_entries v') = names ops (sv_entries v)"
proof -
  let ?P = "\<lambda>e. sub_name ops (en_sub e) = n \<and> en_running e"
  let ?f = "\<lambda>e. e\<lparr>en_sub := fst (sub_stop ops (en_sub e)), en_running := False\<rparr>"
  have ex: "\<exists>e \<in> set (sv_entries v). ?P e" using assms by (auto simp: running_names_def names_def)
  then obtain e where e: "find ?P (sv_entries v) = Some e"
    by (metis (mono_tags, lifting) find_None_iff not_Some_eq)
  have upd: "mset (running_names ops es) = add_mset n (mset (running_names ops (update_first ?P ?f es))) \<and>
      names ops (update_first ?P ?f es) = names ops es" if "\<exists>e \<in> set es. ?P e" for es
    using that by (induction es) (auto simp: running_names_def names_def name_stop)
  show thesis
    by (rule that [of "v\<lparr>sv_entries := update_first ?P ?f (sv_entries v)\<rparr>"])
      (use e upd [OF ex] in \<open>simp_all add: stop_subsystem_def Let_def\<close>)
qed

lemma drain:
  "mset ns = mset (running_names ops (sv_entries v)) \<Longrightarrow>
   shutdown_loop ops v ns = (v', calls, ok, bad) \<Longrightarrow>
   running_names ops (sv_entries v') = [] \<and> names ops (sv_entries v') = names ops (sv_entries v) \<and>
   calls = map Call_Stop ns \<and> mset ns = mset ok + mset bad \<and> subseq ok ns \<and> subseq bad ns"
proof (induction ns arbitrary: v v' calls ok bad)
  case (Cons n ns)
  from Cons.prems(1) have "n \<in> set (running_names ops (sv_entries v))"
    by (metis list.set_intros(1) mset_eq_setD)
  then obtain w r where w: "stop_subsystem ops v n = (w, [Call_Stop n], r)"
    "mset (running_names ops (sv_entries v)) = add_mset n (mset (running_names ops (sv_entries w)))"
    "names ops (sv_entries w) = names ops (sv_entries v)"
    by (rule stop_subsystem_running)
  obtain v2 c2 ok2 bad2 where rest: "shutdown_loop ops w ns = (v2, c2, ok2, bad2)"
    by (cases "shutdown_loop ops w ns")
  have "mset ns = mset (running_names ops (sv_entries w))" using Cons.prems(1) w(2) by simp
  from Cons.IH [OF this rest] Cons.prems(2) w(1,3) rest show ?case
    by (auto split: if_splits)
qed (auto simp: running_names_def names_def)

end

interpretation stub: subsystem "stub_ops p" for p
  by unfold_locales
    (auto simp: stub_ops_def stub_start_def stub_stop_def stub_tick_def bind_eq_Some_conv Let_def
      split: if_splits)

text \<open>Successive ticks.\<close>

fun tick_many ::
  "'s subsystem_ops \<Rightarrow> 'a log_op \<Rightarrow> nat \<Rightarrow> 's supervisor \<Rightarrow> 'a \<Rightarrow> ('s supervisor \<times> 'a \<times> call list) option" where
  "tick_many ops lg 0 v a = Some (v, a, [])"
| "tick_many ops lg (Suc n) v a = do {
     (v', a', calls, _) \<leftarrow> tick_all ops lg v a;
     (v'', a'', calls') \<leftarrow> tick_many ops lg n v' a';
     Some (v'', a'', calls @ calls')
   }"

lemma names_empty_running: "running_names ops es = [] \<longleftrightarrow> (\<forall>e \<in> set es. \<not> en_running e)"
  by (auto simp: running_names_def names_def filter_empty_conv)

lemma sum_le: "\<forall>x \<in> set xs. f x \<le> (c :: nat) \<Longrightarrow> sum_list (map f xs) \<le> c * length xs"
  by (induction xs) auto

lemma tick_many_facts:
  assumes "subsystem ops" "\<forall>e \<in> set (sv_entries v). en_restarts e \<le> sv_max_restarts v"
    and "tick_many ops lg n v a = Some (v', a', calls)"
  shows "names ops (sv_entries v') = names ops (sv_entries v) \<and>
    (\<forall>e \<in> set (sv_entries v'). en_restarts e \<le> sv_max_restarts v) \<and>
    restarts_sum (sv_entries v') = restarts_sum (sv_entries v) + starts calls \<and>
    starts calls \<le> unat (sv_max_restarts v) * length (sv_entries v) \<and>
    list_all2 (\<lambda>e e'. en_running e \<or> e' = e) (sv_entries v) (sv_entries v')"
  using assms(2,3)
proof (induction n arbitrary: v a calls)
  case 0
  then show ?case by (auto simp: list.rel_refl)
next
  case (Suc n)
  from Suc.prems(2) obtain w a1 c1 h c2 where st: "tick_all ops lg v a = Some (w, a1, c1, h)"
    "tick_many ops lg n w a1 = Some (v', a', c2)" "calls = c1 @ c2"
    by (auto simp: bind_eq_Some_conv)
  then have loop: "tick_loop ops lg (sv_max_restarts v) (sv_entries v) a = Some (sv_entries w, a1, c1)"
    "sv_max_restarts w = sv_max_restarts v"
    by (auto simp: tick_all_def bind_eq_Some_conv)
  note one = subsystem.ticks [OF assms(1) loop(1) Suc.prems(1)]
  have pre: "\<forall>e \<in> set (sv_entries w). en_restarts e \<le> sv_max_restarts w" using one loop(2) by simp
  note rest = Suc.IH [OF pre st(2)]
  have len: "length (sv_entries w) = length (sv_entries v)" "length (sv_entries v') = length (sv_entries v)"
    using one rest by (metis names_def length_map)+
  have sums: "restarts_sum (sv_entries v') = restarts_sum (sv_entries v) + starts calls"
    using one rest st(3) by simp
  have "restarts_sum (sv_entries v') \<le> unat (sv_max_restarts v) * length (sv_entries v')"
    unfolding restarts_sum_def
    using rest loop(2) by (intro sum_le) (simp add: word_le_nat_alt)
  moreover have "list_all2 (\<lambda>e e'. en_running e \<or> e' = e) (sv_entries v) (sv_entries v')"
  proof (rule list_all2_trans [where ?P1.0 = "\<lambda>e e'. en_running e \<or> e' = e"
        and ?P2.0 = "\<lambda>e e'. en_running e \<or> e' = e"])
    show "list_all2 (\<lambda>e e'. en_running e \<or> e' = e) (sv_entries v) (sv_entries w)"
      by (rule list_all2_mono [OF conjunct2 [OF conjunct2 [OF conjunct2 [OF one]]]]) (auto split: if_splits)
    show "list_all2 (\<lambda>e e'. en_running e \<or> e' = e) (sv_entries w) (sv_entries v')" using rest by blast
  qed auto
  ultimately show ?case using one rest loop(2) sums len by simp
qed

lemma tick_entry_failed:
  "tick_entry ops lg m e a = Some (e', a', calls) \<Longrightarrow> en_running e \<Longrightarrow>
   sub_tick ops (en_sub e) = Some (s, Inl err) \<Longrightarrow> snd (sub_start ops (fst (sub_stop ops s))) = Inl err' \<Longrightarrow>
   \<not> en_running e' \<and> en_restarts e' \<in> {en_restarts e, en_restarts e + 1}"
  by (auto simp: tick_entry_def Let_def split: if_splits)

lemma tick_loop_nth:
  "tick_loop ops lg m es a = Some (es', a', calls) \<Longrightarrow> j < length es \<Longrightarrow>
   \<exists>b b' c. tick_entry ops lg m (es ! j) b = Some (es' ! j, b', c)"
proof (induction es arbitrary: a es' calls j)
  case (Cons e es)
  then obtain e' a1 c1 es1 c2 where st: "tick_entry ops lg m e a = Some (e', a1, c1)"
    "tick_loop ops lg m es a1 = Some (es1, a', c2)" "es' = e' # es1"
    by (auto simp: bind_eq_Some_conv)
  then show ?case using Cons.IH [OF st(2)] Cons.prems(2) by (cases j) auto
qed simp

section \<open>Properties\<close>


definition demo_sv :: "stub supervisor" where
  "demo_sv = sv_register (sv_register (sv_register (new_supervisor 2 0) (new_stub ''a''))
     (failing_ticks (new_stub ''b'') 3)) (failing_starts (new_stub ''c'') 1)"

lemma demo_sv_entries:
  "sv_entries demo_sv = map (\<lambda>s. \<lparr>en_sub = s, en_restarts = 0, en_health = Healthy, en_running = False\<rparr>)
     [new_stub ''a'', failing_ticks (new_stub ''b'') 3, failing_starts (new_stub ''c'') 1]"
  "sv_max_restarts demo_sv = 2"
  by (simp_all add: demo_sv_def sv_register_def new_supervisor_def)

lemma demo_sv_boot:
  "start_all (stub_ops Checked) (\<lambda>a _ _. a) demo_sv () =
     (fst (start_all (stub_ops Checked) (\<lambda>a _ _. a) demo_sv ()), (),
      [Call_Start ''a'', Call_Start ''b'', Call_Start ''c'', Call_Stop ''b'', Call_Stop ''a''],
      Inl ''c: simulated start failure'')"
  by (simp add: start_all_def demo_sv_entries Let_def stub_ops_def stub_start_def new_stub_def
      failing_ticks_def failing_starts_def stop_started_reverse_def split: prod.splits)


text \<open>
  C17: The restart budget. Over any number of ticks the subsystems keep their names and order, no
  restart counter exceeds the configured maximum, the counters account for every start call, so
  that there are at most \<open>max_restarts\<close> of them per subsystem, and a subsystem that is not running
  is never touched again.
\<close>

theorem restart_budget:
  assumes "subsystem ops" "\<forall>e \<in> set (sv_entries v). en_restarts e \<le> sv_max_restarts v"
    and "tick_many ops lg n v a = Some (v', a', calls)"
  shows "names ops (sv_entries v') = names ops (sv_entries v) \<and>
    (\<forall>e \<in> set (sv_entries v'). en_restarts e \<le> sv_max_restarts v) \<and>
    restarts_sum (sv_entries v') = restarts_sum (sv_entries v) + starts calls \<and>
    starts calls \<le> unat (sv_max_restarts v) * length (sv_entries v) \<and>
    list_all2 (\<lambda>e e'. en_running e \<or> e' = e) (sv_entries v) (sv_entries v')"
  by (rule tick_many_facts [OF assms])

definition demo_running :: "stub supervisor" where
  "demo_running = \<lparr>sv_entries =
     [\<lparr>en_sub = (failing_ticks (new_stub ''b'') 3)\<lparr>st_started := True\<rparr>, en_restarts = 0,
       en_health = Healthy, en_running = True\<rparr>], sv_max_restarts = 2, sv_backoff_ms = 0\<rparr>"

lemma restart_budget_witness:
  "\<exists>v' calls. tick_many (stub_ops Checked) (\<lambda>a _ _. a) 1 demo_running () = Some (v', (), calls) \<and>
     starts calls = 1 \<and> starts calls \<le> unat (2 :: u32) * 1"
proof -
  have "\<exists>v' calls. tick_many (stub_ops Checked) (\<lambda>a _ _. a) 1 demo_running () = Some (v', (), calls) \<and>
      calls = [Call_Tick ''b'', Call_Stop ''b'', Call_Start ''b'']"
    by (simp add: tick_all_def demo_running_def tick_entry_def stub_ops_def stub_tick_def Let_def
        new_stub_def failing_ticks_def stub_stop_def stub_start_def)
  then obtain v' calls where run:
    "tick_many (stub_ops Checked) (\<lambda>a _ _. a) 1 demo_running () = Some (v', (), calls)"
    "calls = [Call_Tick ''b'', Call_Stop ''b'', Call_Start ''b'']" by blast
  have "\<forall>e \<in> set (sv_entries demo_running). en_restarts e \<le> sv_max_restarts demo_running"
    by (simp add: demo_running_def)
  from restart_budget [OF stub.subsystem_axioms this run(1)]
  have "starts calls \<le> unat (2 :: u32) * 1" by (simp add: demo_running_def)
  with run show ?thesis by (simp add: starts_def)
qed

text \<open>
  A failed restart is final, whatever budget is left: if a subsystem's tick fails and the
  start of its restart fails too, it is marked not running, and no later tick ever tries again,
  although its restart counter may still be below the maximum.
\<close>

theorem failed_restart_is_final:
  assumes "subsystem ops" "\<forall>e \<in> set (sv_entries v). en_restarts e \<le> sv_max_restarts v"
    and "i < length (sv_entries v)" "en_running (sv_entries v ! i)"
    and "sub_tick ops (en_sub (sv_entries v ! i)) = Some (s, Inl err)"
    and "snd (sub_start ops (fst (sub_stop ops s))) = Inl err'"
    and "tick_many ops lg (Suc n) v a = Some (v', a', calls)"
  shows "\<not> en_running (sv_entries v' ! i) \<and>
    en_restarts (sv_entries v' ! i) \<in> {en_restarts (sv_entries v ! i), en_restarts (sv_entries v ! i) + 1}"
proof -
  obtain w a1 c1 h c2 where st: "tick_all ops lg v a = Some (w, a1, c1, h)"
    "tick_many ops lg n w a1 = Some (v', a', c2)"
    using assms(7) by (auto simp: bind_eq_Some_conv)
  then have loop: "tick_loop ops lg (sv_max_restarts v) (sv_entries v) a = Some (sv_entries w, a1, c1)"
    "sv_max_restarts w = sv_max_restarts v"
    by (auto simp: tick_all_def bind_eq_Some_conv)
  obtain b b' c where "tick_entry ops lg (sv_max_restarts v) (sv_entries v ! i) b =
      Some (sv_entries w ! i, b', c)"
    using tick_loop_nth [OF loop(1) assms(3)] by blast
  note down = tick_entry_failed [OF this assms(4-6)]
  note one = subsystem.ticks [OF assms(1) loop(1) assms(2)]
  have "length (sv_entries w) = length (sv_entries v)" using one by (metis names_def length_map)
  moreover have "\<forall>e \<in> set (sv_entries w). en_restarts e \<le> sv_max_restarts w" using one loop(2) by simp
  ultimately have "sv_entries v' ! i = sv_entries w ! i"
    using tick_many_facts [OF assms(1) _ st(2)] down assms(3) by (auto dest!: list_all2_nthD)
  with down show ?thesis by simp
qed

definition demo_failing :: "stub supervisor" where
  "demo_failing = \<lparr>sv_entries =
     [\<lparr>en_sub = (failing_starts (failing_ticks (new_stub ''b'') 3) 1)\<lparr>st_started := True\<rparr>,
       en_restarts = 0, en_health = Healthy, en_running = True\<rparr>], sv_max_restarts = 2, sv_backoff_ms = 0\<rparr>"

lemma failed_restart_is_final_witness:
  "\<exists>v' calls. tick_many (stub_ops Checked) (\<lambda>a _ _. a) (Suc 0) demo_failing () = Some (v', (), calls) \<and>
     \<not> en_running (sv_entries v' ! 0)"
proof -
  have "tick_many (stub_ops Checked) (\<lambda>a _ _. a) (Suc 0) demo_failing () \<noteq> None"
    by (simp add: tick_all_def demo_failing_def tick_entry_def stub_ops_def stub_tick_def Let_def
        new_stub_def failing_ticks_def failing_starts_def stub_stop_def stub_start_def)
  then obtain v' calls where run:
    "tick_many (stub_ops Checked) (\<lambda>a _ _. a) (Suc 0) demo_failing () = Some (v', (), calls)"
    by auto
  have "\<not> en_running (sv_entries v' ! 0) \<and>
      en_restarts (sv_entries v' ! 0) \<in> {en_restarts (sv_entries demo_failing ! 0), en_restarts (sv_entries demo_failing ! 0) + 1}"
    by (rule failed_restart_is_final [OF stub.subsystem_axioms _ _ _ _ _ run,
          where err = "''b: simulated tick failure''" and err' = "''b: simulated start failure''"])
      (simp_all add: demo_failing_def stub_ops_def stub_tick_def Let_def new_stub_def failing_ticks_def
        failing_starts_def stub_stop_def stub_start_def, simp)
  with run show ?thesis by blast
qed



end
