(* ===== verification/Node_Main.thy ===== *)
theory Node_Main imports Supervisor Node_Audit begin

text \<open>
  \<open>kai-os/node/src/config.rs\<close>, \<open>lib.rs\<close> and \<open>main.rs\<close>: the validated configuration, the root
  guard, and the daemon's run from boot to exit. \<open>parse\<close> is the JSON parser for the
  configuration, \<open>rj\<close> the JSON printer of the shutdown report.
\<close>

section \<open>Configuration\<close>

definition KNOWN_SUBSYSTEMS :: "string list" where
  "KNOWN_SUBSYSTEMS =
     [''consensus'', ''p2p'', ''state-sync'', ''ai-runtime'', ''storage'', ''security'']"

record node_config =
  node_name :: string
  data_dir :: string
  allow_root :: bool
  max_restarts :: u32
  restart_backoff_ms :: u64
  tick_interval_ms :: u64
  shutdown_timeout_ms :: u64
  enabled_subsystems :: "string list"

datatype config_error = Cfg_Read io_error | Cfg_Parse | Cfg_Validation string

definition cfg_validate :: "node_config \<Rightarrow> config_error + unit" where
  "cfg_validate c =
     (if trim_is_empty (node_name c) then Inl (Cfg_Validation ''node_name empty'')
      else if trim_is_empty (data_dir c) then Inl (Cfg_Validation ''data_dir empty'')
      else if max_restarts c < 1 \<or> 10 < max_restarts c
      then Inl (Cfg_Validation ''max_restarts out of range [1,10]'')
      else if 60000 < restart_backoff_ms c then Inl (Cfg_Validation ''restart_backoff_ms > 60000'')
      else if tick_interval_ms c = 0 then Inl (Cfg_Validation ''tick_interval_ms must be > 0'')
      else if shutdown_timeout_ms c = 0 then Inl (Cfg_Validation ''shutdown_timeout_ms must be > 0'')
      else if enabled_subsystems c = [] then Inl (Cfg_Validation ''enabled_subsystems empty'')
      else
        (case find (\<lambda>s. s \<notin> set KNOWN_SUBSYSTEMS) (enabled_subsystems c) of
           Some s \<Rightarrow> Inl (Cfg_Validation (''unknown subsystem '' @ [CHR 0x27] @ s @ [CHR 0x27]))
         | None \<Rightarrow> Inr ()))"

definition cfg_from_json :: "(string \<Rightarrow> node_config option) \<Rightarrow> string \<Rightarrow> config_error + node_config" where
  "cfg_from_json parse json =
     (case parse json of
        None \<Rightarrow> Inl Cfg_Parse
      | Some c \<Rightarrow> (case cfg_validate c of Inl e \<Rightarrow> Inl e | Inr _ \<Rightarrow> Inr c))"

definition cfg_from_file ::
  "(string \<Rightarrow> node_config option) \<Rightarrow> fs \<Rightarrow> string \<Rightarrow> config_error + node_config" where
  "cfg_from_file parse f path =
     (case read_to_string f path of Inl e \<Rightarrow> Inl (Cfg_Read e) | Inr raw \<Rightarrow> cfg_from_json parse raw)"

definition default_for_test :: node_config where
  "default_for_test =
     \<lparr>node_name = ''test-node'', data_dir = ''/tmp/kai-os-test'', allow_root = False,
      max_restarts = 3, restart_backoff_ms = 0, tick_interval_ms = 10, shutdown_timeout_ms = 1000,
      enabled_subsystems = KNOWN_SUBSYSTEMS\<rparr>"

text \<open>The text of the refusal is left out.\<close>

definition ensure_not_root :: "bool \<Rightarrow> u32 \<Rightarrow> bool" where
  "ensure_not_root allow euid = (\<not> (euid = 0 \<and> \<not> allow))"

section \<open>The daemon's run\<close>

text \<open>The audit log with its file, and the outcomes of the writes to come.\<close>

record audit_state =
  as_fs :: fs
  as_log :: audit_logger
  as_outcomes :: "write_outcome list"

definition as_record :: "digest \<Rightarrow> event_printer \<Rightarrow> audit_state log_op" where
  "as_record D pr a kind detail =
     (let w = (case as_outcomes a of [] \<Rightarrow> Written | w # _ \<Rightarrow> w) in
      case al_record D pr w (as_fs a) (as_log a) kind detail of
        (f, l, _) \<Rightarrow> \<lparr>as_fs = f, as_log = l, as_outcomes = tl (as_outcomes a)\<rparr>)"

record node_run =
  nr_exit :: int
  nr_audit :: audit_state
  nr_lifecycle :: "unit lifecycle"
  nr_supervisor :: "stub supervisor"
  nr_calls :: "call list"

abbreviation lc_go :: "unit lifecycle \<Rightarrow> lstate \<Rightarrow> unit lifecycle" where
  "lc_go l t \<equiv> fst (transition (\<lambda>_ _ _. ()) l t)"

definition register_enabled :: "node_config \<Rightarrow> stub supervisor" where
  "register_enabled c =
     foldl (\<lambda>v name. if name \<in> set KNOWN_SUBSYSTEMS then sv_register v (new_stub name) else v)
       (new_supervisor (max_restarts c) (restart_backoff_ms c)) (enabled_subsystems c)"

text \<open>\<open>n\<close> rounds of the tick loop before the shutdown flag is seen.\<close>

fun node_loop ::
  "profile \<Rightarrow> audit_state log_op \<Rightarrow> nat \<Rightarrow> stub supervisor \<times> unit lifecycle \<times> audit_state \<times> call list \<Rightarrow>
   (stub supervisor \<times> unit lifecycle \<times> audit_state \<times> call list) option" where
  "node_loop p lg 0 (v, l, a, calls) = Some (v, l, lg a ''daemon'' ''shutdown requested (signal)'', calls)"
| "node_loop p lg (Suc n) (v, l, a, calls) = do {
     (v', a', c, h) \<leftarrow> tick_all (stub_ops p) lg v a;
     let (l', a'') =
       (if h = Healthy then
          (if lc_current l = LDegraded
           then (lc_go l Running, lg a' ''lifecycle'' ''Degraded -> Running (recovered)'') else (l, a'))
        else
          (if lc_current l = Running
           then (lc_go l LDegraded, lg a' ''lifecycle'' ''Running -> Degraded (unhealthy subsystem)'')
           else (l, a')));
     node_loop p lg n (v', l', a'', calls @ c)
   }"

definition node_stop ::
  "profile \<Rightarrow> audit_state log_op \<Rightarrow> (shutdown_report \<Rightarrow> string) \<Rightarrow>
   stub supervisor \<times> unit lifecycle \<times> audit_state \<times> call list \<Rightarrow> node_run" where
  "node_stop p lg rj s =
     (case s of (v, l, a, calls) \<Rightarrow>
        let l1 = lc_go l Shutdown;
            a1 = lg a ''lifecycle'' ''-> Shutdown'' in
        case shutdown_all (stub_ops p) v of
          (v', c, report) \<Rightarrow>
            let a2 = lg a1 ''shutdown'' (map (\<lambda>x. if x = CHR 0x0A then CHR '' '' else x) (rj report));
                l2 = lc_go l1 Stopped;
                a3 = lg a2 ''lifecycle'' ''Shutdown -> Stopped''
            in \<lparr>nr_exit = 0, nr_audit = a3, nr_lifecycle = l2, nr_supervisor = v', nr_calls = calls @ c\<rparr>)"

text \<open>
  After the checks: boot, loop, stop. The two \<open>expect\<close> calls panic when the transition is refused.
\<close>

definition node_boot ::
  "profile \<Rightarrow> audit_state log_op \<Rightarrow> (shutdown_report \<Rightarrow> string) \<Rightarrow> node_config \<Rightarrow> u32 \<Rightarrow> bool \<Rightarrow> nat \<Rightarrow>
   audit_state \<Rightarrow> node_run option" where
  "node_boot p lg rj c euid handler_ok n a0 =
     (let a1 = lg a0 ''daemon'' (''boot: node='' @ node_name c @ '' euid='' @ show_word euid);
          t1 = transition (\<lambda>_ _ _. ()) (new_lifecycle ()) Boot in
      if \<not> is_ok (snd t1) then None
      else
        let l1 = fst t1;
            a2 = lg a1 ''lifecycle'' ''Init -> Boot'' in
        case start_all (stub_ops p) lg (register_enabled c) a2 of
          (v, a3, calls, Inl err) \<Rightarrow>
            let a4 = lg a3 ''daemon'' (''BOOT FAILED: subsystem error: '' @ err);
                l2 = lc_go l1 Shutdown;
                a5 = lg a4 ''lifecycle'' ''Boot -> Shutdown (boot failed)'';
                l3 = lc_go l2 Stopped
            in Some \<lparr>nr_exit = 1, nr_audit = a5, nr_lifecycle = l3, nr_supervisor = v, nr_calls = calls\<rparr>
        | (v, a3, calls, Inr _) \<Rightarrow>
            let t2 = transition (\<lambda>_ _ _. ()) l1 Running in
            if \<not> is_ok (snd t2) then None
            else
              let a4 = lg a3 ''lifecycle'' ''Boot -> Running'';
                  a5 = (if handler_ok then a4 else lg a4 ''daemon'' ''WARN: signal handler not installed'')
              in map_option (node_stop p lg rj) (node_loop p lg n (v, fst t2, a5, calls)))"

text \<open>\<open>None\<close> is a panic, \<open>Some (Inl code)\<close> an exit before anything was set up.\<close>

definition node_main ::
  "profile \<Rightarrow> digest \<Rightarrow> event_printer \<Rightarrow> (string \<Rightarrow> node_config option) \<Rightarrow> (shutdown_report \<Rightarrow> string) \<Rightarrow>
   fs \<Rightarrow> string \<Rightarrow> u32 \<Rightarrow> bool \<Rightarrow> bool \<Rightarrow> write_outcome list \<Rightarrow> nat \<Rightarrow> (int + node_run) option" where
  "node_main p D pr parse rj f path euid mkdir_ok handler_ok outcomes n =
     (case cfg_from_file parse f path of
        Inl _ \<Rightarrow> Some (Inl 2)
      | Inr c \<Rightarrow>
          if \<not> ensure_not_root (allow_root c) euid then Some (Inl 2)
          else
            (case to_file mkdir_ok (data_dir c @ ''/audit.log'') of
               Inl _ \<Rightarrow> Some (Inl 2)
             | Inr l \<Rightarrow>
                 map_option Inr
                   (node_boot p (as_record D pr) rj c euid handler_ok n
                     \<lparr>as_fs = f, as_log = l, as_outcomes = outcomes\<rparr>)))"

section \<open>Lemmas\<close>

lemma cfg_validate_ok_iff:
  "cfg_validate c = Inr () \<longleftrightarrow>
     \<not> trim_is_empty (node_name c) \<and> \<not> trim_is_empty (data_dir c) \<and>
     max_restarts c \<in> {1..10} \<and> restart_backoff_ms c \<le> 60000 \<and> tick_interval_ms c \<noteq> 0 \<and>
     shutdown_timeout_ms c \<noteq> 0 \<and> enabled_subsystems c \<noteq> [] \<and>
     set (enabled_subsystems c) \<subseteq> set KNOWN_SUBSYSTEMS"
proof -
  have one_le: "1 \<le> w \<longleftrightarrow> w \<noteq> 0" for w :: u32
    by (simp add: word_le_nat_alt Suc_le_eq unat_gt_0)
  have "find (\<lambda>s. s \<notin> set KNOWN_SUBSYSTEMS) (enabled_subsystems c) = None \<longleftrightarrow>
      set (enabled_subsystems c) \<subseteq> set KNOWN_SUBSYSTEMS"
    by (auto simp: find_None_iff)
  then show ?thesis
    using one_le by (auto simp: cfg_validate_def not_less split: option.splits)
qed

lemma cfg_from_file_ok:
  "cfg_from_file parse f path = Inr c \<Longrightarrow>
   cfg_validate c = Inr () \<and> (\<exists>raw. read_to_string f path = Inr raw \<and> parse raw = Some c)"
  by (auto simp: cfg_from_file_def cfg_from_json_def split: sum.splits option.splits)

text \<open>Every audit state the run goes through verifies.\<close>

definition as_ok :: "digest \<Rightarrow> audit_state \<Rightarrow> bool" where
  "as_ok D a = verify_chain D (as_log a)"

lemma as_record_ok [simp]: "as_ok D a \<Longrightarrow> as_ok D (as_record D pr a kind detail)"
proof -
  assume a: "as_ok D a"
  let ?w = "case as_outcomes a of [] \<Rightarrow> Written | w # _ \<Rightarrow> w"
  obtain f l r where rec: "al_record D pr ?w (as_fs a) (as_log a) kind detail = (f, l, r)"
    by (cases "al_record D pr ?w (as_fs a) (as_log a) kind detail")
  from al_record_cases [OF rec] a verify_push [of D "as_log a"] have "verify_chain D l"
    by (auto simp: as_ok_def)
  with rec show ?thesis by (simp add: as_record_def as_ok_def Let_def)
qed

text \<open>The entries of a run: fresh stubs, and stubs that have ticked \<open>k\<close> times.\<close>

definition fresh_entry :: "string \<Rightarrow> stub entry" where
  "fresh_entry name =
     \<lparr>en_sub = new_stub name, en_restarts = 0, en_health = Healthy, en_running = False\<rparr>"

definition live_entry :: "nat \<Rightarrow> string \<Rightarrow> stub entry" where
  "live_entry k name =
     \<lparr>en_sub = (new_stub name)\<lparr>st_started := True, st_ticks := of_nat k\<rparr>, en_restarts = 0,
      en_health = Healthy, en_running = True\<rparr>"

lemma register_enabled_entries:
  "set (enabled_subsystems c) \<subseteq> set KNOWN_SUBSYSTEMS \<Longrightarrow>
   sv_entries (register_enabled c) = map fresh_entry (enabled_subsystems c)"
proof -
  have "set xs \<subseteq> set KNOWN_SUBSYSTEMS \<Longrightarrow>
      sv_entries (foldl (\<lambda>v name. if name \<in> set KNOWN_SUBSYSTEMS then sv_register v (new_stub name) else v) v xs) =
      sv_entries v @ map fresh_entry xs" for v xs
    by (induction xs arbitrary: v) (auto simp: sv_register_def fresh_entry_def)
  then show "set (enabled_subsystems c) \<subseteq> set KNOWN_SUBSYSTEMS \<Longrightarrow> ?thesis"
    by (simp add: register_enabled_def new_supervisor_def)
qed

lemma start_fresh:
  "start_loop (stub_ops p) lg front (map fresh_entry ns) a calls =
     (front @ map (live_entry 0) ns, foldl (\<lambda>a n. lg a ''supervisor'' (''started '' @ n)) a ns,
      calls @ map Call_Start ns, Inr ())"
  by (induction ns arbitrary: front a calls)
    (simp_all add: Let_def stub_ops_def stub_start_def stub_health_def fresh_entry_def live_entry_def
      new_stub_def)

lemma tick_live:
  "p = Wrapping \<or> Suc k < 2 ^ 32 \<Longrightarrow>
   tick_loop (stub_ops p) lg m (map (live_entry k) ns) a =
     Some (map (live_entry (Suc k)) ns, a, map Call_Tick ns)"
proof -
  assume k: "p = Wrapping \<or> Suc k < 2 ^ 32"
  have suc: "of_nat k + 1 = (of_nat (Suc k) :: u32)" by (simp only: of_nat_Suc add.commute)
  have "add_ov p (of_nat k :: u32) 1 = Some (of_nat k + 1)"
  proof (cases "p = Wrapping")
    case False
    with k have "Suc k < 2 ^ 32" by blast
    then have "unat (of_nat k :: u32) = k" by (simp add: unat_of_nat)
    with \<open>Suc k < 2 ^ 32\<close> show ?thesis by (intro add_ov_exact) simp
  qed simp
  then have "add_ov p (of_nat k :: u32) 1 = Some (of_nat (Suc k))" by (simp only: suc)
  then have "tick_entry (stub_ops p) lg m (live_entry k n) a =
      Some (live_entry (Suc k) n, a, [Call_Tick n])" for n a
    by (simp add: tick_entry_def stub_ops_def stub_tick_def stub_health_def live_entry_def new_stub_def
        Let_def del: of_nat_Suc)
  then show ?thesis by (induction ns arbitrary: a) simp_all
qed

lemma overall_live: "overall (map (\<lambda>e. en_health e) (map (live_entry k) ns)) = Healthy"
  by (auto simp: overall_Healthy_iff live_entry_def)

lemma loop_live:
  assumes "p = Wrapping \<or> k + n < 2 ^ 32" "sv_entries v = map (live_entry k) ns"
    and "lc_current l = Running"
  shows "\<exists>v'. node_loop p lg n (v, l, a, calls) =
      Some (v', l, lg a ''daemon'' ''shutdown requested (signal)'',
        calls @ concat (replicate n (map Call_Tick ns))) \<and>
    sv_entries v' = map (live_entry (k + n)) ns"
  using assms(1,2)
proof (induction n arbitrary: k v calls)
  case (Suc n)
  have "tick_all (stub_ops p) lg v a =
      Some (v\<lparr>sv_entries := map (live_entry (Suc k)) ns\<rparr>, a, map Call_Tick ns, Healthy)"
  proof -
    have "p = Wrapping \<or> Suc k < 2 ^ 32" using Suc.prems(1) by auto
    then show ?thesis
      using tick_live [of p k lg "sv_max_restarts v" ns a] Suc.prems(2) overall_live [of "Suc k" ns]
      by (simp add: tick_all_def)
  qed
  moreover have "\<exists>v'. node_loop p lg n (v\<lparr>sv_entries := map (live_entry (Suc k)) ns\<rparr>, l, a,
        calls @ map Call_Tick ns) =
      Some (v', l, lg a ''daemon'' ''shutdown requested (signal)'',
        (calls @ map Call_Tick ns) @ concat (replicate n (map Call_Tick ns))) \<and>
    sv_entries v' = map (live_entry (Suc k + n)) ns"
    using Suc.prems(1) by (intro Suc.IH) simp_all
  ultimately show ?case using assms(3) by auto
qed simp

lemma running_live: "running_names ops (map (live_entry k) ns) = names ops (map (live_entry k) ns)"
  by (simp add: running_names_def live_entry_def comp_def)

lemma names_live: "names (stub_ops p) (map (live_entry k) ns) = ns"
  by (simp add: names_def live_entry_def stub_ops_def new_stub_def comp_def)

lemma stop_live:
  assumes "sv_entries v = map (live_entry k) ns"
  shows "\<exists>v' report. shutdown_all (stub_ops p) v = (v', map Call_Stop (rev ns), report) \<and>
    (\<forall>e \<in> set (sv_entries v'). \<not> en_running e)"
proof -
  have order: "shutdown_order (stub_ops p) v = rev ns"
    using names_live [of p k "rev ns"]
    by (simp add: assms shutdown_order_def live_entry_def comp_def names_def rev_map flip: rev_filter)
  obtain v' calls ok bad where loop: "shutdown_loop (stub_ops p) v (rev ns) = (v', calls, ok, bad)"
    by (cases "shutdown_loop (stub_ops p) v (rev ns)")
  have "mset (rev ns) = mset (running_names (stub_ops p) (sv_entries v))"
    by (simp add: assms running_live names_live)
  from stub.drain [OF this loop] show ?thesis
    by (simp add: shutdown_all_def order loop names_empty_running)
qed

section \<open>Properties\<close>

text \<open>
  C18: The daemon's run. It boots exactly when the configuration file validates, the root guard
  passes and the audit directory can be created; otherwise it exits with code 2 having started
  nothing. A run that boots and is told to stop after \<open>n\<close> rounds never panics (the tick counters
  of the subsystems are 32 bits wide), starts the enabled subsystems in order, ticks each of them
  \<open>n\<close> times, stops them in reverse order and exits with code 0 in state STOPPED with nothing
  running, and its audit log verifies, whatever happened to the writes of the log file.
\<close>

theorem node_main_run:
  assumes "p = Wrapping \<or> n < 2 ^ 32"
  shows "case cfg_from_file parse f path of
      Inl _ \<Rightarrow> node_main p D pr parse rj f path euid mkdir_ok handler_ok outs n = Some (Inl 2)
    | Inr c \<Rightarrow>
        if ensure_not_root (allow_root c) euid \<and> mkdir_ok
        then \<exists>r. node_main p D pr parse rj f path euid mkdir_ok handler_ok outs n = Some (Inr r) \<and>
          nr_exit r = 0 \<and>
          lc_history (nr_lifecycle r) =
            [(Init, Boot), (Boot, Running), (Running, Shutdown), (Shutdown, Stopped)] \<and>
          nr_calls r = map Call_Start (enabled_subsystems c) @
            concat (replicate n (map Call_Tick (enabled_subsystems c))) @
            map Call_Stop (rev (enabled_subsystems c)) \<and>
          (\<forall>e \<in> set (sv_entries (nr_supervisor r)). \<not> en_running e) \<and>
          verify_chain D (as_log (nr_audit r))
        else node_main p D pr parse rj f path euid mkdir_ok handler_ok outs n = Some (Inl 2)"
proof (cases "cfg_from_file parse f path")
  case (Inr c)
  let ?ns = "enabled_subsystems c" and ?lg = "as_record D pr"
  let ?a0 = "\<lparr>as_fs = f, as_log = \<lparr>al_events = [], al_sink = Some (data_dir c @ ''/audit.log'')\<rparr>,
      as_outcomes = outs\<rparr>"
  show ?thesis
  proof (cases "ensure_not_root (allow_root c) euid \<and> mkdir_ok")
    case True
    have known: "sv_entries (register_enabled c) = map fresh_entry ?ns"
      using cfg_from_file_ok [OF Inr] by (intro register_enabled_entries) (simp add: cfg_validate_ok_iff)
    define a2 where "a2 = ?lg (?lg ?a0 ''daemon'' (''boot: node='' @ node_name c @ '' euid='' @ show_word euid))
        ''lifecycle'' ''Init -> Boot''"
    define a3 where "a3 = foldl (\<lambda>a n. ?lg a ''supervisor'' (''started '' @ n)) a2 ?ns"
    have ok: "as_ok D a3"
    proof -
      have "as_ok D a \<Longrightarrow> as_ok D (foldl (\<lambda>a n. ?lg a ''supervisor'' (''started '' @ n)) a xs)" for a xs
        by (induction xs arbitrary: a) simp_all
      moreover have "as_ok D ?a0" by (simp add: as_ok_def verify_chain_def)
      ultimately show ?thesis by (simp add: a3_def a2_def)
    qed
    obtain v where v: "start_all (stub_ops p) ?lg (register_enabled c) a2 =
        (v, a3, map Call_Start ?ns, Inr ())" "sv_entries v = map (live_entry 0) ?ns"
      using start_fresh [of p ?lg "[]" ?ns a2 "[]"] by (simp add: start_all_def known a3_def)
    define a5 where "a5 = (let a4 = ?lg a3 ''lifecycle'' ''Boot -> Running'' in
        if handler_ok then a4 else ?lg a4 ''daemon'' ''WARN: signal handler not installed'')"
    define l where "l = \<lparr>lc_current = Running, lc_history = [(Init, Boot), (Boot, Running)], lc_audit = ()\<rparr>"
    obtain v' where v': "node_loop p ?lg n (v, l, a5, map Call_Start ?ns) =
        Some (v', l, ?lg a5 ''daemon'' ''shutdown requested (signal)'',
          map Call_Start ?ns @ concat (replicate n (map Call_Tick ?ns)))"
      "sv_entries v' = map (live_entry n) ?ns"
      using loop_live [of p 0 n v ?ns l ?lg a5 "map Call_Start ?ns"] assms v(2) by (auto simp: l_def)
    obtain v'' report where stop: "shutdown_all (stub_ops p) v' = (v'', map Call_Stop (rev ?ns), report)"
      "\<forall>e \<in> set (sv_entries v''). \<not> en_running e"
      using stop_live [OF v'(2)] by blast
    have t: "transition (\<lambda>_ _ _. ()) (new_lifecycle ()) Boot =
        (\<lparr>lc_current = Boot, lc_history = [(Init, Boot)], lc_audit = ()\<rparr>, Inr Boot)"
      "transition (\<lambda>_ _ _. ()) \<lparr>lc_current = Boot, lc_history = [(Init, Boot)], lc_audit = ()\<rparr> Running =
        (l, Inr Running)"
      by (simp_all add: transition_def new_lifecycle_def l_def)
    have boot: "node_boot p ?lg rj c euid handler_ok n ?a0 =
        Some (node_stop p ?lg rj (v', l, ?lg a5 ''daemon'' ''shutdown requested (signal)'',
          map Call_Start ?ns @ concat (replicate n (map Call_Tick ?ns))))"
      unfolding node_boot_def Let_def t fst_conv snd_conv v(1) [unfolded a2_def] prod.case sum.case
        is_ok_simps v'(1) [unfolded a5_def Let_def]
      by (simp only: is_ok_simps not_True_eq_False if_False option.map a5_def Let_def)
    have main: "node_main p D pr parse rj f path euid mkdir_ok handler_ok outs n =
        map_option Inr (node_boot p ?lg rj c euid handler_ok n ?a0)"
      using True by (simp add: node_main_def Inr to_file_def)
    have ok5: "as_ok D (?lg a5 ''daemon'' ''shutdown requested (signal)'')"
      using ok by (simp add: a5_def Let_def)
    let ?r = "node_stop p ?lg rj (v', l, ?lg a5 ''daemon'' ''shutdown requested (signal)'',
        map Call_Start ?ns @ concat (replicate n (map Call_Tick ?ns)))"
    have run: "node_main p D pr parse rj f path euid mkdir_ok handler_ok outs n = Some (Inr ?r)"
      by (simp only: main boot option.map)
    have r: "nr_exit ?r = 0" "lc_history (nr_lifecycle ?r) =
        [(Init, Boot), (Boot, Running), (Running, Shutdown), (Shutdown, Stopped)]"
      "nr_calls ?r = map Call_Start ?ns @ concat (replicate n (map Call_Tick ?ns)) @ map Call_Stop (rev ?ns)"
      "nr_supervisor ?r = v''" "as_ok D (nr_audit ?r)"
      using stop(1) ok5 by (simp_all add: node_stop_def Let_def transition_def l_def)
    show ?thesis
      unfolding Inr sum.case if_P [OF True]
      by (rule exI [of _ ?r]) (simp only: run r as_ok_def [symmetric] simp_thms, rule stop(2))
  next
    case False
    then show ?thesis by (auto simp: Inr node_main_def to_file_def)
  qed
qed (simp add: node_main_def)

lemma node_main_run_witness:
  "\<exists>r. node_main Checked demo_digest (\<lambda>_. None) (\<lambda>_. Some default_for_test) (\<lambda>_. []) [''c'' \<mapsto> []] ''c''
       1000 True True [] 2 = Some (Inr r) \<and> nr_exit r = 0 \<and>
     verify_chain demo_digest (as_log (nr_audit r))"
proof -
  have "cfg_validate default_for_test = Inr ()"
    by (simp add: cfg_validate_ok_iff default_for_test_def trim_is_empty_def KNOWN_SUBSYSTEMS_def
        ws2_def ws3_def)
  then have "cfg_from_file (\<lambda>_. Some default_for_test) [''c'' \<mapsto> []] ''c'' = Inr default_for_test"
    by (simp add: cfg_from_file_def cfg_from_json_def read_to_string_def utf8_ok_def)
  moreover have "Checked = Wrapping \<or> (2 :: nat) < 2 ^ 32" by simp
  note node_main_run [OF this, where parse = "\<lambda>_. Some default_for_test" and f = "[''c'' \<mapsto> []]"
      and path = "''c''" and D = demo_digest and pr = "\<lambda>_. None" and rj = "\<lambda>_. []" and euid = 1000
      and mkdir_ok = True and handler_ok = True and outs = "[]"]
  ultimately show ?thesis by (auto simp: ensure_not_root_def)
qed

end
