(* ===== verification/Runtime.thy ===== *)
theory Runtime imports Prelude "HOL-Library.Multiset" begin

text \<open>
  \<open>kai-os/runtime/src\<close>: capabilities (deny by default), the resource manager, the sandbox that
  checks the policy before it books resources, and the round-robin scheduler.
\<close>

section \<open>Capabilities (\<open>capability.rs\<close>)\<close>

record network_policy =
  np_outbound :: "u16 list"
  np_inbound :: "u16 list"

definition np_closed :: network_policy where
  "np_closed = \<lparr>np_outbound = [], np_inbound = []\<rparr>"

definition allows_outbound :: "network_policy \<Rightarrow> u16 \<Rightarrow> bool" where
  "allows_outbound n port = (port \<in> set (np_outbound n))"

definition allows_inbound :: "network_policy \<Rightarrow> u16 \<Rightarrow> bool" where
  "allows_inbound n port = (port \<in> set (np_inbound n))"

record capability_set =
  cap_cpu :: u64
  cap_memory :: u64
  cap_storage :: u64
  cap_network :: network_policy
  cap_syscalls :: "string list"
  cap_crypto :: bool

definition cap_validate :: "capability_set \<Rightarrow> string + unit" where
  "cap_validate c =
     (if cap_cpu c = 0 then Inl ''cpu_ms_per_tick must be > 0''
      else if cap_memory c = 0 then Inl ''memory_bytes must be > 0''
      else if cap_storage c = 0 then Inl ''storage_bytes must be > 0''
      else Inr ())"

definition allows_syscall :: "capability_set \<Rightarrow> string \<Rightarrow> bool" where
  "allows_syscall c name = (name \<in> set (cap_syscalls c))"

text \<open>The builder has the fields of the set it builds.\<close>

definition cap_builder :: capability_set where
  "cap_builder =
     \<lparr>cap_cpu = 100, cap_memory = 64 * 1024 * 1024, cap_storage = 1024 * 1024 * 1024,
      cap_network = np_closed, cap_syscalls = [], cap_crypto = False\<rparr>"

datatype cap_step =
    Cpu_Ms u64 | Memory u64 | Storage u64 | Allow_Outbound u16 | Allow_Inbound u16
  | Allow_Syscall string | Allow_Crypto

fun build_step :: "capability_set \<Rightarrow> cap_step \<Rightarrow> capability_set" where
  "build_step c (Cpu_Ms ms) = c\<lparr>cap_cpu := ms\<rparr>"
| "build_step c (Memory b) = c\<lparr>cap_memory := b\<rparr>"
| "build_step c (Storage b) = c\<lparr>cap_storage := b\<rparr>"
| "build_step c (Allow_Outbound port) =
     c\<lparr>cap_network := (cap_network c)\<lparr>np_outbound := np_outbound (cap_network c) @ [port]\<rparr>\<rparr>"
| "build_step c (Allow_Inbound port) =
     c\<lparr>cap_network := (cap_network c)\<lparr>np_inbound := np_inbound (cap_network c) @ [port]\<rparr>\<rparr>"
| "build_step c (Allow_Syscall name) = c\<lparr>cap_syscalls := cap_syscalls c @ [name]\<rparr>"
| "build_step c Allow_Crypto = c\<lparr>cap_crypto := True\<rparr>"

definition cap_build :: "cap_step list \<Rightarrow> string + capability_set" where
  "cap_build steps =
     (let c = foldl build_step cap_builder steps in
      case cap_validate c of Inl e \<Rightarrow> Inl e | Inr _ \<Rightarrow> Inr c)"

section \<open>Resources (\<open>resources.rs\<close>)\<close>

record resource_usage =
  ru_cpu :: u64
  ru_memory :: u64
  ru_storage :: u64
  ru_net_out :: u64
  ru_net_in :: u64

definition no_usage :: resource_usage where
  "no_usage = \<lparr>ru_cpu = 0, ru_memory = 0, ru_storage = 0, ru_net_out = 0, ru_net_in = 0\<rparr>"

datatype resource_error = Quota_Exceeded string u64 u64 u64 | Invalid_Free u64 u64

record resource_manager =
  rm_usage :: "string \<rightharpoonup> resource_usage"

definition new_manager :: resource_manager where
  "new_manager = \<lparr>rm_usage = Map.empty\<rparr>"

definition usage_of :: "resource_manager \<Rightarrow> string \<Rightarrow> resource_usage" where
  "usage_of m sid = (case rm_usage m sid of None \<Rightarrow> no_usage | Some u \<Rightarrow> u)"

text \<open>\<open>self.entry(id)\<close> and an update of the usage found or created.\<close>

definition set_usage :: "resource_manager \<Rightarrow> string \<Rightarrow> resource_usage \<Rightarrow> resource_manager" where
  "set_usage m sid u = m\<lparr>rm_usage := (rm_usage m)(sid \<mapsto> u)\<rparr>"

text \<open>The results are \<open>None\<close> when an addition overflows and the build checks overflows.\<close>

definition consume_cpu ::
  "profile \<Rightarrow> resource_manager \<Rightarrow> string \<Rightarrow> u64 \<Rightarrow> capability_set \<Rightarrow>
   (resource_manager \<times> (resource_error + unit)) option" where
  "consume_cpu p m sid ms c = do {
     let used = ru_cpu (usage_of m sid);
     total \<leftarrow> add_ov p used ms;
     if cap_cpu c < total then Some (m, Inl (Quota_Exceeded ''cpu'' ms (cap_cpu c) used))
     else Some (set_usage m sid ((usage_of m sid)\<lparr>ru_cpu := total\<rparr>), Inr ())
   }"

definition alloc_memory ::
  "profile \<Rightarrow> resource_manager \<Rightarrow> string \<Rightarrow> u64 \<Rightarrow> capability_set \<Rightarrow>
   (resource_manager \<times> (resource_error + unit)) option" where
  "alloc_memory p m sid bytes c = do {
     let used = ru_memory (usage_of m sid);
     total \<leftarrow> add_ov p used bytes;
     if cap_memory c < total then Some (m, Inl (Quota_Exceeded ''memory'' bytes (cap_memory c) used))
     else Some (set_usage m sid ((usage_of m sid)\<lparr>ru_memory := total\<rparr>), Inr ())
   }"

definition free_memory ::
  "resource_manager \<Rightarrow> string \<Rightarrow> u64 \<Rightarrow> resource_manager \<times> (resource_error + unit)" where
  "free_memory m sid bytes =
     (let current = ru_memory (usage_of m sid) in
      if current < bytes then (m, Inl (Invalid_Free bytes current))
      else (set_usage m sid ((usage_of m sid)\<lparr>ru_memory := current - bytes\<rparr>), Inr ()))"

definition consume_storage ::
  "profile \<Rightarrow> resource_manager \<Rightarrow> string \<Rightarrow> u64 \<Rightarrow> capability_set \<Rightarrow>
   (resource_manager \<times> (resource_error + unit)) option" where
  "consume_storage p m sid bytes c = do {
     let used = ru_storage (usage_of m sid);
     total \<leftarrow> add_ov p used bytes;
     if cap_storage c < total then Some (m, Inl (Quota_Exceeded ''storage'' bytes (cap_storage c) used))
     else Some (set_usage m sid ((usage_of m sid)\<lparr>ru_storage := total\<rparr>), Inr ())
   }"

definition record_network_out ::
  "profile \<Rightarrow> resource_manager \<Rightarrow> string \<Rightarrow> u64 \<Rightarrow> resource_manager option" where
  "record_network_out p m sid bytes =
     map_option (\<lambda>t. set_usage m sid ((usage_of m sid)\<lparr>ru_net_out := t\<rparr>))
       (add_ov p (ru_net_out (usage_of m sid)) bytes)"

definition record_network_in ::
  "profile \<Rightarrow> resource_manager \<Rightarrow> string \<Rightarrow> u64 \<Rightarrow> resource_manager option" where
  "record_network_in p m sid bytes =
     map_option (\<lambda>t. set_usage m sid ((usage_of m sid)\<lparr>ru_net_in := t\<rparr>))
       (add_ov p (ru_net_in (usage_of m sid)) bytes)"

definition reset_tick :: "resource_manager \<Rightarrow> resource_manager" where
  "reset_tick m = m\<lparr>rm_usage := (\<lambda>sid. map_option (\<lambda>u. u\<lparr>ru_cpu := 0\<rparr>) (rm_usage m sid))\<rparr>"

section \<open>The sandbox (\<open>sandbox.rs\<close>)\<close>

datatype operation =
    Compute u64 | Alloc u64 | Free u64 | Store u64
  | Network_Out u64 u16 | Network_In u64 u16 | Syscall string | Sign string

datatype outcome =
    Computed u64 | Allocated u64 | Freed u64 | Stored u64
  | Network_Sent u64 u16 | Network_Received u64 u16 | Syscalled string | Signed string

datatype sandbox_error = Denied_Op string | Resource_Error resource_error

record sandbox =
  sb_id :: string
  sb_capability :: capability_set

definition quote :: string where
  "quote = [CHR 0x27]"

fun booked ::
  "outcome \<Rightarrow> (resource_manager \<times> (resource_error + unit)) \<Rightarrow> resource_manager \<times> (sandbox_error + outcome)" where
  "booked out (m, Inl e) = (m, Inl (Resource_Error e))"
| "booked out (m, Inr _) = (m, Inr out)"

fun sb_execute ::
  "profile \<Rightarrow> digest \<Rightarrow> sandbox \<Rightarrow> operation \<Rightarrow> resource_manager \<Rightarrow>
   (resource_manager \<times> (sandbox_error + outcome)) option" where
  "sb_execute p D s (Compute ms) m =
     map_option (booked (Computed ms)) (consume_cpu p m (sb_id s) ms (sb_capability s))"
| "sb_execute p D s (Alloc b) m =
     map_option (booked (Allocated b)) (alloc_memory p m (sb_id s) b (sb_capability s))"
| "sb_execute p D s (Free b) m = Some (booked (Freed b) (free_memory m (sb_id s) b))"
| "sb_execute p D s (Store b) m =
     map_option (booked (Stored b)) (consume_storage p m (sb_id s) b (sb_capability s))"
| "sb_execute p D s (Network_Out b port) m =
     (if \<not> allows_outbound (cap_network (sb_capability s)) port
      then Some (m, Inl (Denied_Op (''outbound port '' @ show_word port @ '' not allowed (deny by default)'')))
      else map_option (\<lambda>m'. (m', Inr (Network_Sent b port))) (record_network_out p m (sb_id s) b))"
| "sb_execute p D s (Network_In b port) m =
     (if \<not> allows_inbound (cap_network (sb_capability s)) port
      then Some (m, Inl (Denied_Op (''inbound port '' @ show_word port @ '' not allowed (deny by default)'')))
      else map_option (\<lambda>m'. (m', Inr (Network_Received b port))) (record_network_in p m (sb_id s) b))"
| "sb_execute p D s (Syscall name) m =
     (if \<not> allows_syscall (sb_capability s) name
      then Some (m, Inl (Denied_Op
        (''syscall '' @ quote @ name @ quote @ '' not in allowlist (deny by default)'')))
      else Some (m, Inr (Syscalled name)))"
| "sb_execute p D s (Sign h) m =
     (if \<not> cap_crypto (sb_capability s)
      then Some (m, Inl (Denied_Op ''crypto capability not granted''))
      else Some (m, Inr (Signed (sha_str D (''sig|'' @ h)))))"

section \<open>The scheduler (\<open>scheduler.rs\<close>)\<close>

record scheduler =
  sc_order :: "string list"
  sc_cursor :: nat

definition new_scheduler :: scheduler where
  "new_scheduler = \<lparr>sc_order = [], sc_cursor = 0\<rparr>"

definition sc_register :: "scheduler \<Rightarrow> string \<Rightarrow> scheduler" where
  "sc_register s i = s\<lparr>sc_order := sc_order s @ [i]\<rparr>"

definition next_turn :: "scheduler \<Rightarrow> scheduler \<times> string option" where
  "next_turn s =
     (if sc_order s = [] then (s, None)
      else (s\<lparr>sc_cursor := (sc_cursor s + 1) mod length (sc_order s)\<rparr>,
            Some (sc_order s ! (sc_cursor s mod length (sc_order s)))))"

fun turns :: "nat \<Rightarrow> scheduler \<Rightarrow> scheduler \<times> string list" where
  "turns 0 s = (s, [])"
| "turns (Suc n) s =
     (case next_turn s of
        (s', r) \<Rightarrow> (case turns n s' of (s'', rs) \<Rightarrow> (s'', (case r of None \<Rightarrow> rs | Some i \<Rightarrow> i # rs))))"

definition one_pass :: "scheduler \<Rightarrow> scheduler \<times> string list" where
  "one_pass s = turns (length (sc_order s)) s"

section \<open>Lemmas\<close>

lemma usage_set [simp]: "usage_of (set_usage m sid u) sid' = (if sid' = sid then u else usage_of m sid')"
  by (simp add: usage_of_def set_usage_def)

lemma usage_new: "usage_of new_manager sid = no_usage"
  by (simp add: usage_of_def new_manager_def)

lemma usage_reset [simp]: "usage_of (reset_tick m) sid = (usage_of m sid)\<lparr>ru_cpu := 0\<rparr>"
  by (simp add: usage_of_def reset_tick_def no_usage_def split: option.split)

definition within_quota :: "resource_usage \<Rightarrow> capability_set \<Rightarrow> bool" where
  "within_quota u c \<longleftrightarrow> ru_cpu u \<le> cap_cpu c \<and> ru_memory u \<le> cap_memory c \<and> ru_storage u \<le> cap_storage c"

text \<open>Executions of several sandboxes, interleaved with the ends of accounting ticks; a tick has no
  result. \<open>tally\<close> adds up, over the integers, what the results say a sandbox was granted.\<close>

datatype rt_event = Exec sandbox operation | End_Tick

fun rt_run ::
  "profile \<Rightarrow> digest \<Rightarrow> resource_manager \<Rightarrow> rt_event list \<Rightarrow>
   (resource_manager \<times> (sandbox_error + outcome) option list) option" where
  "rt_run p D m [] = Some (m, [])"
| "rt_run p D m (End_Tick # es) =
     map_option (\<lambda>(m', rs). (m', None # rs)) (rt_run p D (reset_tick m) es)"
| "rt_run p D m (Exec s op # es) = do {
     (m', r) \<leftarrow> sb_execute p D s op m;
     (m'', rs) \<leftarrow> rt_run p D m' es;
     Some (m'', Some r # rs)
   }"

fun tally :: "string \<Rightarrow> int \<times> int \<times> int \<Rightarrow> rt_event \<times> (sandbox_error + outcome) option \<Rightarrow> int \<times> int \<times> int" where
  "tally sid (cpu, mem, sto) (End_Tick, r) = (0, mem, sto)"
| "tally sid (cpu, mem, sto) (Exec s op, r) =
     (if sb_id s \<noteq> sid then (cpu, mem, sto)
      else case r of
        Some (Inr (Computed ms)) \<Rightarrow> (cpu + uint ms, mem, sto)
      | Some (Inr (Allocated b)) \<Rightarrow> (cpu, mem + uint b, sto)
      | Some (Inr (Freed b)) \<Rightarrow> (cpu, mem - uint b, sto)
      | Some (Inr (Stored b)) \<Rightarrow> (cpu, mem, sto + uint b)
      | _ \<Rightarrow> (cpu, mem, sto))"

definition granted :: "string \<Rightarrow> rt_event list \<Rightarrow> (sandbox_error + outcome) option list \<Rightarrow> int \<times> int \<times> int" where
  "granted sid es rs = foldl (tally sid) (0, 0, 0) (zip es rs)"

definition counters :: "resource_usage \<Rightarrow> int \<times> int \<times> int" where
  "counters u = (uint (ru_cpu u), uint (ru_memory u), uint (ru_storage u))"

lemma execute_quota:
  "sb_execute p D s op m = Some (m', r) \<Longrightarrow> within_quota (usage_of m (sb_id s)) (sb_capability s) \<Longrightarrow>
   within_quota (usage_of m' (sb_id s)) (sb_capability s)"
proof (cases op)
  case (Free b)
  have "b \<le> c \<Longrightarrow> c - b \<le> c" for c :: u64 by (simp add: word_le_nat_alt unat_sub)
  then show "sb_execute p D s op m = Some (m', r) \<Longrightarrow> within_quota (usage_of m (sb_id s)) (sb_capability s) \<Longrightarrow>
      within_quota (usage_of m' (sb_id s)) (sb_capability s)"
    using Free order_trans by (fastforce simp: free_memory_def Let_def within_quota_def not_less split: if_splits)
qed (auto simp: consume_cpu_def alloc_memory_def consume_storage_def record_network_out_def
    record_network_in_def Let_def within_quota_def bind_eq_Some_conv split: if_splits)

lemma execute_other:
  "sb_execute p D s op m = Some (m', r) \<Longrightarrow> sid \<noteq> sb_id s \<Longrightarrow> usage_of m' sid = usage_of m sid"
  by (cases op) (auto simp: consume_cpu_def alloc_memory_def consume_storage_def record_network_out_def
    record_network_in_def free_memory_def Let_def bind_eq_Some_conv split: if_splits)

lemma execute_refused: "sb_execute p D s op m = Some (m', Inl e) \<Longrightarrow> m' = m"
  by (cases op) (auto simp: consume_cpu_def alloc_memory_def consume_storage_def record_network_out_def
    record_network_in_def free_memory_def Let_def bind_eq_Some_conv split: if_splits)

text \<open>What the capability must grant for an operation to be executed, and its result.\<close>

fun permitted :: "capability_set \<Rightarrow> operation \<Rightarrow> bool" where
  "permitted c (Network_Out b port) = allows_outbound (cap_network c) port"
| "permitted c (Network_In b port) = allows_inbound (cap_network c) port"
| "permitted c (Syscall name) = allows_syscall c name"
| "permitted c (Sign h) = cap_crypto c"
| "permitted c op = True"

lemma execute_permitted: "sb_execute p D s op m = Some (m', Inr out) \<Longrightarrow> permitted (sb_capability s) op"
  by (cases op) (auto split: if_splits)

lemma build_step_grants:
  "port \<in> set (np_outbound (cap_network (build_step c st))) \<longleftrightarrow>
     port \<in> set (np_outbound (cap_network c)) \<or> st = Allow_Outbound port"
  "port \<in> set (np_inbound (cap_network (build_step c st))) \<longleftrightarrow>
     port \<in> set (np_inbound (cap_network c)) \<or> st = Allow_Inbound port"
  "name \<in> set (cap_syscalls (build_step c st)) \<longleftrightarrow> name \<in> set (cap_syscalls c) \<or> st = Allow_Syscall name"
  "cap_crypto (build_step c st) \<longleftrightarrow> cap_crypto c \<or> st = Allow_Crypto"
  by (cases st; auto)+

lemma build_steps_grant:
  "port \<in> set (np_outbound (cap_network (foldl build_step c steps))) \<longleftrightarrow>
     port \<in> set (np_outbound (cap_network c)) \<or> Allow_Outbound port \<in> set steps"
  "port \<in> set (np_inbound (cap_network (foldl build_step c steps))) \<longleftrightarrow>
     port \<in> set (np_inbound (cap_network c)) \<or> Allow_Inbound port \<in> set steps"
  "name \<in> set (cap_syscalls (foldl build_step c steps)) \<longleftrightarrow>
     name \<in> set (cap_syscalls c) \<or> Allow_Syscall name \<in> set steps"
  "cap_crypto (foldl build_step c steps) \<longleftrightarrow> cap_crypto c \<or> Allow_Crypto \<in> set steps"
  by (induction steps arbitrary: c) (auto simp: build_step_grants)

lemma build_grants:
  assumes "cap_build steps = Inr c"
  shows "allows_outbound (cap_network c) port \<longleftrightarrow> Allow_Outbound port \<in> set steps"
    and "allows_inbound (cap_network c) port \<longleftrightarrow> Allow_Inbound port \<in> set steps"
    and "allows_syscall c name \<longleftrightarrow> Allow_Syscall name \<in> set steps"
    and "cap_crypto c \<longleftrightarrow> Allow_Crypto \<in> set steps"
  using assms
  by (auto simp: cap_build_def Let_def allows_outbound_def allows_inbound_def allows_syscall_def
      build_steps_grant cap_builder_def np_closed_def split: sum.splits)

lemma uint_add_checked: "add_ov Checked a b = Some t \<Longrightarrow> uint t = uint a + uint (b :: u64)"
  by (drule add_ov_Checked) (simp only: uint_nat of_nat_add)

lemma execute_counters:
  assumes "sb_execute Checked D s op m = Some (m', r)"
  shows "counters (usage_of m' sid) = tally sid (counters (usage_of m sid)) (Exec s op, Some r)"
proof (cases op)
  case (Free b)
  have "\<not> c < b \<Longrightarrow> uint (c - b) = uint c - uint b" for c :: u64
    by (simp only: uint_nat not_less unat_sub word_le_nat_alt of_nat_diff)
  then show ?thesis
    using assms Free by (auto simp: counters_def free_memory_def Let_def split: if_splits)
qed (use assms in \<open>auto simp: counters_def consume_cpu_def alloc_memory_def consume_storage_def
    record_network_out_def record_network_in_def Let_def bind_eq_Some_conv uint_add_checked
    split: if_splits\<close>)

lemma run_counters:
  "rt_run Checked D m es = Some (m', rs) \<Longrightarrow>
   counters (usage_of m' sid) = foldl (tally sid) (counters (usage_of m sid)) (zip es rs)"
proof (induction es arbitrary: m rs)
  case (Cons e es)
  show ?case
  proof (cases e)
    case (Exec s op)
    then obtain m1 r rs' where 1: "sb_execute Checked D s op m = Some (m1, r)"
      and 2: "rt_run Checked D m1 es = Some (m', rs')" and rs: "rs = Some r # rs'"
      using Cons.prems by (auto simp: bind_eq_Some_conv)
    show ?thesis
      using Cons.IH [OF 2] by (simp add: Exec rs execute_counters [OF 1, of sid] del: tally.simps)
  next
    case End_Tick
    then obtain rs' where 2: "rt_run Checked D (reset_tick m) es = Some (m', rs')" and rs: "rs = None # rs'"
      using Cons.prems by auto
    show ?thesis using Cons.IH [OF 2] by (simp add: End_Tick rs counters_def)
  qed
qed simp

lemma run_quota:
  assumes "rt_run p D m es = Some (m', rs)"
    and "\<And>s op. Exec s op \<in> set es \<Longrightarrow> sb_capability s = caps (sb_id s)"
    and "\<And>sid. within_quota (usage_of m sid) (caps sid)"
  shows "within_quota (usage_of m' sid) (caps sid)"
  using assms
proof (induction es arbitrary: m rs)
  case (Cons e es)
  show ?case
  proof (cases e)
    case (Exec s op)
    then obtain m1 r rs' where 1: "sb_execute p D s op m = Some (m1, r)"
      and 2: "rt_run p D m1 es = Some (m', rs')"
      using Cons.prems(1) by (auto simp: bind_eq_Some_conv)
    have "sb_capability s = caps (sb_id s)" using Cons.prems(2) [of s op] Exec by simp
    then have "within_quota (usage_of m1 sid) (caps sid)" for sid
      using execute_quota [OF 1] execute_other [OF 1, of sid] Cons.prems(3) by (cases "sid = sb_id s") auto
    moreover have "Exec s' op' \<in> set es \<Longrightarrow> sb_capability s' = caps (sb_id s')" for s' op'
      using Cons.prems(2) [of s' op'] by simp
    ultimately show ?thesis by (rule Cons.IH [OF 2, rotated])
  next
    case End_Tick
    have "within_quota (usage_of (reset_tick m) sid) (caps sid)" for sid
      using Cons.prems(3) [of sid] by (simp add: within_quota_def)
    then show ?thesis using Cons.IH [of "reset_tick m"] Cons.prems(1,2) End_Tick by auto
  qed
qed simp

lemma turns_cursor:
  "sc_order s \<noteq> [] \<Longrightarrow> sc_cursor s < length (sc_order s) \<Longrightarrow>
   turns k s = (s\<lparr>sc_cursor := (sc_cursor s + k) mod length (sc_order s)\<rparr>,
                map (\<lambda>i. sc_order s ! ((sc_cursor s + i) mod length (sc_order s))) [0..<k])"
proof (induction k arbitrary: s)
  case (Suc k)
  let ?s = "s\<lparr>sc_cursor := Suc (sc_cursor s) mod length (sc_order s)\<rparr>"
  have "[0..<Suc k] = 0 # map Suc [0..<k]" by (simp add: map_Suc_upt upt_conv_Cons del: upt_Suc)
  then show ?case using Suc.IH [of ?s] Suc.prems
    by (simp add: next_turn_def mod_add_left_eq del: upt_Suc)
qed simp

lemma turns_empty: "sc_order s = [] \<Longrightarrow> turns k s = (s, [])"
  by (induction k) (simp_all add: next_turn_def)

lemma rotate_nth_map: "map (\<lambda>i. xs ! ((c + i) mod length xs)) [0..<length xs] = rotate c xs"
  by (rule nth_equalityI) (simp_all add: nth_rotate)

lemma mset_rotate: "mset (rotate c xs) = mset xs"
proof -
  let ?k = "c mod length xs"
  have "mset (take ?k xs) + mset (drop ?k xs) = mset xs" by (simp flip: mset_append)
  then show ?thesis by (simp add: rotate_drop_take add.commute)
qed

lemma one_pass_rotates:
  "sc_order s \<noteq> [] \<Longrightarrow> sc_cursor s < length (sc_order s) \<Longrightarrow>
   one_pass s = (s, rotate (sc_cursor s) (sc_order s))"
  by (simp add: one_pass_def turns_cursor rotate_nth_map)

lemma registered_order: "foldl sc_register s ids = s\<lparr>sc_order := sc_order s @ ids\<rparr>"
  by (induction ids arbitrary: s) (simp_all add: sc_register_def)

section \<open>Properties\<close>

text \<open>
  C27: Quotas and the books. Let every sandbox id stand for one capability. From a new resource
  manager, and in a build that checks overflows, after any interleaving of the operations of any
  sandboxes with ends of ticks (with operations denied and quotas refused among them) the counters
  of a sandbox are exactly the CPU granted to it since the last tick, the memory it was granted and
  has not freed, and all the storage it was granted; none is negative and none exceeds the quota of
  its capability.
\<close>

theorem sandbox_books_exact:
  assumes "rt_run Checked D new_manager es = Some (m, rs)"
    and "\<And>s op. Exec s op \<in> set es \<Longrightarrow> sb_capability s = caps (sb_id s)"
  shows "granted sid es rs = counters (usage_of m sid) \<and>
    granted sid es rs \<in> {0..uint (cap_cpu (caps sid))} \<times>
      {0..uint (cap_memory (caps sid))} \<times> {0..uint (cap_storage (caps sid))}"
proof -
  have 1: "granted sid es rs = counters (usage_of m sid)"
    using run_counters [OF assms(1), of sid] by (simp add: granted_def usage_new counters_def no_usage_def)
  have "within_quota (usage_of new_manager sid) (caps sid)" for sid
    by (simp add: usage_new within_quota_def no_usage_def)
  then have "within_quota (usage_of m sid) (caps sid)" using run_quota [OF assms(1)] assms(2) by blast
  then show ?thesis unfolding 1 by (simp add: counters_def within_quota_def word_le_def)
qed

definition demo_sandbox :: sandbox where
  "demo_sandbox = \<lparr>sb_id = ''a'', sb_capability = cap_builder\<lparr>cap_memory := 10\<rparr>\<rparr>"

definition demo_events :: "rt_event list" where
  "demo_events =
     [Exec demo_sandbox (Alloc 7), Exec demo_sandbox (Alloc 7), Exec demo_sandbox (Compute 60),
      End_Tick, Exec demo_sandbox (Compute 50), Exec demo_sandbox (Free 2),
      Exec demo_sandbox (Network_Out 1 80)]"

lemma demo_rt_run:
  "\<exists>m rs. rt_run Checked D new_manager demo_events = Some (m, rs) \<and> granted ''a'' demo_events rs = (50, 5, 0)"
  by (simp add: demo_events_def demo_sandbox_def cap_builder_def consume_cpu_def alloc_memory_def
      free_memory_def usage_new no_usage_def granted_def allows_outbound_def np_closed_def add_ov_def)

theorem sandbox_books_exact_witness:
  "\<exists>m rs. rt_run Checked (\<lambda>_. []) new_manager demo_events = Some (m, rs) \<and>
     counters (usage_of m ''a'') = (50, 5, 0)"
proof -
  obtain m rs where 1: "rt_run Checked (\<lambda>_. []) new_manager demo_events = Some (m, rs)"
    and 2: "granted ''a'' demo_events rs = (50, 5, 0)"
    using demo_rt_run [of "\<lambda>_. []"] by blast
  have "granted ''a'' demo_events rs = counters (usage_of m ''a'')"
    by (rule sandbox_books_exact [OF 1, of "\<lambda>_. sb_capability demo_sandbox", THEN conjunct1])
      (auto simp: demo_events_def)
  then show ?thesis using 1 2 by auto
qed

text \<open>
  C28: Deny by default. What a sandbox with a capability from the builder executes was allowed by a
  step of the builder: a port for its direction, the name of the system call, or cryptography. An
  operation that is not executed changes no counter, and an executed one changes no counter of
  another sandbox.
\<close>

theorem sandbox_deny_by_default:
  assumes "cap_build steps = Inr (sb_capability s)" and "sb_execute p D s op m = Some (m', r)"
  shows "case r of
      Inl e \<Rightarrow> m' = m
    | Inr out \<Rightarrow>
        (case op of
           Network_Out b port \<Rightarrow> Allow_Outbound port \<in> set steps
         | Network_In b port \<Rightarrow> Allow_Inbound port \<in> set steps
         | Syscall name \<Rightarrow> Allow_Syscall name \<in> set steps
         | Sign h \<Rightarrow> Allow_Crypto \<in> set steps
         | _ \<Rightarrow> True) \<and>
        usage_of m' = (usage_of m)(sb_id s := usage_of m' (sb_id s))"
proof (cases r)
  case (Inl e) then show ?thesis using execute_refused assms(2) by auto
next
  case (Inr out)
  have "permitted (sb_capability s) op" using execute_permitted assms(2) Inr by blast
  moreover have "usage_of m' = (usage_of m)(sb_id s := usage_of m' (sb_id s))"
    using execute_other [OF assms(2)] by auto
  ultimately show ?thesis using build_grants [OF assms(1)] Inr by (auto split: operation.split)
qed

theorem sandbox_deny_by_default_witness:
  "\<exists>m'. sb_execute Checked (\<lambda>_. [])
     \<lparr>sb_id = ''a'', sb_capability = build_step cap_builder (Allow_Outbound 443)\<rparr> (Network_Out 5 443) new_manager
     = Some (m', Inr (Network_Sent 5 443)) \<and> Allow_Outbound 443 \<in> set [Allow_Outbound 443]"
proof -
  let ?s = "\<lparr>sb_id = ''a'', sb_capability = build_step cap_builder (Allow_Outbound 443)\<rparr>"
  obtain m' where 1: "sb_execute Checked (\<lambda>_. []) ?s (Network_Out 5 443) new_manager
      = Some (m', Inr (Network_Sent 5 443))"
    by (simp add: cap_builder_def np_closed_def allows_outbound_def record_network_out_def usage_new
        no_usage_def add_ov_def)
  have "cap_build [Allow_Outbound 443] = Inr (sb_capability ?s)"
    by (simp add: cap_build_def cap_validate_def cap_builder_def)
  from sandbox_deny_by_default [OF this 1] show ?thesis using 1 by simp
qed

text \<open>
  Fair turns. A scheduler on which sandboxes were registered hands out its turns cyclically in
  the order of registration, for any number of turns. Whatever turns were taken before, one pass
  gives every registration exactly one turn and leaves the scheduler where it was; with nothing
  registered there are no turns.
\<close>

theorem scheduler_is_round_robin:
  fixes ids :: "string list"
  defines "s \<equiv> foldl sc_register new_scheduler ids"
  shows "snd (turns k s) = (if ids = [] then [] else map (\<lambda>i. ids ! (i mod length ids)) [0..<k]) \<and>
    fst (one_pass (fst (turns k s))) = fst (turns k s) \<and>
    mset (snd (one_pass (fst (turns k s)))) = mset ids"
proof (intro conjI)
  have s: "sc_order s = ids" "sc_cursor s = 0" by (simp_all add: s_def registered_order new_scheduler_def)
  note t = turns_cursor [of s k, unfolded s]
  show "snd (turns k s) = (if ids = [] then [] else map (\<lambda>i. ids ! (i mod length ids)) [0..<k])"
    using t turns_empty [of s k] s by auto
  let ?s = "fst (turns k s)"
  have o: "sc_order ?s = ids" and c: "ids = [] \<or> sc_cursor ?s < length ids"
    using t turns_empty [of s k] s by (cases "ids = []"; simp)+
  show "fst (one_pass ?s) = ?s"
    using one_pass_rotates [of ?s] turns_empty [of ?s 0] o c by (cases "ids = []") (auto simp: one_pass_def)
  show "mset (snd (one_pass ?s)) = mset ids"
    using one_pass_rotates [of ?s] o c by (cases "ids = []") (auto simp: one_pass_def mset_rotate)
qed

text \<open>In a build without overflow checks the sum wraps round: a request close to \<open>2 ^ 64\<close> passes the
  quota of 100 bytes, and the counter afterwards is the old one less one.\<close>

theorem storage_quota_wraps:
  "\<exists>m rs. rt_run Wrapping D new_manager
      [Exec \<lparr>sb_id = i, sb_capability = cap_builder\<lparr>cap_storage := 100\<rparr>\<rparr> (Store 100),
       Exec \<lparr>sb_id = i, sb_capability = cap_builder\<lparr>cap_storage := 100\<rparr>\<rparr> (Store 0xffffffffffffffff)] = Some (m, rs) \<and>
     rs = [Some (Inr (Stored 100)), Some (Inr (Stored 0xffffffffffffffff))] \<and> ru_storage (usage_of m i) = 99"
  by (simp add: consume_storage_def usage_new no_usage_def)

end
