(* ===== verification/Watchdog.thy ===== *)
theory Watchdog imports BTree_Map begin

text \<open>
  \<open>kai-os/health/src/watchdog.rs\<close>: services that are observed through heartbeats, on a clock of
  ticks. The abstract specification is a monitor that knows of each service only how many ticks it
  has been silent; the watchdog refines it.
\<close>

section \<open>The code\<close>

datatype service_state = Srv_Running | Srv_Stale | Declared_Dead

datatype watchdog_error =
    Unknown_Service string
  | Duplicate_Service string
  | Illegal_Restart string service_state
  | Illegal_Heartbeat string service_state

record service_entry =
  se_state :: service_state
  se_last :: u64
  se_stale :: u64
  se_dead :: u64
  se_restarts :: u64

record watchdog =
  wd_now :: u64
  wd_services :: "(string, service_entry) bmap"

definition new_watchdog :: "u64 \<Rightarrow> watchdog" where
  "new_watchdog start = \<lparr>wd_now = start, wd_services = bm_empty\<rparr>"

definition wd_register :: "watchdog \<Rightarrow> string \<Rightarrow> u64 \<Rightarrow> u64 \<Rightarrow> watchdog \<times> (watchdog_error + unit)" where
  "wd_register w i stale dead =
     (if bm_contains (wd_services w) i then (w, Inl (Duplicate_Service i))
      else (w\<lparr>wd_services := bm_insert i
              \<lparr>se_state = Srv_Running, se_last = wd_now w, se_stale = stale, se_dead = dead, se_restarts = 0\<rparr>
              (wd_services w)\<rparr>, Inr ()))"

definition wd_heartbeat :: "watchdog \<Rightarrow> string \<Rightarrow> watchdog \<times> (watchdog_error + unit)" where
  "wd_heartbeat w i =
     (case bm_get (wd_services w) i of
        None \<Rightarrow> (w, Inl (Unknown_Service i))
      | Some e \<Rightarrow>
          (case se_state e of
             Declared_Dead \<Rightarrow> (w, Inl (Illegal_Heartbeat i (se_state e)))
           | _ \<Rightarrow>
               (w\<lparr>wd_services := bm_insert i (e\<lparr>se_state := Srv_Running, se_last := wd_now w\<rparr>)
                  (wd_services w)\<rparr>, Inr ())))"

text \<open>One iteration of the loop of \<open>tick\<close>; \<open>None\<close> when the sum of the two tolerances overflows in
  a build that checks overflows. The sum is formed only for a stale service.\<close>

definition watch_entry :: "profile \<Rightarrow> u64 \<Rightarrow> service_entry \<Rightarrow> service_entry option" where
  "watch_entry p now e =
     (let missed = saturating_sub now (se_last e);
          e1 = (if se_state e = Srv_Running \<and> se_stale e < missed then e\<lparr>se_state := Srv_Stale\<rparr> else e)
      in if se_state e1 = Srv_Stale
         then map_option (\<lambda>limit. if limit < missed then e1\<lparr>se_state := Declared_Dead\<rparr> else e1)
                (add_ov p (se_stale e1) (se_dead e1))
         else Some e1)"

definition wd_tick :: "profile \<Rightarrow> watchdog \<Rightarrow> watchdog option" where
  "wd_tick p w = do {
     now \<leftarrow> add_ov p (wd_now w) 1;
     if list_all (\<lambda>e. watch_entry p now e \<noteq> None) (bm_values (wd_services w))
     then Some \<lparr>wd_now = now, wd_services = bm_update_all (\<lambda>e. the (watch_entry p now e)) (wd_services w)\<rparr>
     else None
   }"

definition wd_state :: "watchdog \<Rightarrow> string \<Rightarrow> watchdog_error + service_state" where
  "wd_state w i =
     (case bm_get (wd_services w) i of None \<Rightarrow> Inl (Unknown_Service i) | Some e \<Rightarrow> Inr (se_state e))"

definition wd_report :: "watchdog \<Rightarrow> (string \<times> service_state \<times> u64) list" where
  "wd_report w = map (\<lambda>(i, e). (i, se_state e, se_restarts e)) (bm_entries (wd_services w))"

definition wd_restart_count :: "watchdog \<Rightarrow> string \<Rightarrow> watchdog_error + u64" where
  "wd_restart_count w i =
     (case bm_get (wd_services w) i of None \<Rightarrow> Inl (Unknown_Service i) | Some e \<Rightarrow> Inr (se_restarts e))"

definition wd_restart :: "profile \<Rightarrow> watchdog \<Rightarrow> string \<Rightarrow> (watchdog \<times> (watchdog_error + u64)) option" where
  "wd_restart p w i =
     (case bm_get (wd_services w) i of
        None \<Rightarrow> Some (w, Inl (Unknown_Service i))
      | Some e \<Rightarrow>
          if se_state e \<noteq> Declared_Dead then Some (w, Inl (Illegal_Restart i (se_state e)))
          else do {
            n \<leftarrow> add_ov p (se_restarts e) 1;
            Some (w\<lparr>wd_services := bm_insert i
                     (e\<lparr>se_restarts := n, se_state := Srv_Running, se_last := wd_now w\<rparr>) (wd_services w)\<rparr>,
                  Inr n)
          })"

section \<open>Runs\<close>

datatype wd_event = Register string u64 u64 | Heartbeat string | Restart string | Tick

fun wd_step ::
  "profile \<Rightarrow> watchdog \<Rightarrow> wd_event \<Rightarrow> (watchdog \<times> (watchdog_error + u64 option)) option" where
  "wd_step p w (Register i s d) = Some (map_prod id (map_sum id (\<lambda>_. None)) (wd_register w i s d))"
| "wd_step p w (Heartbeat i) = Some (map_prod id (map_sum id (\<lambda>_. None)) (wd_heartbeat w i))"
| "wd_step p w (Restart i) = map_option (map_prod id (map_sum id Some)) (wd_restart p w i)"
| "wd_step p w Tick = map_option (\<lambda>w'. (w', Inr None)) (wd_tick p w)"

fun wd_run ::
  "profile \<Rightarrow> watchdog \<Rightarrow> wd_event list \<Rightarrow> (watchdog \<times> (watchdog_error + u64 option) list) option" where
  "wd_run p w [] = Some (w, [])"
| "wd_run p w (ev # es) = do {
     (w', r) \<leftarrow> wd_step p w ev;
     (w'', rs) \<leftarrow> wd_run p w' es;
     Some (w'', r # rs)
   }"

section \<open>The specification\<close>

text \<open>The monitor: silence in ticks, the two tolerances and the number of restarts. The verdict is a
  function of these numbers.\<close>

record watched =
  m_silence :: nat
  m_stale :: nat
  m_dead :: nat
  m_restarts :: nat

definition verdict :: "watched \<Rightarrow> service_state" where
  "verdict x =
     (if m_silence x \<le> m_stale x then Srv_Running
      else if m_silence x \<le> m_stale x + m_dead x then Srv_Stale
      else Declared_Dead)"

fun mon_step ::
  "(string \<rightharpoonup> watched) \<Rightarrow> wd_event \<Rightarrow> (string \<rightharpoonup> watched) \<times> (watchdog_error + u64 option)" where
  "mon_step m (Register i s d) =
     (case m i of
        Some _ \<Rightarrow> (m, Inl (Duplicate_Service i))
      | None \<Rightarrow>
          (m(i \<mapsto> \<lparr>m_silence = 0, m_stale = unat s, m_dead = unat d, m_restarts = 0\<rparr>), Inr None))"
| "mon_step m (Heartbeat i) =
     (case m i of
        None \<Rightarrow> (m, Inl (Unknown_Service i))
      | Some x \<Rightarrow>
          if verdict x = Declared_Dead then (m, Inl (Illegal_Heartbeat i Declared_Dead))
          else (m(i \<mapsto> x\<lparr>m_silence := 0\<rparr>), Inr None))"
| "mon_step m (Restart i) =
     (case m i of
        None \<Rightarrow> (m, Inl (Unknown_Service i))
      | Some x \<Rightarrow>
          if verdict x = Declared_Dead
          then (m(i \<mapsto> x\<lparr>m_silence := 0, m_restarts := m_restarts x + 1\<rparr>),
                Inr (Some (of_nat (m_restarts x + 1))))
          else (m, Inl (Illegal_Restart i (verdict x))))"
| "mon_step m Tick = (\<lambda>i. map_option (\<lambda>x. x\<lparr>m_silence := m_silence x + 1\<rparr>) (m i), Inr None)"

fun mon_run ::
  "(string \<rightharpoonup> watched) \<Rightarrow> wd_event list \<Rightarrow> (string \<rightharpoonup> watched) \<times> (watchdog_error + u64 option) list" where
  "mon_run m [] = (m, [])"
| "mon_run m (ev # es) =
     (case mon_step m ev of (m', r) \<Rightarrow> (case mon_run m' es of (m'', rs) \<Rightarrow> (m'', r # rs)))"

text \<open>The abstraction of an entry seen at a time, and when an entry is one the monitor explains.\<close>

definition watched_of :: "u64 \<Rightarrow> service_entry \<Rightarrow> watched" where
  "watched_of now e =
     \<lparr>m_silence = unat now - unat (se_last e), m_stale = unat (se_stale e), m_dead = unat (se_dead e),
      m_restarts = unat (se_restarts e)\<rparr>"

definition entry_ok :: "nat \<Rightarrow> u64 \<Rightarrow> service_entry \<Rightarrow> bool" where
  "entry_ok n now e \<longleftrightarrow>
     se_state e = verdict (watched_of now e) \<and> unat (se_last e) \<le> unat now \<and>
     unat (se_stale e) + unat (se_dead e) < 2 ^ 64 \<and> unat (se_restarts e) \<le> n"

definition wd_abs :: "watchdog \<Rightarrow> string \<rightharpoonup> watched" where
  "wd_abs w = (\<lambda>i. map_option (watched_of (wd_now w)) (bm_get (wd_services w) i))"

definition wd_ok :: "nat \<Rightarrow> watchdog \<Rightarrow> bool" where
  "wd_ok n w \<longleftrightarrow> (\<forall>i e. bm_get (wd_services w) i = Some e \<longrightarrow> entry_ok n (wd_now w) e)"

fun tolerable :: "wd_event \<Rightarrow> bool" where
  "tolerable (Register i s d) \<longleftrightarrow> unat s + unat d < 2 ^ 64"
| "tolerable _ \<longleftrightarrow> True"

section \<open>Refinement\<close>

lemma Suc_word: "Suc (unat now) < 2 ^ 64 \<Longrightarrow> add_ov p now 1 = Some (now + 1) \<and> unat (now + 1) = Suc (unat now)"
  for now :: u64
  by (simp add: add_ov_def unat_word_ariths)

lemma watch_entry_ok:
  assumes "entry_ok n now e" "unat now' = Suc (unat now)"
  shows "\<exists>e'. watch_entry p now' e = Some e' \<and> entry_ok n now' e' \<and>
    watched_of now' e' = (watched_of now e)\<lparr>m_silence := m_silence (watched_of now e) + 1\<rparr>"
proof -
  let ?limit = "se_stale e + se_dead e"
  have limit: "add_ov p (se_stale e) (se_dead e) = Some ?limit" "unat ?limit = unat (se_stale e) + unat (se_dead e)"
    using assms(1) by (simp_all add: entry_ok_def add_ov_def unat_word_ariths)
  have missed: "unat (saturating_sub now' (se_last e)) = Suc (unat now - unat (se_last e))"
    using assms by (simp add: unat_saturating_sub entry_ok_def Suc_diff_le)
  have "se_state e = verdict (watched_of now e)" using assms(1) by (simp add: entry_ok_def)
  then show ?thesis
    using assms missed limit
    by (auto simp: watch_entry_def Let_def entry_ok_def verdict_def watched_of_def word_less_nat_alt
        Suc_diff_le split: if_splits)
qed

lemma wd_okD: "wd_ok n w \<Longrightarrow> bm_get (wd_services w) i = Some e \<Longrightarrow> entry_ok n (wd_now w) e"
  by (simp add: wd_ok_def)

lemma entry_ok_Suc: "entry_ok n now e \<Longrightarrow> entry_ok (Suc n) now e"
  by (simp add: entry_ok_def)

lemma wd_abs_Some: "bm_get (wd_services w) i = Some e \<Longrightarrow> wd_abs w i = Some (watched_of (wd_now w) e)"
  by (simp add: wd_abs_def)

lemma wd_abs_None: "bm_get (wd_services w) i = None \<Longrightarrow> wd_abs w i = None"
  by (simp add: wd_abs_def)

lemma wd_abs_insert:
  "wd_abs (w\<lparr>wd_services := bm_insert i e (wd_services w)\<rparr>) = (wd_abs w)(i \<mapsto> watched_of (wd_now w) e)"
  by (auto simp: wd_abs_def)

lemma wd_ok_insert:
  "wd_ok n w \<Longrightarrow> entry_ok (Suc n) (wd_now w) e \<Longrightarrow>
   wd_ok (Suc n) (w\<lparr>wd_services := bm_insert i e (wd_services w)\<rparr>)"
  by (auto simp: wd_ok_def intro: entry_ok_Suc)

lemma wd_ok_Suc: "wd_ok n w \<Longrightarrow> wd_ok (Suc n) w"
  by (auto simp: wd_ok_def intro: entry_ok_Suc)

lemma verdict_state: "entry_ok n now e \<Longrightarrow> verdict (watched_of now e) = se_state e"
  by (simp add: entry_ok_def)

lemma tick_refines:
  assumes ok: "wd_ok n w" and time: "Suc (unat (wd_now w)) < 2 ^ 64"
  shows "\<exists>w'. wd_tick p w = Some w' \<and> wd_ok n w' \<and>
    wd_abs w' = (\<lambda>i. map_option (\<lambda>x. x\<lparr>m_silence := m_silence x + 1\<rparr>) (wd_abs w i)) \<and>
    unat (wd_now w') = Suc (unat (wd_now w))"
proof -
  let ?now = "wd_now w + 1"
  note now = Suc_word [OF time, of p]
  have each: "\<exists>e'. watch_entry p ?now e = Some e' \<and> entry_ok n ?now e' \<and>
      watched_of ?now e' = (watched_of (wd_now w) e)\<lparr>m_silence := m_silence (watched_of (wd_now w) e) + 1\<rparr>"
    if "bm_get (wd_services w) i = Some e" for i e
    using wd_okD [OF ok that] now by (intro watch_entry_ok) auto
  then have "list_all (\<lambda>e. watch_entry p ?now e \<noteq> None) (bm_values (wd_services w))"
    by (fastforce simp: list_all_iff set_bm_values)
  then have tick: "wd_tick p w = Some
      \<lparr>wd_now = ?now, wd_services = bm_update_all (\<lambda>e. the (watch_entry p ?now e)) (wd_services w)\<rparr>" (is "_ = Some ?w")
    using now by (simp add: wd_tick_def)
  have "wd_ok n ?w" using each by (fastforce simp: wd_ok_def)
  moreover have "wd_abs ?w i = map_option (\<lambda>x. x\<lparr>m_silence := m_silence x + 1\<rparr>) (wd_abs w i)" for i
    using each by (cases "bm_get (wd_services w) i") (fastforce simp: wd_abs_def)+
  ultimately show ?thesis using tick now by auto
qed

lemma restart_refines:
  assumes ok: "wd_ok n w" and "Suc n < 2 ^ 64"
  shows "\<exists>w' r. wd_step p w (Restart i) = Some (w', r) \<and> wd_ok (Suc n) w' \<and>
    mon_step (wd_abs w) (Restart i) = (wd_abs w', r) \<and> wd_now w' = wd_now w"
proof (cases "bm_get (wd_services w) i")
  case None
  then show ?thesis using wd_ok_Suc [OF ok] by (simp add: wd_restart_def wd_abs_None)
next
  case (Some e)
  note e = wd_okD [OF ok Some]
  have n: "Suc (unat (se_restarts e)) < 2 ^ 64" using e assms(2) by (simp add: entry_ok_def)
  note add = Suc_word [OF n, of p]
  then have of_nat: "se_restarts e + 1 = of_nat (Suc (unat (se_restarts e)))" by simp
  let ?e = "e\<lparr>se_restarts := se_restarts e + 1, se_state := Srv_Running, se_last := wd_now w\<rparr>"
  have "entry_ok (Suc n) (wd_now w) ?e"
    using e add by (simp add: entry_ok_def verdict_def watched_of_def)
  moreover have "watched_of (wd_now w) ?e =
      (watched_of (wd_now w) e)\<lparr>m_silence := 0, m_restarts := m_restarts (watched_of (wd_now w) e) + 1\<rparr>"
    using add by (simp add: watched_of_def)
  ultimately show ?thesis
    using wd_ok_Suc [OF ok] wd_ok_insert [OF ok] add of_nat
    by (simp add: wd_restart_def Some wd_abs_Some wd_abs_insert verdict_state [OF e])
      (simp add: watched_of_def)
qed

lemma wd_step_refines:
  assumes ok: "wd_ok n w" and ev: "tolerable ev" and time: "Suc (unat (wd_now w)) < 2 ^ 64" "Suc n < 2 ^ 64"
  shows "\<exists>w' r. wd_step p w ev = Some (w', r) \<and> wd_ok (Suc n) w' \<and>
    mon_step (wd_abs w) ev = (wd_abs w', r) \<and> unat (wd_now w') \<le> Suc (unat (wd_now w))"
proof (cases ev)
  case (Register i s d)
  have "entry_ok (Suc n) (wd_now w)
      \<lparr>se_state = Srv_Running, se_last = wd_now w, se_stale = s, se_dead = d, se_restarts = 0\<rparr>"
    using ev Register by (simp add: entry_ok_def verdict_def watched_of_def)
  from wd_ok_insert [OF ok this] show ?thesis
    using Register wd_ok_Suc [OF ok]
    by (cases "bm_get (wd_services w) i")
      (simp_all add: wd_register_def bm_contains_def wd_abs_None wd_abs_Some wd_abs_insert, simp add: watched_of_def)
next
  case (Heartbeat i)
  show ?thesis
  proof (cases "bm_get (wd_services w) i")
    case None
    then show ?thesis using Heartbeat wd_ok_Suc [OF ok] by (simp add: wd_heartbeat_def wd_abs_None)
  next
    case (Some e)
    note e = wd_okD [OF ok Some]
    have "entry_ok (Suc n) (wd_now w) (e\<lparr>se_state := Srv_Running, se_last := wd_now w\<rparr>)"
      using e by (simp add: entry_ok_def verdict_def watched_of_def)
    from wd_ok_insert [OF ok this] show ?thesis
      using Heartbeat wd_ok_Suc [OF ok]
      by (cases "se_state e")
        (simp_all add: wd_heartbeat_def Some wd_abs_Some wd_abs_insert verdict_state [OF e], simp_all add: watched_of_def)
  qed
next
  case (Restart i)
  with restart_refines [OF ok time(2), of p i] show ?thesis by auto
next
  case Tick
  with tick_refines [OF ok time(1), of p] wd_ok_Suc show ?thesis by fastforce
qed

lemma wd_run_refines:
  assumes "wd_ok n w" "list_all tolerable es"
    and "unat (wd_now w) + length es < 2 ^ 64" "n + length es < 2 ^ 64"
  shows "\<exists>w' rs. wd_run p w es = Some (w', rs) \<and> wd_ok (n + length es) w' \<and>
    mon_run (wd_abs w) es = (wd_abs w', rs)"
  using assms
proof (induction es arbitrary: n w)
  case (Cons ev es)
  then obtain w1 r where 1: "wd_step p w ev = Some (w1, r)" "wd_ok (Suc n) w1"
      "mon_step (wd_abs w) ev = (wd_abs w1, r)" "unat (wd_now w1) \<le> Suc (unat (wd_now w))"
    using wd_step_refines [of n w ev p] by auto
  moreover obtain w' rs where "wd_run p w1 es = Some (w', rs)" "wd_ok (Suc n + length es) w'"
      "mon_run (wd_abs w1) es = (wd_abs w', rs)"
    using Cons.IH [OF 1(2)] Cons.prems 1(4) by auto
  ultimately show ?case by simp
qed simp

section \<open>Properties\<close>

text \<open>
  C29: The watchdog observes silence. With tolerances whose sum fits 64 bits, and less than
  \<open>2 ^ 64\<close> ticks and events, no run of registrations, heartbeats, restarts and ticks panics; it
  returns the results of the monitor, errors included, and afterwards the state, the restart count
  and the report of every service are those the monitor derives from the ticks of silence alone.
  So only a heartbeat of a service that is not dead, or a restart of one that is, makes it running.
\<close>

theorem watchdog_refines_monitor:
  assumes "list_all tolerable es" "unat start + length es < 2 ^ 64"
  shows "\<exists>w rs m. wd_run p (new_watchdog start) es = Some (w, rs) \<and> mon_run Map.empty es = (m, rs) \<and>
    wd_abs w = m \<and>
    wd_state w i = (case m i of None \<Rightarrow> Inl (Unknown_Service i) | Some x \<Rightarrow> Inr (verdict x)) \<and>
    map_sum id unat (wd_restart_count w i) =
      (case m i of None \<Rightarrow> Inl (Unknown_Service i) | Some x \<Rightarrow> Inr (m_restarts x)) \<and>
    map (\<lambda>(j, s, r). (j, s, unat r)) (wd_report w) =
      map (\<lambda>j. (j, verdict (the (m j)), m_restarts (the (m j)))) (sorted_list_of_set (dom m))"
proof -
  have "wd_ok 0 (new_watchdog start)" by (simp add: wd_ok_def new_watchdog_def)
  moreover have "wd_abs (new_watchdog start) = Map.empty" by (simp add: wd_abs_def new_watchdog_def)
  moreover have "unat (wd_now (new_watchdog start)) = unat start" by (simp add: new_watchdog_def)
  ultimately obtain w rs where run: "wd_run p (new_watchdog start) es = Some (w, rs)"
      "wd_ok (length es) w" "mon_run Map.empty es = (wd_abs w, rs)"
    using wd_run_refines [of 0 "new_watchdog start" es p] assms by auto
  have view: "se_state e = verdict (the (wd_abs w j)) \<and> unat (se_restarts e) = m_restarts (the (wd_abs w j))"
    if "bm_get (wd_services w) j = Some e" for j e
    using wd_okD [OF run(2) that] wd_abs_Some [OF that] by (simp add: entry_ok_def watched_of_def)
  have "dom (wd_abs w) = set (bm_keys (wd_services w))"
    by (auto simp: wd_abs_def set_bm_keys)
  then have keys: "sorted_list_of_set (dom (wd_abs w)) = bm_keys (wd_services w)"
    by (metis ascending_bm_keys strict_sorted_list_of_set strict_sorted_equal
        finite_set set_sorted_list_of_set)
  have "map (\<lambda>(j, s, r). (j, s, unat r)) (wd_report w) =
      map (\<lambda>j. (j, verdict (the (wd_abs w j)), m_restarts (the (wd_abs w j)))) (sorted_list_of_set (dom (wd_abs w)))"
    unfolding keys wd_report_def bm_keys_def using view by (auto simp: bm_get_iff)
  moreover have "wd_state w i = (case wd_abs w i of None \<Rightarrow> Inl (Unknown_Service i) | Some x \<Rightarrow> Inr (verdict x))"
    "map_sum id unat (wd_restart_count w i) =
      (case wd_abs w i of None \<Rightarrow> Inl (Unknown_Service i) | Some x \<Rightarrow> Inr (m_restarts x))"
    using view [of i] by (auto simp: wd_state_def wd_restart_count_def wd_abs_def split: option.split)
  ultimately show ?thesis using run by blast
qed

definition demo_watch :: "wd_event list" where
  "demo_watch =
     [Register ''a'' 1 1, Tick, Heartbeat ''a'', Tick, Tick, Tick, Heartbeat ''a'', Restart ''a'', Tick]"

lemma demo_watch:
  "fst (mon_run Map.empty demo_watch) ''a'' = Some \<lparr>m_silence = 1, m_stale = 1, m_dead = 1, m_restarts = 1\<rparr>"
  "snd (mon_run Map.empty demo_watch) =
     [Inr None, Inr None, Inr None, Inr None, Inr None, Inr None,
      Inl (Illegal_Heartbeat ''a'' Declared_Dead), Inr (Some 1), Inr None]"
  by (simp_all add: demo_watch_def verdict_def)

lemma watchdog_refines_monitor_witness:
  "\<exists>w rs. wd_run Checked (new_watchdog 0) demo_watch = Some (w, rs) \<and>
     wd_state w ''a'' = Inr Srv_Running \<and> map_sum id unat (wd_restart_count w ''a'') = Inr 1"
proof -
  have "list_all tolerable demo_watch" "unat (0 :: u64) + length demo_watch < 2 ^ 64"
    by (simp_all add: demo_watch_def)
  from watchdog_refines_monitor [OF this, of Checked "''a''"] show ?thesis
    using demo_watch by (auto simp: verdict_def)
qed

text \<open>Without overflow checks the sum of the tolerances wraps: a service that is allowed the largest
  silence after it is stale is declared dead in the tick it becomes stale; with overflow checks the
  tick panics.\<close>

theorem huge_tolerance:
  "wd_run Checked (new_watchdog 0) [Register i 1 0xffffffffffffffff, Tick, Tick] = None \<and>
   (\<exists>w rs. wd_run Wrapping (new_watchdog 0) [Register i 1 0xffffffffffffffff, Tick, Tick] = Some (w, rs) \<and>
      wd_state w i = Inr Declared_Dead)"
  by (simp add: wd_register_def new_watchdog_def bm_contains_def wd_tick_def watch_entry_def Let_def
      bm_values_def saturating_sub_def wd_state_def add_ov_def)

end
