(* ===== verification/Gossip.thy ===== *)
theory Gossip imports Watchdog begin

text \<open>
  \<open>kai-os/health/src/gossip.rs\<close>: health reports, kept per observer, merged by the newest tick, and
  the aggregated view of a node over all observers.
\<close>

section \<open>The code\<close>

datatype health_status = Gs_Healthy | Gs_Stale | Gs_Dead

record node_health =
  nh_node :: string
  nh_status :: health_status
  nh_tick :: u64

record health_gossip =
  go_self :: string
  go_observations :: "(string, (string, node_health) bmap) bmap"

definition new_gossip :: "string \<Rightarrow> health_gossip" where
  "new_gossip self = \<lparr>go_self = self, go_observations = bm_empty\<rparr>"

text \<open>\<open>entry(observer).or_default()\<close>\<close>

definition reports_of :: "health_gossip \<Rightarrow> string \<Rightarrow> (string, node_health) bmap" where
  "reports_of g observer =
     (case bm_get (go_observations g) observer of None \<Rightarrow> bm_empty | Some t \<Rightarrow> t)"

definition go_observe :: "health_gossip \<Rightarrow> string \<Rightarrow> health_status \<Rightarrow> u64 \<Rightarrow> health_gossip" where
  "go_observe g node st tick =
     g\<lparr>go_observations := bm_insert (go_self g)
         (bm_insert node \<lparr>nh_node = node, nh_status = st, nh_tick = tick\<rparr> (reports_of g (go_self g)))
         (go_observations g)\<rparr>"

text \<open>The body of the loop of \<open>merge\<close> on the target map and the counter.\<close>

definition adopt ::
  "(string, node_health) bmap \<times> nat \<Rightarrow> node_health \<Rightarrow> (string, node_health) bmap \<times> nat" where
  "adopt tn r =
     (case bm_get (fst tn) (nh_node r) of
        Some local \<Rightarrow>
          if nh_tick r \<le> nh_tick local then tn
          else (bm_insert (nh_node r) r (fst tn), snd tn + 1)
      | None \<Rightarrow> (bm_insert (nh_node r) r (fst tn), snd tn + 1))"

definition go_merge :: "health_gossip \<Rightarrow> string \<Rightarrow> node_health list \<Rightarrow> health_gossip \<times> nat" where
  "go_merge g observer remote =
     (case foldl adopt (reports_of g observer, 0) remote of
        (t, adopted) \<Rightarrow> (g\<lparr>go_observations := bm_insert observer t (go_observations g)\<rparr>, adopted))"

definition go_snapshot :: "health_gossip \<Rightarrow> string \<Rightarrow> node_health list" where
  "go_snapshot g observer =
     (case bm_get (go_observations g) observer of None \<Rightarrow> [] | Some t \<Rightarrow> bm_values t)"

fun severity :: "health_status \<Rightarrow> u8" where
  "severity Gs_Healthy = 0"
| "severity Gs_Stale = 1"
| "severity Gs_Dead = 2"

definition better_view :: "node_health \<Rightarrow> node_health \<Rightarrow> bool" where
  "better_view e b \<longleftrightarrow>
     nh_tick b < nh_tick e \<or> nh_tick e = nh_tick b \<and> severity (nh_status b) < severity (nh_status e)"

definition view_step ::
  "string \<Rightarrow> node_health option \<Rightarrow> (string, node_health) bmap \<Rightarrow> node_health option" where
  "view_step node best t =
     (case bm_get t node of
        None \<Rightarrow> best
      | Some e \<Rightarrow>
          Some (case best of None \<Rightarrow> e | Some b \<Rightarrow> if better_view e b then e else b))"

definition consensus_view :: "health_gossip \<Rightarrow> string \<Rightarrow> node_health option" where
  "consensus_view g node = foldl (view_step node) None (bm_values (go_observations g))"

fun status_of_service :: "service_state \<Rightarrow> health_status" where
  "status_of_service Srv_Running = Gs_Healthy"
| "status_of_service Srv_Stale = Gs_Stale"
| "status_of_service Declared_Dead = Gs_Dead"

section \<open>Merging\<close>

text \<open>Batches received for one observer, in order.\<close>

definition merge_all :: "health_gossip \<Rightarrow> string \<Rightarrow> node_health list list \<Rightarrow> health_gossip" where
  "merge_all g observer bs = foldl (\<lambda>g b. fst (go_merge g observer b)) g bs"

definition reports_after :: "(string, node_health) bmap \<Rightarrow> node_health list \<Rightarrow> (string, node_health) bmap" where
  "reports_after t rs = fst (foldl adopt (t, 0) rs)"

lemma adopt_fst: "fst (adopt (t, n) r) = fst (adopt (t, m) r)"
  by (simp add: adopt_def split: option.split)

lemma foldl_adopt_fst: "fst (foldl adopt (t, n) rs) = fst (foldl adopt (t, m) rs)"
proof (induction rs arbitrary: t n m)
  case (Cons r rs)
  show ?case using Cons.IH by (metis adopt_fst foldl_Cons prod.collapse)
qed simp

lemma reports_after_Nil [simp]: "reports_after t [] = t"
  by (simp add: reports_after_def)

lemma reports_after_Cons [simp]: "reports_after t (r # rs) = reports_after (fst (adopt (t, 0) r)) rs"
  unfolding reports_after_def by (metis foldl_Cons foldl_adopt_fst prod.collapse)

lemma reports_after_append: "reports_after t (rs @ rs') = reports_after (reports_after t rs) rs'"
  by (induction rs arbitrary: t) simp_all

lemma reports_of_merge:
  "reports_of (fst (go_merge g observer rs)) o' =
     (if o' = observer then reports_after (reports_of g observer) rs else reports_of g o')"
  by (simp add: go_merge_def reports_of_def reports_after_def split: prod.split)

lemma reports_of_merge_all:
  "reports_of (merge_all g observer bs) o' =
     (if o' = observer then reports_after (reports_of g observer) (concat bs) else reports_of g o')"
proof (induction bs arbitrary: g)
  case (Cons b bs)
  then show ?case
    using Cons.IH [of "fst (go_merge g observer b)"]
    by (simp add: merge_all_def reports_of_merge reports_after_append)
qed (simp add: merge_all_def)

lemma snapshot_reports: "go_snapshot g observer = bm_values (reports_of g observer)"
  by (simp add: go_snapshot_def reports_of_def bm_values_def split: option.split)

text \<open>The newest of the local entry and the received ones; the local entry wins a tie.\<close>

definition newest :: "node_health option \<Rightarrow> node_health set \<Rightarrow> node_health option \<Rightarrow> bool" where
  "newest local R res \<longleftrightarrow>
     (case res of
        None \<Rightarrow> local = None \<and> R = {}
      | Some e \<Rightarrow>
          (local = Some e \<or> e \<in> R) \<and> (\<forall>r \<in> R. nh_tick r \<le> nh_tick e) \<and>
          (\<forall>l. local = Some l \<longrightarrow> e = l \<or> nh_tick l < nh_tick e))"

lemma adopt_newest:
  "newest (bm_get t n) (if nh_node r = n then {r} else {}) (bm_get (fst (adopt (t, k) r)) n)"
  by (auto simp: newest_def adopt_def split: option.split)

lemma newest_trans:
  assumes "newest x R y" "newest y S z"
  shows "newest x (R \<union> S) z"
proof (cases z)
  case None
  then show ?thesis using assms by (auto simp: newest_def)
next
  case (Some e)
  then show ?thesis
  proof (cases y)
    case None
    then show ?thesis using assms Some by (auto simp: newest_def)
  next
    case y: (Some d)
    have "d = e \<or> nh_tick d < nh_tick e" using assms(2) Some y by (auto simp: newest_def)
    then show ?thesis using assms Some y by (auto simp: newest_def)
  qed
qed

lemma reports_after_newest:
  "newest (bm_get t n) {r \<in> set rs. nh_node r = n} (bm_get (reports_after t rs) n)"
proof (induction rs arbitrary: t)
  case Nil
  show ?case by (simp add: newest_def split: option.split)
next
  case (Cons r rs)
  have "{r' \<in> set (r # rs). nh_node r' = n} =
      (if nh_node r = n then {r} else {}) \<union> {r' \<in> set rs. nh_node r' = n}" by auto
  then show ?case using newest_trans [OF adopt_newest Cons.IH] by simp
qed

lemma newest_unique:
  assumes "newest x R y" "newest x R z"
    and "\<And>r r'. r \<in> R \<Longrightarrow> r' \<in> R \<Longrightarrow> nh_tick r = nh_tick r' \<Longrightarrow> r = r'"
  shows "y = z"
proof (cases y; cases z)
  fix d e assume de: "y = Some d" "z = Some e"
  show "y = z"
  proof (cases "x = Some d \<or> x = Some e")
    case True
    then show ?thesis using assms(1,2) de by (force simp: newest_def)
  next
    case False
    then have "d \<in> R" "e \<in> R" "nh_tick d = nh_tick e"
      using assms(1,2) de by (auto simp: newest_def intro: order.antisym)
    then show ?thesis using assms(3) de by simp
  qed
qed (use assms(1,2) in \<open>auto simp: newest_def\<close>)

lemma adopt_old:
  "bm_get t (nh_node r) = Some l \<Longrightarrow> nh_tick r \<le> nh_tick l \<Longrightarrow> adopt (t, k) r = (t, k)"
  by (simp add: adopt_def)

lemma merge_seen:
  assumes "\<And>r. r \<in> set rs \<Longrightarrow> \<exists>l. bm_get (reports_of g observer) (nh_node r) = Some l \<and> nh_tick r \<le> nh_tick l"
  shows "foldl adopt (reports_of g observer, 0) rs = (reports_of g observer, 0)"
  using assms
proof (induction rs)
  case (Cons r rs)
  obtain l where "bm_get (reports_of g observer) (nh_node r) = Some l" "nh_tick r \<le> nh_tick l"
    using Cons.prems [of r] by auto
  then show ?case using Cons adopt_old by simp
qed simp

section \<open>Properties\<close>

text \<open>
  C30: Gossip converges to the newest reports. Two nodes with the same reports of an observer that
  receive the same reports for it, in any order, any batches and any multiplicity, hold the same
  reports of it, provided the received reports of a node with the same tick agree. What they hold of a
  node is the report they had unless a received one has a larger tick, and then the received one with
  the largest tick. Delivering any of them again adopts nothing and changes nothing, and the reports of
  other observers are never touched.
\<close>

theorem gossip_converges:
  assumes "set (concat bs) = set (concat bs')"
    and "\<And>r r'. r \<in> set (concat bs) \<Longrightarrow> r' \<in> set (concat bs) \<Longrightarrow>
           nh_node r = nh_node r' \<Longrightarrow> nh_tick r = nh_tick r' \<Longrightarrow> r = r'"
    and "reports_of g obs = reports_of h obs"
    and "set again \<subseteq> set (concat bs)"
  shows "go_snapshot (merge_all g obs bs) obs = go_snapshot (merge_all h obs bs') obs \<and>
    (case bm_get (reports_of (merge_all g obs bs) obs) n of
       None \<Rightarrow> bm_get (reports_of g obs) n = None \<and> {r \<in> set (concat bs). nh_node r = n} = {}
     | Some e \<Rightarrow> {r \<in> set (concat bs). nh_node r = n \<and> nh_tick e < nh_tick r} = {} \<and>
         (if bm_get (reports_of g obs) n = Some e then True
          else e \<in> set (concat bs) \<and> nh_node e = n \<and>
            (case bm_get (reports_of g obs) n of None \<Rightarrow> True | Some l \<Rightarrow> nh_tick l < nh_tick e))) \<and>
    snd (go_merge (merge_all g obs bs) obs again) = 0 \<and>
    go_snapshot (fst (go_merge (merge_all g obs bs) obs again)) obs = go_snapshot (merge_all g obs bs) obs \<and>
    (o' = obs \<or> go_snapshot (merge_all g obs bs) o' = go_snapshot g o')"
proof -
  let ?t = "reports_of g obs" and ?g = "merge_all g obs bs"
  have "bm_get (reports_after ?t (concat bs)) n = bm_get (reports_after ?t (concat bs')) n" for n
  proof (rule newest_unique [OF reports_after_newest])
    show "newest (bm_get ?t n) {r \<in> set (concat bs). nh_node r = n} (bm_get (reports_after ?t (concat bs')) n)"
      unfolding assms(1) by (rule reports_after_newest)
    fix r r' assume "r \<in> {r \<in> set (concat bs). nh_node r = n}" "r' \<in> {r \<in> set (concat bs). nh_node r = n}"
      "nh_tick r = nh_tick r'"
    then show "r = r'" by (intro assms(2)) simp_all
  qed
  then have same: "reports_after ?t (concat bs) = reports_after ?t (concat bs')" by (rule bm_eqI)
  have "\<exists>l. bm_get (reports_of ?g obs) (nh_node r) = Some l \<and> nh_tick r \<le> nh_tick l"
    if "r \<in> set again" for r
  proof -
    have "r \<in> {r' \<in> set (concat bs). nh_node r' = nh_node r}" using that assms(4) by auto
    then show ?thesis
      using reports_after_newest [of ?t "nh_node r" "concat bs"]
      by (auto simp: newest_def reports_of_merge_all split: option.splits)
  qed
  from merge_seen [of again ?g obs, OF this]
  have "snd (go_merge ?g obs again) = 0" "reports_of (fst (go_merge ?g obs again)) obs = reports_of ?g obs"
    by (auto simp: go_merge_def reports_of_def)
  moreover have "newest (bm_get ?t n) {r \<in> set (concat bs). nh_node r = n} (bm_get (reports_of ?g obs) n)"
    using reports_after_newest [of ?t n "concat bs"] by (simp add: reports_of_merge_all)
  then have "case bm_get (reports_of ?g obs) n of
       None \<Rightarrow> bm_get ?t n = None \<and> {r \<in> set (concat bs). nh_node r = n} = {}
     | Some e \<Rightarrow> {r \<in> set (concat bs). nh_node r = n \<and> nh_tick e < nh_tick r} = {} \<and>
         (if bm_get ?t n = Some e then True
          else e \<in> set (concat bs) \<and> nh_node e = n \<and>
            (case bm_get ?t n of None \<Rightarrow> True | Some l \<Rightarrow> nh_tick l < nh_tick e))"
    by (auto simp: newest_def split: option.splits)
  ultimately show ?thesis using same assms(3) by (simp add: snapshot_reports reports_of_merge_all)
qed

definition demo_reports :: "node_health list" where
  "demo_reports = [\<lparr>nh_node = ''a'', nh_status = Gs_Healthy, nh_tick = 1\<rparr>,
     \<lparr>nh_node = ''a'', nh_status = Gs_Dead, nh_tick = 2\<rparr>]"

lemma gossip_converges_witness:
  "bm_get (reports_of (merge_all (new_gossip ''x'') ''p'' [demo_reports]) ''p'') ''a'' = Some (demo_reports ! 1) \<and>
   go_snapshot (merge_all (new_gossip ''x'') ''p'' [demo_reports]) ''p'' =
     go_snapshot (merge_all (new_gossip ''y'') ''p'' [[demo_reports ! 1], [demo_reports ! 0]]) ''p'' \<and>
   snd (go_merge (merge_all (new_gossip ''x'') ''p'' [demo_reports]) ''p'' [demo_reports ! 0]) = 0"
proof -
  have same: "reports_of (new_gossip ''x'') ''p'' = reports_of (new_gossip ''y'') ''p''"
    and none: "bm_get (reports_of (new_gossip ''x'') ''p'') ''a'' = None"
    by (simp_all add: reports_of_def new_gossip_def)
  have sets: "set (concat [demo_reports]) = set (concat [[demo_reports ! 1], [demo_reports ! 0]])"
    by (auto simp: demo_reports_def)
  have agree: "r = r'" if "r \<in> set (concat [demo_reports])" "r' \<in> set (concat [demo_reports])"
      "nh_node r = nh_node r'" "nh_tick r = nh_tick r'" for r r'
    using that by (auto simp: demo_reports_def)
  have again: "set [demo_reports ! 0] \<subseteq> set (concat [demo_reports])" by (simp add: demo_reports_def)
  note conv = gossip_converges [OF sets agree same again, of "''a''"]
  note held = conv [THEN conjunct2, THEN conjunct1]
  have "bm_get (reports_of (merge_all (new_gossip ''x'') ''p'' [demo_reports]) ''p'') ''a'' \<noteq> None"
  proof
    assume no: "bm_get (reports_of (merge_all (new_gossip ''x'') ''p'' [demo_reports]) ''p'') ''a'' = None"
    have "demo_reports ! 0 \<in> {r \<in> set (concat [demo_reports]). nh_node r = ''a''}"
      by (simp add: demo_reports_def)
    with held [unfolded no option.case, THEN conjunct2] show False by blast
  qed
  then obtain e where e: "bm_get (reports_of (merge_all (new_gossip ''x'') ''p'' [demo_reports]) ''p'') ''a'' = Some e"
    by blast
  note held = held [unfolded e none option.case]
  have "demo_reports ! 1 \<in> set (concat [demo_reports])" "nh_node (demo_reports ! 1) = ''a''"
    "nh_tick e < 2 \<Longrightarrow> nh_tick e < nh_tick (demo_reports ! 1)"
    by (simp_all add: demo_reports_def)
  then have "\<not> nh_tick e < 2" using held [THEN conjunct1] by blast
  moreover have "e \<in> set (concat [demo_reports])"
    using held [THEN conjunct2] by (simp only: option.distinct(1) if_False simp_thms)
  ultimately have "e = demo_reports ! 1" by (auto simp: demo_reports_def)
  with e conv show ?thesis by blast
qed

lemma fold_view:
  "case foldl (view_step n) best ts of
     None \<Rightarrow> best = None \<and> (\<forall>t \<in> set ts. bm_get t n = None)
   | Some b \<Rightarrow>
       (best = Some b \<or> (\<exists>t \<in> set ts. bm_get t n = Some b)) \<and>
       (\<forall>c. best = Some c \<longrightarrow> \<not> better_view c b) \<and>
       (\<forall>t \<in> set ts. \<forall>e. bm_get t n = Some e \<longrightarrow> \<not> better_view e b)"
proof (induction ts arbitrary: best)
  case Nil
  show ?case by (simp add: better_view_def split: option.split)
next
  case (Cons t ts)
  have step: "case view_step n best t of None \<Rightarrow> best = None \<and> bm_get t n = None
      | Some b \<Rightarrow> (best = Some b \<or> bm_get t n = Some b) \<and> (\<forall>c. best = Some c \<longrightarrow> \<not> better_view c b) \<and>
          (\<forall>e. bm_get t n = Some e \<longrightarrow> \<not> better_view e b)"
    by (auto simp: view_step_def better_view_def split: option.splits)
  have trans: "\<not> better_view a b \<Longrightarrow> \<not> better_view b c \<Longrightarrow> \<not> better_view a c" for a b c
    unfolding better_view_def by (metis (no_types) less_trans linorder_neqE)
  show ?case
  proof (cases "view_step n best t")
    case None
    then show ?thesis using step Cons.IH [of "view_step n best t"] by (auto split: option.splits)
  next
    case (Some b)
    note step [unfolded Some option.case] and IH = Cons.IH [of "view_step n best t", unfolded Some]
    then obtain b' where b': "foldl (view_step n) (Some b) ts = Some b'"
      by (auto split: option.splits)
    have "\<not> better_view b b'" using IH b' by auto
    then have "\<not> better_view c b \<Longrightarrow> \<not> better_view c b'" for c using trans by blast
    then show ?thesis
      using step [unfolded Some option.case] IH [unfolded b' option.case] Some b' by auto
  qed
qed

lemma worst_status:
  assumes "s \<in> S" "\<And>x. x \<in> S \<Longrightarrow> \<not> severity s < severity x"
  shows "case s of Gs_Healthy \<Rightarrow> S = {Gs_Healthy} | Gs_Stale \<Rightarrow> Gs_Dead \<notin> S | Gs_Dead \<Rightarrow> True"
proof (cases s)
  case Gs_Healthy
  have "x = Gs_Healthy" if "x \<in> S" for x using assms(2) [OF that] by (cases x) (simp_all add: Gs_Healthy)
  with assms(1) show ?thesis by (auto simp: Gs_Healthy)
next
  case Gs_Stale
  then show ?thesis using assms(2) [of Gs_Dead] by auto
qed simp

text \<open>
  C31: The aggregated view is conservative: it is absent exactly when no observer reports the node;
  otherwise it is the report of some observer, no observer has a newer one, and none of the same tick is
  worse: when the view says healthy all of them do, and when it says stale none says dead.
\<close>

theorem consensus_is_newest_and_worst:
  "let E = {e. \<exists>obs. bm_get (reports_of g obs) n = Some e} in
   case consensus_view g n of
     None \<Rightarrow> E = {}
   | Some b \<Rightarrow> b \<in> E \<and> {e \<in> E. nh_tick b < nh_tick e} = {} \<and>
       (let same = {e \<in> E. nh_tick e = nh_tick b} in
        case nh_status b of
          Gs_Healthy \<Rightarrow> nh_status ` same = {Gs_Healthy}
        | Gs_Stale \<Rightarrow> Gs_Dead \<notin> nh_status ` same
        | Gs_Dead \<Rightarrow> True)"
proof -
  let ?E = "{e. \<exists>obs. bm_get (reports_of g obs) n = Some e}"
  have "(\<exists>t \<in> set (bm_values (go_observations g)). bm_get t n = Some e) \<longleftrightarrow>
      (\<exists>obs. bm_get (reports_of g obs) n = Some e)" for e
    unfolding Bex_def set_bm_values reports_of_def by (force split: option.splits)
  then have view: "case consensus_view g n of None \<Rightarrow> ?E = {} | Some b \<Rightarrow> b \<in> ?E \<and> ?E \<inter> {e. better_view e b} = {}"
    using fold_view [where n = n and best = None and ts = "bm_values (go_observations g)"]
    unfolding consensus_view_def [symmetric] by (auto split: option.splits)
  show ?thesis
  proof (cases "consensus_view g n")
    case (Some b)
    then have b: "b \<in> ?E" "\<And>e. e \<in> ?E \<Longrightarrow> \<not> better_view e b" using view by auto
    then have "\<not> nh_tick b < nh_tick e" "nh_tick e = nh_tick b \<Longrightarrow> \<not> severity (nh_status b) < severity (nh_status e)"
      if "e \<in> ?E" for e using that by (auto simp: better_view_def)
    then have new: "{e \<in> ?E. nh_tick b < nh_tick e} = {}"
      and worst: "\<And>x. x \<in> nh_status ` {e \<in> ?E. nh_tick e = nh_tick b} \<Longrightarrow> \<not> severity (nh_status b) < severity x"
      by blast+
    have "nh_status b \<in> nh_status ` {e \<in> ?E. nh_tick e = nh_tick b}" using b(1) by blast
    from worst_status [OF this worst] b(1) new show ?thesis unfolding Let_def Some by simp
  qed (use view in simp)
qed

text \<open>
  Twice in one tick is lost. A publication in a tick in which the peer already got one is not
  adopted, even if the states have changed since: ties go to the entry that is there.
\<close>

theorem same_tick_report_is_lost:
  assumes "\<And>r. r \<in> set first \<Longrightarrow> nh_tick r = now" "\<And>r. r \<in> set second \<Longrightarrow> nh_tick r = now"
    and "nh_node ` set second \<subseteq> nh_node ` set first"
  shows "snd (go_merge (fst (go_merge (new_gossip b) a first)) a second) = 0 \<and>
    go_snapshot (fst (go_merge (fst (go_merge (new_gossip b) a first)) a second)) a =
      go_snapshot (fst (go_merge (new_gossip b) a first)) a"
proof -
  let ?g = "fst (go_merge (new_gossip b) a first)"
  have "\<exists>l. bm_get (reports_of ?g a) (nh_node r) = Some l \<and> nh_tick r \<le> nh_tick l" if "r \<in> set second" for r
  proof -
    have "nh_node r \<in> nh_node ` set first" using that assms(3) by blast
    then obtain r' where r': "r' \<in> set first" "nh_node r' = nh_node r" by force
    let ?get = "bm_get (reports_of ?g a) (nh_node r)"
    have new: "newest None {s \<in> set first. nh_node s = nh_node r} ?get"
      using reports_after_newest [of bm_empty "nh_node r" first]
      by (simp add: reports_of_merge) (simp add: new_gossip_def reports_of_def)
    then obtain l where l: "?get = Some l" using r' by (cases ?get) (auto simp: newest_def)
    then have "nh_tick r' \<le> nh_tick l" using new r' by (auto simp: newest_def)
    then show ?thesis using l assms(1) [OF r'(1)] assms(2) [OF that] by simp
  qed
  from merge_seen [of second ?g a, OF this] show ?thesis
    by (auto simp: go_merge_def snapshot_reports reports_of_def)
qed

end
