(* ===== verification/Semver.thy ===== *)
theory Semver imports BTree_Map "HOL-Library.Product_Lexorder" begin

text \<open>
  \<open>kai-os/pkg/src/version.rs\<close>: versions, their order, parsing and printing, and requirements. The
  type is parametric in the number type because the model registry (\<open>kai-os/ai\<close>) declares the same
  triple over \<open>u32\<close>.
\<close>

section \<open>Versions\<close>

datatype 'n semver = Semver (major: 'n) (minor: 'n) (patch: 'n)

text \<open>The derived \<open>Ord\<close> compares the fields in the order of their declaration.\<close>

instantiation semver :: (linorder) linorder
begin

definition less_eq_semver :: "'a semver \<Rightarrow> 'a semver \<Rightarrow> bool" where
  "less_eq_semver v w \<longleftrightarrow>
     major v < major w \<or>
     major v = major w \<and> (minor v < minor w \<or> minor v = minor w \<and> patch v \<le> patch w)"

definition less_semver :: "'a semver \<Rightarrow> 'a semver \<Rightarrow> bool" where
  "less_semver v w \<longleftrightarrow> v \<le> w \<and> \<not> w \<le> (v :: 'a semver)"

instance
proof
  fix u v w :: "'a semver"
  show "u < v \<longleftrightarrow> u \<le> v \<and> \<not> v \<le> u" by (rule less_semver_def)
  show "u \<le> u" by (simp add: less_eq_semver_def)
  show "u \<le> v \<Longrightarrow> v \<le> w \<Longrightarrow> u \<le> w" by (auto simp: less_eq_semver_def)
  show "u \<le> v \<Longrightarrow> v \<le> u \<Longrightarrow> u = v" by (auto simp: less_eq_semver_def intro: semver.expand)
  show "u \<le> v \<or> v \<le> u" by (auto simp: less_eq_semver_def)
qed

end

type_synonym version = "u64 semver"

datatype 'n version_req = Exact "'n semver" | Caret "'n semver"

fun req_matches :: "u64 version_req \<Rightarrow> version \<Rightarrow> bool" where
  "req_matches (Exact e) v = (e = v)"
| "req_matches (Caret c) v =
     (major v = major c \<and> (major v, minor v, patch v) \<ge> (major c, minor c, patch c))"

section \<open>Printing and parsing\<close>

definition dot :: char where
  "dot = CHR ''.''"

definition show_version :: "version \<Rightarrow> string" where
  "show_version v = show_word (major v) @ [dot] @ show_word (minor v) @ [dot] @ show_word (patch v)"

definition quoted :: "string \<Rightarrow> string" where
  "quoted s = [CHR 0x27] @ s @ [CHR 0x27]"

definition parse_part :: "string \<Rightarrow> string + u64" where
  "parse_part p = (case parse_word p of None \<Rightarrow> Inl (quoted p @ '' ist keine Zahl'') | Some n \<Rightarrow> Inr n)"

fun parse_parts :: "string list \<Rightarrow> string + u64 list" where
  "parse_parts [] = Inr []"
| "parse_parts (p # ps) =
     (case parse_part p of
        Inl e \<Rightarrow> Inl e
      | Inr n \<Rightarrow> (case parse_parts ps of Inl e \<Rightarrow> Inl e | Inr ns \<Rightarrow> Inr (n # ns)))"

definition parse_version :: "string \<Rightarrow> string + version" where
  "parse_version s =
     (let parts = split_on dot s in
      if length parts \<noteq> 3 then Inl (quoted s @ '' erwartet major.minor.patch'')
      else case parse_parts parts of
        Inl e \<Rightarrow> Inl e
      | Inr nums \<Rightarrow> Inr (Semver (nums ! 0) (nums ! 1) (nums ! 2)))"

fun show_req :: "u64 version_req \<Rightarrow> string" where
  "show_req (Exact v) = show_version v"
| "show_req (Caret v) = CHR ''^'' # show_version v"

definition parse_req :: "string \<Rightarrow> string + u64 version_req" where
  "parse_req s =
     (case s of
        CHR ''^'' # rest \<Rightarrow> map_sum id Caret (parse_version rest)
      | _ \<Rightarrow> map_sum id Exact (parse_version s))"

section \<open>Lemmas\<close>

lemma digit_neq: "digit_char d = c \<Longrightarrow> d < 10 \<Longrightarrow> (of_char c :: nat) = 48 + d"
  using of_char_digit by auto

lemma show_word_chars: "c \<in> set (show_word w) \<Longrightarrow> 48 \<le> (of_char c :: nat) \<and> (of_char c :: nat) \<le> 57"
  unfolding show_word_def by (rule show_nat_code_range)

lemma dot_notin: "dot \<notin> set (show_word w)"
  using show_word_chars [of dot w] by (auto simp: dot_def)

lemma split_version: "split_on dot (show_version v) = [show_word (major v), show_word (minor v), show_word (patch v)]"
  by (simp add: show_version_def split_on_append split_on_plain dot_notin)

lemma parse_show_version [simp]: "parse_version (show_version v) = Inr v"
  by (simp add: parse_version_def split_version parse_part_def)

lemma show_version_head: "show_version v = c # s \<Longrightarrow> c \<noteq> CHR ''^''"
proof -
  assume v: "show_version v = c # s"
  have "show_word (major v) \<noteq> []" by (simp add: show_word_def)
  with v have "c \<in> set (show_word (major v))"
    by (cases "show_word (major v)") (auto simp: show_version_def)
  then show ?thesis using show_word_chars by fastforce
qed

lemma show_version_inject [simp]: "show_version v = show_version w \<longleftrightarrow> v = w"
  by (metis parse_show_version Inr_inject)

lemma semver_le_simps [simp]:
  "Semver a b c \<le> Semver a' b' c' \<longleftrightarrow> a < a' \<or> a = a' \<and> (b < b' \<or> b = b' \<and> c \<le> c')"
  by (simp add: less_eq_semver_def)

lemma req_matches_iff:
  "req_matches (Exact e) v \<longleftrightarrow> v = e"
  "req_matches (Caret c) v \<longleftrightarrow> c \<le> v \<and> major v = major c"
  by (auto simp: less_eq_semver_def)

section \<open>Properties\<close>

text \<open>
  Versions and requirements print and parse back to themselves, so printing loses nothing.
\<close>

theorem version_roundtrip:
  "parse_version (show_version v) = Inr v \<and> parse_req (show_req q) = Inr q"
proof -
  have "parse_req (show_req q) = Inr q"
  proof (cases q)
    case (Exact w)
    obtain c s where s: "show_version w = c # s" "c \<noteq> CHR ''^''"
      using show_version_head [of w] by (cases "show_version w") (auto simp: show_version_def show_word_def)
    then have "parse_req (show_version w) = map_sum id Exact (parse_version (show_version w))"
      unfolding s(1) by (simp add: parse_req_def split: char.split bool.split)
    then show ?thesis using Exact by simp
  qed (simp add: parse_req_def)
  then show ?thesis by simp
qed

end
