(* ===== verification/Publish_Once.thy ===== *)
theory Publish_Once imports Main begin

text \<open>
  The contract of the two registries of the repository (packages in \<open>kai-os/pkg\<close>, models in
  \<open>kai-os/ai\<close>): a key once published keeps its entry, publishing it again succeeds only with the
  same content, and a requirement selects the highest version that meets it.
\<close>

text \<open>Publishing a sequence of items; refused items are dropped.\<close>

definition published :: "('r \<Rightarrow> 'm \<Rightarrow> 'r \<times> ('e + unit)) \<Rightarrow> 'r \<Rightarrow> 'm list \<Rightarrow> 'r" where
  "published pub r ms = foldl (\<lambda>r m. fst (pub r m)) r ms"

lemma published_simps [simp]:
  "published pub r [] = r"
  "published pub r (m # ms) = published pub (fst (pub r m)) ms"
  "published pub r (ms @ ms') = published pub (published pub r ms) ms'"
  by (simp_all add: published_def)

lemma published_induct:
  assumes "P r" "\<And>r m. P r \<Longrightarrow> P (fst (pub r m))"
  shows "P (published pub r ms)"
  using assms(1)
proof (induction ms arbitrary: r)
  case (Cons m ms)
  then show ?case using assms(2) by simp
qed simp

lemma found: "find P xs = Some x \<Longrightarrow> x \<in> set xs \<and> P x"
  by (induction xs) (auto split: if_splits)

text \<open>Two items with the same key are the same entry.\<close>

definition consistent :: "('m \<Rightarrow> 'k) \<Rightarrow> ('m \<Rightarrow> 'b) \<Rightarrow> 'm list \<Rightarrow> bool" where
  "consistent key entry ms \<longleftrightarrow> (\<forall>m \<in> set ms. \<forall>m' \<in> set ms. key m = key m' \<longrightarrow> entry m = entry m')"

locale publish_once =
  fixes publish :: "'r \<Rightarrow> 'm \<Rightarrow> 'r \<times> ('e + unit)"
    and key :: "'m \<Rightarrow> 'k"
    and entry :: "'m \<Rightarrow> 'b"
    and content :: "'b \<Rightarrow> 'c"
    and lookup :: "'r \<Rightarrow> 'k \<Rightarrow> 'b option"
  assumes publish_new: "lookup r (key m) = None \<Longrightarrow>
      snd (publish r m) = Inr () \<and> lookup (fst (publish r m)) = (lookup r)(key m \<mapsto> entry m)"
    and publish_known: "lookup r (key m) = Some b \<Longrightarrow>
      (snd (publish r m) = Inr () \<longleftrightarrow> content b = content (entry m)) \<and>
      lookup (fst (publish r m)) = lookup r"
begin

lemma publish_keeps: "lookup r k = Some b \<Longrightarrow> lookup (fst (publish r m)) k = Some b"
  using publish_new [of r m] publish_known [of r m] by (cases "lookup r (key m)") auto

lemma immutable: "lookup r k = Some b \<Longrightarrow> lookup (published publish r ms) k = Some b"
  by (rule published_induct) (auto intro: publish_keeps)

lemma lookup_published:
  "lookup (published publish r ms) k =
     (case lookup r k of
        Some b \<Rightarrow> Some b
      | None \<Rightarrow> map_option entry (find (\<lambda>m. key m = k) ms))"
proof (induction ms arbitrary: r)
  case (Cons m ms)
  show ?case
  proof (cases "lookup r (key m)")
    case None
    note step = publish_new [OF None, THEN conjunct2]
    show ?thesis using Cons.IH [of "fst (publish r m)"] None unfolding step by (simp split: option.split)
  next
    case (Some b)
    note step = publish_known [OF Some, THEN conjunct2]
    show ?thesis using Cons.IH [of "fst (publish r m)"] Some unfolding step by (auto split: option.split)
  qed
qed (simp split: option.split)

lemma find_consistent:
  assumes "consistent key entry ms" "m \<in> set ms" "key m = k"
  shows "map_option entry (find (\<lambda>m. key m = k) ms) = Some (entry m)"
proof -
  have "find (\<lambda>m. key m = k) ms \<noteq> None" using assms(2,3) by (auto simp: find_None_iff)
  then obtain m' where m': "find (\<lambda>m. key m = k) ms = Some m'" by auto
  have "m' \<in> set ms" "key m' = k" using found [OF m'] by simp_all
  then have "entry m' = entry m" using assms unfolding consistent_def by metis
  then show ?thesis by (simp add: m')
qed

lemma order_free:
  assumes "set ms = set ms'" "consistent key entry ms"
  shows "lookup (published publish r ms) = lookup (published publish r ms')"
proof
  fix k
  have c: "consistent key entry ms'" using assms(2) unfolding consistent_def assms(1) .
  have "map_option entry (find (\<lambda>m. key m = k) ms) = map_option entry (find (\<lambda>m. key m = k) ms')"
  proof (cases "\<exists>m \<in> set ms. key m = k")
    case True
    then obtain m where m: "m \<in> set ms" "m \<in> set ms'" "key m = k" using assms(1) by blast
    show ?thesis
      by (simp only: find_consistent [OF assms(2) m(1,3)] find_consistent [OF c m(2,3)])
  next
    case False
    then have "find (\<lambda>m. key m = k) ms = None" "find (\<lambda>m. key m = k) ms' = None"
      using assms(1) by (auto simp: find_None_iff)
    then show ?thesis by simp
  qed
  then show "lookup (published publish r ms) k = lookup (published publish r ms') k"
    by (simp only: lookup_published)
qed

lemma refused_iff:
  "snd (publish r m) = Inr () \<longleftrightarrow>
     (case lookup r (key m) of None \<Rightarrow> True | Some b \<Rightarrow> content b = content (entry m))"
  using publish_new [of r m] publish_known [of r m] by (auto split: option.split)

end

text \<open>A registry of versions, with the selection of a version by a predicate.\<close>

locale version_registry =
  publish_once publish key entry content lookup
  for publish :: "'r \<Rightarrow> 'm \<Rightarrow> 'r \<times> ('e + unit)"
    and key :: "'m \<Rightarrow> 'n \<times> ('v::linorder)"
    and entry :: "'m \<Rightarrow> 'b"
    and content :: "'b \<Rightarrow> 'c"
    and lookup :: "'r \<Rightarrow> 'n \<times> 'v \<Rightarrow> 'b option" +
  fixes best :: "'r \<Rightarrow> 'n \<Rightarrow> ('v \<Rightarrow> bool) \<Rightarrow> 'v option"
    and inv :: "'r \<Rightarrow> bool"
  assumes inv_publish: "inv r \<Longrightarrow> inv (fst (publish r m))"
    and best_Some: "inv r \<Longrightarrow> best r n P = Some v \<longleftrightarrow>
      lookup r (n, v) \<noteq> None \<and> P v \<and> (\<forall>w. lookup r (n, w) \<noteq> None \<and> P w \<longrightarrow> w \<le> v)"
    and best_None: "inv r \<Longrightarrow> best r n P = None \<longleftrightarrow> (\<forall>w. lookup r (n, w) \<noteq> None \<longrightarrow> \<not> P w)"
begin

lemma inv_published: "inv r \<Longrightarrow> inv (published publish r ms)"
  by (rule published_induct) (auto intro: inv_publish)

lemma best_exists:
  assumes "inv r" "lookup r (n, v) \<noteq> None" "P v"
  shows "\<exists>w. best r n P = Some w \<and> v \<le> w"
proof -
  obtain w where "best r n P = Some w"
    using best_None [OF assms(1), of n P] assms(2,3) by (cases "best r n P") blast+
  then show ?thesis using assms(2,3) best_Some [OF assms(1), of n P w] by blast
qed

lemma best_order_free:
  assumes "inv r" "set ms = set ms'" "consistent key entry ms"
  shows "best (published publish r ms) n P = best (published publish r ms') n P"
proof -
  note same = order_free [OF assms(2,3), of r] and i = inv_published [OF assms(1)]
  show ?thesis
  proof (cases "best (published publish r ms) n P")
    case None
    then have "best (published publish r ms') n P = None"
      using best_None [OF i, of ms n P] best_None [OF i, of ms' n P] unfolding same by blast
    with None show ?thesis by simp
  next
    case (Some v)
    then have "best (published publish r ms') n P = Some v"
      using best_Some [OF i, of ms n P v] best_Some [OF i, of ms' n P v] unfolding same by blast
    with Some show ?thesis by simp
  qed
qed

lemma best_grows:
  assumes "inv r" "best r n P = Some v"
  shows "\<exists>w. best (published publish r ms) n P = Some w \<and> v \<le> w"
proof (rule best_exists [OF inv_published [OF assms(1)]])
  have v: "lookup r (n, v) \<noteq> None" "P v" using assms(2) best_Some [OF assms(1)] by blast+
  then show "lookup (published publish r ms) (n, v) \<noteq> None" using immutable [of r "(n, v)"] by auto
  show "P v" by (rule v(2))
qed

end

end
