(* ===== verification/Packages.thy ===== *)
theory Packages imports Semver Publish_Once begin

text \<open>
  \<open>kai-os/pkg/src/manifest.rs\<close> and \<open>registry.rs\<close>: publishing packages, selecting versions, and the
  depth-first resolution of a root package.
\<close>

section \<open>The registry\<close>

record dependency =
  dep_name :: string
  dep_req :: "u64 version_req"

record package_manifest =
  pm_name :: string
  pm_version :: version
  pm_deps :: "dependency list"

datatype pkg_error =
    Duplicate_Name_Version string version
  | Missing_Dependency string "u64 version_req"
  | Cycle_Detected string
  | Registry_Poisoned string

record pkg_entry =
  pe_manifest :: package_manifest
  pe_integrity :: string

record resolved_pkg =
  rp_name :: string
  rp_version :: version
  rp_integrity :: string

record resolution_plan =
  plan_packages :: "resolved_pkg list"

record pkg_registry =
  pr_packages :: "(string, (version, pkg_entry) bmap) bmap"

definition new_pkg_registry :: pkg_registry where
  "new_pkg_registry = \<lparr>pr_packages = bm_empty\<rparr>"

definition pkg_publish ::
  "digest \<Rightarrow> pkg_registry \<Rightarrow> package_manifest \<Rightarrow> bytes \<Rightarrow> pkg_registry \<times> (pkg_error + unit)" where
  "pkg_publish D r m content =
     (let integrity = sha_hex D content;
          slot = (case bm_get (pr_packages r) (pm_name m) of None \<Rightarrow> bm_empty | Some s \<Rightarrow> s);
          set_slot = (\<lambda>s. r\<lparr>pr_packages := bm_insert (pm_name m) s (pr_packages r)\<rparr>)
      in case bm_get slot (pm_version m) of
           Some existing \<Rightarrow>
             (set_slot slot,
              if pe_integrity existing \<noteq> integrity
              then Inl (Duplicate_Name_Version (pm_name m) (pm_version m)) else Inr ())
         | None \<Rightarrow>
             (set_slot (bm_insert (pm_version m) \<lparr>pe_manifest = m, pe_integrity = integrity\<rparr> slot), Inr ()))"

definition best_match :: "pkg_registry \<Rightarrow> string \<Rightarrow> u64 version_req \<Rightarrow> version option" where
  "best_match r name req = do {
     slot \<leftarrow> bm_get (pr_packages r) name;
     find (req_matches req) (rev (bm_keys slot))
   }"

definition highest :: "pkg_registry \<Rightarrow> string \<Rightarrow> version option" where
  "highest r name = do {
     slot \<leftarrow> bm_get (pr_packages r) name;
     (case rev (bm_keys slot) of [] \<Rightarrow> None | v # _ \<Rightarrow> Some v)
   }"

definition entry_of :: "pkg_registry \<Rightarrow> string \<Rightarrow> version \<Rightarrow> pkg_entry option" where
  "entry_of r name v = do { slot \<leftarrow> bm_get (pr_packages r) name; bm_get slot v }"

definition integrity_of :: "pkg_registry \<Rightarrow> string \<Rightarrow> version \<Rightarrow> string option" where
  "integrity_of r name v = map_option pe_integrity (entry_of r name v)"

section \<open>Publishing and selection as the shared contract\<close>

definition pkg_lookup :: "pkg_registry \<Rightarrow> string \<times> version \<Rightarrow> pkg_entry option" where
  "pkg_lookup r k = entry_of r (fst k) (snd k)"

definition pkg_key :: "package_manifest \<times> bytes \<Rightarrow> string \<times> version" where
  "pkg_key x = (pm_name (fst x), pm_version (fst x))"

definition pkg_item :: "digest \<Rightarrow> package_manifest \<times> bytes \<Rightarrow> pkg_entry" where
  "pkg_item D x = \<lparr>pe_manifest = fst x, pe_integrity = sha_hex D (snd x)\<rparr>"

definition pkg_pub :: "digest \<Rightarrow> pkg_registry \<Rightarrow> package_manifest \<times> bytes \<Rightarrow> pkg_registry \<times> (pkg_error + unit)" where
  "pkg_pub D r x = pkg_publish D r (fst x) (snd x)"

definition pick_version :: "pkg_registry \<Rightarrow> string \<Rightarrow> (version \<Rightarrow> bool) \<Rightarrow> version option" where
  "pick_version r name P = do {
     slot \<leftarrow> bm_get (pr_packages r) name;
     find P (rev (bm_keys slot))
   }"

lemma entry_keys:
  "bm_get (pr_packages r) n = Some slot \<Longrightarrow> entry_of r n v \<noteq> None \<longleftrightarrow> v \<in> set (bm_keys slot)"
  by (auto simp: entry_of_def set_bm_keys)

lemma entry_unknown: "bm_get (pr_packages r) n = None \<Longrightarrow> entry_of r n v = None"
  by (simp add: entry_of_def)

lemma best_match_pick: "best_match r n q = pick_version r n (req_matches q)"
  by (simp add: best_match_def pick_version_def)

lemma highest_pick: "highest r n = pick_version r n (\<lambda>_. True)"
  by (auto simp: highest_def pick_version_def bind_eq_None_conv split: list.split intro!: arg_cong [where f = "Option.bind _"] ext)

interpretation pkgs: version_registry "pkg_pub D" pkg_key "pkg_item D" pe_integrity pkg_lookup pick_version "\<lambda>_. True" for D
proof unfold_locales
  fix r x b n P v
  show "pkg_lookup r (pkg_key x) = None \<Longrightarrow> snd (pkg_pub D r x) = Inr () \<and>
      pkg_lookup (fst (pkg_pub D r x)) = (pkg_lookup r)(pkg_key x \<mapsto> pkg_item D x)"
    by (auto simp: pkg_lookup_def entry_of_def pkg_key_def pkg_pub_def pkg_publish_def pkg_item_def Let_def
        fun_eq_iff split: option.splits)
  show "pkg_lookup r (pkg_key x) = Some b \<Longrightarrow>
      (snd (pkg_pub D r x) = Inr () \<longleftrightarrow> pe_integrity b = pe_integrity (pkg_item D x)) \<and>
      pkg_lookup (fst (pkg_pub D r x)) = pkg_lookup r"
    by (auto simp: pkg_lookup_def entry_of_def pkg_key_def pkg_pub_def pkg_publish_def pkg_item_def Let_def
        fun_eq_iff bind_eq_Some_conv split: option.splits)
  show "pick_version r n P = Some v \<longleftrightarrow> pkg_lookup r (n, v) \<noteq> None \<and> P v \<and>
      (\<forall>w. pkg_lookup r (n, w) \<noteq> None \<and> P w \<longrightarrow> w \<le> v)"
    by (cases "bm_get (pr_packages r) n")
      (auto simp: pick_version_def pkg_lookup_def entry_keys entry_unknown find_rev_ascending
        simp del: not_None_eq)
  show "pick_version r n P = None \<longleftrightarrow> (\<forall>w. pkg_lookup r (n, w) \<noteq> None \<longrightarrow> \<not> P w)"
    by (cases "bm_get (pr_packages r) n")
      (auto simp: pick_version_def pkg_lookup_def entry_keys entry_unknown find_rev_None
        simp del: not_None_eq)
qed

lemmas pick_Some = pkgs.best_Some [OF TrueI]

text \<open>A slot is never left empty, so a registry is determined by its entries.\<close>

definition slots_filled :: "pkg_registry \<Rightarrow> bool" where
  "slots_filled r \<longleftrightarrow> (\<forall>n. bm_get (pr_packages r) n \<noteq> Some bm_empty)"

lemma slots_filled_publish: "slots_filled r \<Longrightarrow> slots_filled (fst (pkg_pub D r x))"
  by (auto simp: slots_filled_def pkg_pub_def pkg_publish_def Let_def split: option.splits)

lemma slots_filled_published: "slots_filled r \<Longrightarrow> slots_filled (published (pkg_pub D) r xs)"
  by (rule published_induct) (auto intro: slots_filled_publish)

lemma slots_filled_new: "slots_filled new_pkg_registry"
  by (simp add: slots_filled_def new_pkg_registry_def)

lemma registry_eqI:
  assumes "slots_filled r" "slots_filled r'" "pkg_lookup r = pkg_lookup r'"
  shows "r = r'"
proof -
  have "entry_of r n v = entry_of r' n v" for n v
    using fun_cong [OF assms(3), of "(n, v)"] by (simp add: pkg_lookup_def)
  then have "pr_packages r = pr_packages r'"
    using assms(1,2) by (intro nested_eqI) (simp_all add: slots_filled_def entry_of_def)
  then show ?thesis by simp
qed

section \<open>Resolution\<close>

text \<open>
  \<open>resolve_inner\<close> (\<open>Inl\<close>) and the loop over the dependencies of an entry (\<open>Inr\<close>), with the path of
  ancestors and the packages resolved so far. Every recursion below a package goes through a name
  of the registry that is not yet on the path, so the number of such names decreases.
\<close>

definition unvisited :: "pkg_registry \<Rightarrow> string list \<Rightarrow> nat" where
  "unvisited r path = card (dom (bm_get (pr_packages r)) - set path)"

lemma unvisited_less:
  assumes "entry_of r n v = Some e" "n \<notin> set path"
  shows "unvisited r (path @ [n]) < unvisited r path"
proof -
  have "n \<in> dom (bm_get (pr_packages r))" using assms(1) by (auto simp: entry_of_def bind_eq_Some_conv)
  then show ?thesis unfolding unvisited_def using assms(2) by (intro psubset_card_mono) auto
qed

function (sequential) resolve_inner ::
    "pkg_registry \<Rightarrow> string \<Rightarrow> version \<Rightarrow> string list \<Rightarrow> (string, resolved_pkg) bmap \<Rightarrow>
     pkg_error + (string, resolved_pkg) bmap"
  and resolve_deps ::
    "pkg_registry \<Rightarrow> dependency list \<Rightarrow> string list \<Rightarrow> (string, resolved_pkg) bmap \<Rightarrow>
     pkg_error + (string, resolved_pkg) bmap" where
  "resolve_inner r name v path resolved =
     (if name \<in> set path then Inl (Cycle_Detected name)
      else if bm_contains resolved name then Inr resolved
      else case entry_of r name v of
        None \<Rightarrow> Inl (Registry_Poisoned name)
      | Some e \<Rightarrow>
          (case resolve_deps r (pm_deps (pe_manifest e)) (path @ [name]) resolved of
             Inl err \<Rightarrow> Inl err
           | Inr res \<Rightarrow>
               Inr (bm_insert name \<lparr>rp_name = name, rp_version = v, rp_integrity = pe_integrity e\<rparr> res)))"
| "resolve_deps r [] path resolved = Inr resolved"
| "resolve_deps r (d # ds) path resolved =
     (case best_match r (dep_name d) (dep_req d) of
        None \<Rightarrow> Inl (Missing_Dependency (dep_name d) (dep_req d))
      | Some v \<Rightarrow>
          (case resolve_inner r (dep_name d) v path resolved of
             Inl err \<Rightarrow> Inl err
           | Inr res \<Rightarrow> resolve_deps r ds path res))"
  by pat_completeness auto

termination
  by (relation "measures
      [\<lambda>x. case x of Inl (r, n, v, path, res) \<Rightarrow> unvisited r path | Inr (r, ds, path, res) \<Rightarrow> unvisited r path,
       \<lambda>x. case x of Inl _ \<Rightarrow> 0 | Inr (r, ds, path, res) \<Rightarrow> Suc (length ds)]")
    (auto simp: unvisited_less)

declare resolve_inner.simps [simp del]

lemma resolve_inner_Inr:
  "resolve_inner r n v path res = Inr res' \<longleftrightarrow>
     n \<notin> set path \<and>
     (if bm_contains res n then res' = res
      else \<exists>e res1. entry_of r n v = Some e \<and>
        resolve_deps r (pm_deps (pe_manifest e)) (path @ [n]) res = Inr res1 \<and>
        res' = bm_insert n \<lparr>rp_name = n, rp_version = v, rp_integrity = pe_integrity e\<rparr> res1)"
  by (auto simp: resolve_inner.simps [of r n v] split: option.splits sum.splits)

lemma resolve_inner_Inl:
  "resolve_inner r n v path res = Inl err \<longleftrightarrow>
     (if n \<in> set path then err = Cycle_Detected n
      else \<not> bm_contains res n \<and>
        (case entry_of r n v of
           None \<Rightarrow> err = Registry_Poisoned n
         | Some e \<Rightarrow> resolve_deps r (pm_deps (pe_manifest e)) (path @ [n]) res = Inl err))"
  by (auto simp: resolve_inner.simps [of r n v] split: option.splits sum.splits)

definition resolve :: "pkg_registry \<Rightarrow> string \<Rightarrow> pkg_error + resolution_plan" where
  "resolve r root =
     (case highest r root of
        None \<Rightarrow> Inl (Registry_Poisoned root)
      | Some v \<Rightarrow>
          (case resolve_inner r root v [] bm_empty of
             Inl err \<Rightarrow> Inl err
           | Inr res \<Rightarrow> Inr \<lparr>plan_packages = bm_values res\<rparr>))"

section \<open>What a resolution is\<close>

text \<open>
  \<open>demands\<close>: an entry has a dependency for which a version is selected. An install order lists each
  name once, with an entry of the registry, after all its dependencies.
\<close>

definition demands :: "pkg_registry \<Rightarrow> ((string \<times> version) \<times> (string \<times> version)) set" where
  "demands r = {(x, y). \<exists>e d. pkg_lookup r x = Some e \<and> d \<in> set (pm_deps (pe_manifest e)) \<and>
     fst y = dep_name d \<and> best_match r (dep_name d) (dep_req d) = Some (snd y)}"

inductive install_order :: "pkg_registry \<Rightarrow> resolved_pkg list \<Rightarrow> bool" for r where
  none: "install_order r []"
| more: "install_order r ps \<Longrightarrow> rp_name p \<notin> rp_name ` set ps \<Longrightarrow>
    entry_of r (rp_name p) (rp_version p) = Some e \<Longrightarrow> rp_integrity p = pe_integrity e \<Longrightarrow>
    (\<forall>d \<in> set (pm_deps (pe_manifest e)). dep_name d \<in> rp_name ` set ps) \<Longrightarrow>
    install_order r (ps @ [p])"

definition by_name :: "resolved_pkg list \<Rightarrow> (string, resolved_pkg) bmap" where
  "by_name ps = bm_of_list (map (\<lambda>p. (rp_name p, p)) ps)"

lemma by_name_simps [simp]:
  "by_name [] = bm_empty"
  "by_name (ps @ [p]) = bm_insert (rp_name p) p (by_name ps)"
  by (simp_all add: by_name_def bm_of_list_def)

lemma dom_by_name: "bm_contains (by_name ps) n \<longleftrightarrow> n \<in> rp_name ` set ps"
  by (auto simp: bm_contains_iff by_name_def set_bm_keys_of_list image_image)

lemma install_order_distinct: "install_order r ps \<Longrightarrow> distinct (map rp_name ps)"
  by (induction rule: install_order.induct) auto

text \<open>The state of the resolution: an install order, disjoint from the path, all of it demanded
  directly or indirectly by the root.\<close>

definition resolving ::
  "pkg_registry \<Rightarrow> string \<times> version \<Rightarrow> string list \<Rightarrow> (string, resolved_pkg) bmap \<Rightarrow> resolved_pkg list \<Rightarrow> bool" where
  "resolving r start path res ps \<longleftrightarrow>
     install_order r ps \<and> res = by_name ps \<and> rp_name ` set ps \<inter> set path = {} \<and>
     (\<forall>p \<in> set ps. (start, (rp_name p, rp_version p)) \<in> (demands r)\<^sup>*)"

lemma resolve_steps:
  "resolving r start path res ps \<Longrightarrow> (start, (n, v)) \<in> (demands r)\<^sup>* \<Longrightarrow>
   resolve_inner r n v path res = Inr res' \<Longrightarrow>
   \<exists>qs. resolving r start path res' (ps @ qs) \<and> n \<in> rp_name ` set (ps @ qs) \<and>
     (bm_contains res n \<or> (\<exists>p. qs \<noteq> [] \<and> p = last qs \<and> rp_name p = n \<and> rp_version p = v))"
  "resolving r start path res ps \<Longrightarrow>
   (\<And>d w. d \<in> set ds \<Longrightarrow> best_match r (dep_name d) (dep_req d) = Some w \<Longrightarrow>
      (start, (dep_name d, w)) \<in> (demands r)\<^sup>*) \<Longrightarrow>
   resolve_deps r ds path res = Inr res' \<Longrightarrow>
   \<exists>qs. resolving r start path res' (ps @ qs) \<and> dep_name ` set ds \<subseteq> rp_name ` set (ps @ qs)"
proof (induction r n v path res and r ds path res arbitrary: res' ps and res' ps
    rule: resolve_inner_resolve_deps.induct)
  case (1 r name v path resolved)
  note inv = 1(2) [unfolded resolving_def]
  show ?case
  proof (cases "bm_contains resolved name")
    case True
    have "resolving r start path res' (ps @ [])" using 1(2,4) True by (simp add: resolve_inner_Inr)
    moreover have "name \<in> rp_name ` set ps" using inv True dom_by_name by metis
    ultimately show ?thesis using True by fastforce
  next
    case False
    then obtain e res where n: "name \<notin> set path" and e: "entry_of r name v = Some e"
      and deps: "resolve_deps r (pm_deps (pe_manifest e)) (path @ [name]) resolved = Inr res"
      and res': "res' = bm_insert name \<lparr>rp_name = name, rp_version = v, rp_integrity = pe_integrity e\<rparr> res"
      using 1(4) by (auto simp: resolve_inner_Inr)
    have fresh: "name \<notin> rp_name ` set ps" using inv False dom_by_name by metis
    have "resolving r start (path @ [name]) resolved ps"
      using inv fresh by (auto simp: resolving_def)
    moreover have "(start, (dep_name d, w)) \<in> (demands r)\<^sup>*"
      if "d \<in> set (pm_deps (pe_manifest e))" "best_match r (dep_name d) (dep_req d) = Some w" for d w
    proof (rule rtrancl_into_rtrancl [OF 1(3)])
      show "((name, v), (dep_name d, w)) \<in> demands r"
        using that e by (auto simp: demands_def pkg_lookup_def)
    qed
    ultimately obtain qs where qs: "resolving r start (path @ [name]) res (ps @ qs)"
      "dep_name ` set (pm_deps (pe_manifest e)) \<subseteq> rp_name ` set (ps @ qs)"
      using 1(1) [OF n False e] deps by blast
    let ?p = "\<lparr>rp_name = name, rp_version = v, rp_integrity = pe_integrity e\<rparr>"
    have "install_order r ((ps @ qs) @ [?p])"
      using qs e by (intro install_order.more [of r "ps @ qs" ?p e]) (auto simp: resolving_def)
    moreover have "by_name ((ps @ qs) @ [?p]) = res'"
      using qs(1) unfolding by_name_simps res' by (simp add: resolving_def)
    ultimately have "resolving r start path res' (ps @ (qs @ [?p]))"
      using qs(1) n 1(3) by (auto simp: resolving_def)
    then show ?thesis by (intro exI [of _ "qs @ [?p]"]) auto
  qed
next
  case (2 r path resolved)
  then show ?case by (intro exI [of _ "[]"]) auto
next
  case (3 r d ds path resolved)
  then obtain v res where v: "best_match r (dep_name d) (dep_req d) = Some v"
    and inner: "resolve_inner r (dep_name d) v path resolved = Inr res"
    and rest: "resolve_deps r ds path res = Inr res'"
    by (auto split: option.splits sum.splits)
  obtain qs where qs: "resolving r start path res (ps @ qs)" "dep_name d \<in> rp_name ` set (ps @ qs)"
    using 3(1) [OF v 3(3) _ inner] 3(4) [OF _ v] by auto
  obtain qs' where "resolving r start path res' ((ps @ qs) @ qs')"
      "dep_name ` set ds \<subseteq> rp_name ` set ((ps @ qs) @ qs')"
    using 3(2) [OF v inner qs(1) _ rest] 3(4) by auto
  then show ?case using qs(2) by (intro exI [of _ "qs @ qs'"]) auto
qed

section \<open>Why a resolution fails\<close>

fun failure_reason :: "pkg_registry \<Rightarrow> string \<times> version \<Rightarrow> pkg_error \<Rightarrow> bool" where
  "failure_reason r start (Missing_Dependency n q) \<longleftrightarrow>
     (\<exists>x e d. (start, x) \<in> (demands r)\<^sup>* \<and> pkg_lookup r x = Some e \<and> d \<in> set (pm_deps (pe_manifest e)) \<and>
        dep_name d = n \<and> dep_req d = q \<and> best_match r n q = None)"
| "failure_reason r start (Cycle_Detected n) \<longleftrightarrow>
     (\<exists>v w. (start, (n, v)) \<in> (demands r)\<^sup>* \<and> ((n, v), (n, w)) \<in> (demands r)\<^sup>+)"
| "failure_reason r start _ \<longleftrightarrow> False"

text \<open>The names on the path belong to ancestors of an entry.\<close>

definition ancestors :: "pkg_registry \<Rightarrow> string \<times> version \<Rightarrow> string list \<Rightarrow> string \<times> version \<Rightarrow> bool" where
  "ancestors r start path x \<longleftrightarrow>
     (\<forall>a \<in> set path. \<exists>u. (start, (a, u)) \<in> (demands r)\<^sup>* \<and> ((a, u), x) \<in> (demands r)\<^sup>*)"

lemma best_match_entry: "best_match r n q = Some v \<Longrightarrow> \<exists>e. entry_of r n v = Some e"
  unfolding best_match_pick pick_Some by (auto simp: pkg_lookup_def)

lemma resolve_failures:
  "(start, (n, v)) \<in> (demands r)\<^sup>* \<Longrightarrow> entry_of r n v = Some e \<Longrightarrow>
   (\<And>a. a \<in> set path \<Longrightarrow> \<exists>u. (start, (a, u)) \<in> (demands r)\<^sup>* \<and> ((a, u), (n, v)) \<in> (demands r)\<^sup>+) \<Longrightarrow>
   resolve_inner r n v path res = Inl err \<Longrightarrow> failure_reason r start err"
  "(start, x) \<in> (demands r)\<^sup>* \<Longrightarrow> pkg_lookup r x = Some e \<Longrightarrow> set ds \<subseteq> set (pm_deps (pe_manifest e)) \<Longrightarrow>
   ancestors r start path x \<Longrightarrow> resolve_deps r ds path res = Inl err \<Longrightarrow> failure_reason r start err"
proof (induction r n v path res and r ds path res arbitrary: e and x e
    rule: resolve_inner_resolve_deps.induct)
  case (1 r name v path resolved)
  show ?case
  proof (cases "name \<in> set path")
    case True
    then have "err = Cycle_Detected name" using 1(5) by (simp add: resolve_inner_Inl)
    then show ?thesis using 1(4) [OF True] by auto
  next
    case False
    then have deps: "\<not> bm_contains resolved name"
        "resolve_deps r (pm_deps (pe_manifest e)) (path @ [name]) resolved = Inl err"
      using 1(5) 1(3) by (simp_all add: resolve_inner_Inl)
    have "ancestors r start (path @ [name]) (name, v)"
      using 1(2,4) by (auto simp: ancestors_def intro: trancl_into_rtrancl)
    then show ?thesis
      using 1(1) [OF False deps(1) 1(3), of "(name, v)" e] 1(2,3) deps(2) by (simp add: pkg_lookup_def)
  qed
next
  case (3 r d ds path resolved)
  have d: "d \<in> set (pm_deps (pe_manifest e))" using 3(5) by simp
  show ?case
  proof (cases "best_match r (dep_name d) (dep_req d)")
    case None
    then have "err = Missing_Dependency (dep_name d) (dep_req d)" using 3(7) by simp
    then show ?thesis using 3(3,4) d None by (cases x) auto
  next
    case (Some w)
    have step: "(x, (dep_name d, w)) \<in> demands r" using 3(4) d Some by (auto simp: demands_def)
    show ?thesis
    proof (cases "resolve_inner r (dep_name d) w path resolved")
      case (Inl err')
      obtain e' where e': "entry_of r (dep_name d) w = Some e'" using best_match_entry [OF Some] by blast
      have "\<exists>u. (start, (a, u)) \<in> (demands r)\<^sup>* \<and> ((a, u), (dep_name d, w)) \<in> (demands r)\<^sup>+" if "a \<in> set path" for a
        using 3(6) that step unfolding ancestors_def by (meson rtrancl_into_trancl1)
      then show ?thesis
        using 3(1) [OF Some _ e'] 3(7) Inl Some step rtrancl_into_rtrancl [OF 3(3) step] by simp
    next
      case (Inr res')
      then show ?thesis using 3(2) [OF Some Inr 3(3,4)] 3(5-7) Some by simp
    qed
  qed
qed simp

lemma by_name_get:
  "install_order r ps \<Longrightarrow> bm_get (by_name ps) k = Some p \<longleftrightarrow> p \<in> set ps \<and> rp_name p = k"
proof (induction arbitrary: k p rule: install_order.induct)
  case (more ps q e)
  then show ?case by (cases "rp_name q = k") (auto simp: image_iff)
qed simp

lemma plan_of_order:
  assumes "install_order r ps"
  shows "set (bm_values (by_name ps)) = set ps" "sorted_wrt (<) (map rp_name (bm_values (by_name ps)))"
proof -
  show "set (bm_values (by_name ps)) = set ps"
    using by_name_get [OF assms] by (auto simp: set_bm_values)
  have "map rp_name (bm_values (by_name ps)) = bm_keys (by_name ps)"
    unfolding bm_values_def bm_keys_def map_map
    by (rule map_cong [OF refl]) (auto simp: by_name_get [OF assms] simp flip: bm_get_iff)
  then show "sorted_wrt (<) (map rp_name (bm_values (by_name ps)))" by simp
qed

text \<open>
  C32: Resolution is sound and its failures are real. The recursion always terminates. A plan lists,
  sorted by name and each name once, entries of the registry with their integrity that the root
  demands directly or indirectly, the root in its highest version; and they can be put in an order
  in which every package comes after all its dependencies, so there is no cycle. An error is a
  dependency that the root demands and no version meets, a cycle of demands below the root, or an
  unknown root.
\<close>

theorem resolve_sound_and_justified:
  "case resolve r root of
     Inr plan \<Rightarrow>
       \<exists>ps v. highest r root = Some v \<and> install_order r ps \<and> ps \<noteq> [] \<and>
         rp_name (last ps) = root \<and> rp_version (last ps) = v \<and>
         set (plan_packages plan) = set ps \<and> sorted_wrt (<) (map rp_name (plan_packages plan)) \<and>
         set (map (\<lambda>p. (rp_name p, rp_version p)) ps) \<subseteq> (demands r)\<^sup>* `` {(root, v)}
   | Inl err \<Rightarrow>
       (case highest r root of
          None \<Rightarrow> err = Registry_Poisoned root
        | Some v \<Rightarrow> failure_reason r (root, v) err)"
proof (cases "highest r root")
  case None
  then show ?thesis by (simp add: resolve_def)
next
  case (Some v)
  show ?thesis
  proof (cases "resolve_inner r root v [] bm_empty")
    case (Inl err)
    obtain e where "entry_of r root v = Some e"
      using Some by (auto simp: highest_pick pick_Some pkg_lookup_def)
    then have "failure_reason r (root, v) err" using resolve_failures(1) [OF _ _ _ Inl] by simp
    then show ?thesis using Some Inl by (simp add: resolve_def)
  next
    case (Inr res)
    have "resolving r (root, v) [] bm_empty []" by (simp add: resolving_def install_order.none)
    from resolve_steps(1) [OF this rtrancl.rtrancl_refl Inr]
    obtain ps where ps: "resolving r (root, v) [] res ps" "ps \<noteq> []" "rp_name (last ps) = root"
        "rp_version (last ps) = v"
      by (auto simp: bm_contains_def)
    then have order: "install_order r ps" "res = by_name ps" by (simp_all add: resolving_def)
    have "set (map (\<lambda>p. (rp_name p, rp_version p)) ps) \<subseteq> (demands r)\<^sup>* `` {(root, v)}"
      using ps(1) by (auto simp: resolving_def)
    then show ?thesis using Some Inr ps(2-4) order plan_of_order [OF order(1)]
      by (auto simp: resolve_def intro!: exI [of _ ps])
  qed
qed

text \<open>A registry in which \<open>app\<close> accepts every \<open>lib\<close> from 1.0.0 and \<open>tool\<close> only 1.0.0.\<close>

definition sv :: "u64 \<Rightarrow> version" where
  "sv n = Semver 1 n 0"

definition diamond :: "(package_manifest \<times> bytes) list" where
  "diamond =
     [(\<lparr>pm_name = ''lib'', pm_version = sv 0, pm_deps = []\<rparr>, []),
      (\<lparr>pm_name = ''lib'', pm_version = sv 1, pm_deps = []\<rparr>, []),
      (\<lparr>pm_name = ''tool'', pm_version = sv 0, pm_deps = [\<lparr>dep_name = ''lib'', dep_req = Exact (sv 0)\<rparr>]\<rparr>, []),
      (\<lparr>pm_name = ''app'', pm_version = sv 0,
        pm_deps = [\<lparr>dep_name = ''lib'', dep_req = Caret (sv 0)\<rparr>, \<lparr>dep_name = ''tool'', dep_req = Caret (sv 0)\<rparr>]\<rparr>, [])]"

definition diamond_registry :: "digest \<Rightarrow> pkg_registry" where
  "diamond_registry D = published (pkg_pub D) new_pkg_registry diamond"

lemma sv_simps [simp]: "sv a \<le> sv b \<longleftrightarrow> a \<le> b" "sv a < sv b \<longleftrightarrow> a < b" "sv a = sv b \<longleftrightarrow> a = b" "major (sv a) = 1"
  by (auto simp: sv_def less_le)

lemma get_pub:
  "bm_get (pr_packages (fst (pkg_pub D r x))) n =
     (if n \<noteq> pm_name (fst x) then bm_get (pr_packages r) n
      else case bm_get (pr_packages r) n of
        None \<Rightarrow> Some (bm_insert (pm_version (fst x)) (pkg_item D x) bm_empty)
      | Some slot \<Rightarrow>
          Some (if bm_contains slot (pm_version (fst x)) then slot
                else bm_insert (pm_version (fst x)) (pkg_item D x) slot))"
  by (auto simp: pkg_pub_def pkg_publish_def pkg_item_def Let_def bm_contains_def split: option.split)

lemma diamond_packages:
  "bm_get (pr_packages (diamond_registry D)) ''lib'' =
     Some (bm_insert (sv 1) (pkg_item D (diamond ! 1)) (bm_insert (sv 0) (pkg_item D (diamond ! 0)) bm_empty))"
  "bm_get (pr_packages (diamond_registry D)) ''tool'' = Some (bm_insert (sv 0) (pkg_item D (diamond ! 2)) bm_empty)"
  "bm_get (pr_packages (diamond_registry D)) ''app'' = Some (bm_insert (sv 0) (pkg_item D (diamond ! 3)) bm_empty)"
  by (simp_all add: diamond_registry_def diamond_def get_pub new_pkg_registry_def bm_contains_def)

lemma diamond_best:
  "best_match (diamond_registry D) ''lib'' (Caret (sv 0)) = Some (sv 1)"
  "best_match (diamond_registry D) ''lib'' (Exact (sv 0)) = Some (sv 0)"
  "best_match (diamond_registry D) ''tool'' (Caret (sv 0)) = Some (sv 0)"
  "highest (diamond_registry D) ''app'' = Some (sv 0)"
  by (simp_all add: best_match_def highest_def diamond_packages bm_keys_def req_matches_iff del: req_matches.simps)

text \<open>
  The version first chosen for a name is reused for every later dependency on that name, whatever
  it requires: the plan of \<open>app\<close> contains \<open>tool\<close> and a version of \<open>lib\<close> that \<open>tool\<close> excludes,
  although a version that both accept is published.
\<close>

theorem resolution_ignores_later_requirements:
  "\<exists>plan. resolve (diamond_registry D) ''app'' = Inr plan \<and>
     map (\<lambda>p. (rp_name p, rp_version p)) (plan_packages plan) =
       [(''app'', sv 0), (''lib'', sv 1), (''tool'', sv 0)] \<and>
     map_option (\<lambda>e. pm_deps (pe_manifest e)) (entry_of (diamond_registry D) ''tool'' (sv 0)) =
       Some [\<lparr>dep_name = ''lib'', dep_req = Exact (sv 0)\<rparr>] \<and>
     \<not> req_matches (Exact (sv 0)) (sv 1) \<and>
     req_matches (Caret (sv 0)) (sv 0) \<and> entry_of (diamond_registry D) ''lib'' (sv 0) \<noteq> None"
proof -
  have e: "entry_of (diamond_registry D) ''lib'' (sv 0) = Some (pkg_item D (diamond ! 0))"
    "entry_of (diamond_registry D) ''lib'' (sv 1) = Some (pkg_item D (diamond ! 1))"
    "entry_of (diamond_registry D) ''tool'' (sv 0) = Some (pkg_item D (diamond ! 2))"
    "entry_of (diamond_registry D) ''app'' (sv 0) = Some (pkg_item D (diamond ! 3))"
    by (simp_all add: entry_of_def diamond_packages)
  note item = pkg_item_def diamond_def
  show ?thesis
    by (simp add: resolve_def diamond_best resolve_inner.simps e item bm_contains_def bm_values_def)
qed

end
