(* ===== verification/Lockfile.thy ===== *)
theory Lockfile imports Packages "HOL-Library.Multiset" begin

text \<open>
  \<open>kai-os/pkg/src/lockfile.rs\<close>: lockfiles from plans, their text, and their verification against a
  registry; with the end-to-end property of the package manager.
\<close>

record lock_entry =
  le_name :: string
  le_version :: version
  le_integrity :: string

record lockfile =
  lf_root :: string
  lf_entries :: "lock_entry list"

definition lock_from_plan :: "string \<Rightarrow> resolution_plan \<Rightarrow> lockfile" where
  "lock_from_plan root plan =
     \<lparr>lf_root = root,
      lf_entries = sort_key le_name
        (map (\<lambda>p. \<lparr>le_name = rp_name p, le_version = rp_version p, le_integrity = rp_integrity p\<rparr>)
          (plan_packages plan))\<rparr>"

definition lock_line :: "lock_entry \<Rightarrow> string" where
  "lock_line e = le_name e @ '' '' @ show_version (le_version e) @ '' '' @ le_integrity e @ [CHR 0x0A]"

definition lock_text :: "lockfile \<Rightarrow> string" where
  "lock_text l = ''# kai-os lockfile (root: '' @ lf_root l @ '')'' @ [CHR 0x0A] @ concat (map lock_line (lf_entries l))"

definition lock_verify :: "lockfile \<Rightarrow> pkg_registry \<Rightarrow> bool" where
  "lock_verify l r =
     list_all (\<lambda>e. case integrity_of r (le_name e) (le_version e) of None \<Rightarrow> False | Some i \<Rightarrow> i = le_integrity e)
       (lf_entries l)"

section \<open>Lemmas\<close>

lemma lock_verify_iff:
  "lock_verify (lock_from_plan root plan) r \<longleftrightarrow>
     (\<forall>p \<in> set (plan_packages plan). integrity_of r (rp_name p) (rp_version p) = Some (rp_integrity p))"
  by (auto simp: lock_verify_def lock_from_plan_def list_all_iff split: option.splits)

lemma integrity_stays:
  assumes "integrity_of r n v = Some i"
  shows "integrity_of (published (pkg_pub D) r zs) n v = Some i"
proof -
  obtain e where "pkg_lookup r (n, v) = Some e" "pe_integrity e = i"
    using assms by (auto simp: integrity_of_def pkg_lookup_def)
  then show ?thesis using pkgs.immutable [of r "(n, v)" e D zs] by (simp add: integrity_of_def pkg_lookup_def)
qed

lemma install_order_integrity:
  "install_order r ps \<Longrightarrow> p \<in> set ps \<Longrightarrow> integrity_of r (rp_name p) (rp_version p) = Some (rp_integrity p)"
  by (induction rule: install_order.induct) (auto simp: integrity_of_def)

lemma plan_integrity:
  assumes "resolve r root = Inr plan" "p \<in> set (plan_packages plan)"
  shows "integrity_of r (rp_name p) (rp_version p) = Some (rp_integrity p)"
proof -
  obtain v res where v: "highest r root = Some v" "resolve_inner r root v [] bm_empty = Inr res"
      "plan = \<lparr>plan_packages = bm_values res\<rparr>"
    using assms(1) by (auto simp: resolve_def split: option.splits sum.splits)
  have "resolving r (root, v) [] bm_empty []" by (simp add: resolving_def install_order.none)
  from resolve_steps(1) [OF this rtrancl.rtrancl_refl v(2)]
  obtain ps where "install_order r ps" "res = by_name ps" by (auto simp: resolving_def)
  then show ?thesis using plan_of_order install_order_integrity v(3) assms(2) by auto
qed

lemma registry_order_free:
  assumes "set xs = set ys" "consistent pkg_key (pkg_item D) xs"
  shows "published (pkg_pub D) new_pkg_registry xs = published (pkg_pub D) new_pkg_registry ys"
  by (intro registry_eqI slots_filled_published slots_filled_new pkgs.order_free assms)

text \<open>
  What the text of a lockfile says: lines are ended by line breaks and fields by spaces, so a
  lockfile can be read back when its fields have none.
\<close>

abbreviation new_line :: char where
  "new_line \<equiv> CHR 0x0A"

definition plain_lock :: "lockfile \<Rightarrow> bool" where
  "plain_lock l \<longleftrightarrow> new_line \<notin> set (lf_root l) \<and>
     list_all (\<lambda>e. CHR '' '' \<notin> set (le_name e) \<and> new_line \<notin> set (le_name e) \<and> new_line \<notin> set (le_integrity e))
       (lf_entries l)"

lemma show_version_chars: "c \<in> set (show_version v) \<Longrightarrow> 46 \<le> (of_char c :: nat)"
  by (auto simp: show_version_def dot_def dest: show_word_chars)

lemma show_version_plain [simp]: "CHR '' '' \<notin> set (show_version v)" "new_line \<notin> set (show_version v)"
  using show_version_chars [of "CHR '' ''" v] show_version_chars [of new_line v] by auto

definition entry_text :: "lock_entry \<Rightarrow> string" where
  "entry_text e = le_name e @ '' '' @ show_version (le_version e) @ '' '' @ le_integrity e"

lemma entry_text_inject:
  assumes "CHR '' '' \<notin> set (le_name d)" "CHR '' '' \<notin> set (le_name e)" "entry_text d = entry_text e"
  shows "(d :: lock_entry) = e"
proof -
  have read: "split_on (CHR '' '') (entry_text f) =
      le_name f # show_version (le_version f) # split_on (CHR '' '') (le_integrity f)"
    if "CHR '' '' \<notin> set (le_name f)" for f :: lock_entry
    using that by (simp add: entry_text_def split_on_append)
  have "le_name d = le_name e" "le_version d = le_version e"
    using read [OF assms(1)] read [OF assms(2)] assms(3) by simp_all
  moreover from this have "le_integrity d = le_integrity e" using assms(3) by (simp add: entry_text_def)
  ultimately show ?thesis by simp
qed

lemma split_lock_lines:
  "list_all (\<lambda>e. new_line \<notin> set (le_name e) \<and> new_line \<notin> set (le_integrity e)) es \<Longrightarrow>
   split_on new_line (concat (map lock_line es)) = map entry_text es @ [[]]"
proof (induction es)
  case (Cons e es)
  then have "new_line \<notin> set (entry_text e)" by (simp add: entry_text_def)
  with Cons have "split_on new_line (entry_text e @ new_line # concat (map lock_line es)) =
      entry_text e # map entry_text es @ [[]]" by (simp add: split_on_append)
  moreover have "lock_line e = entry_text e @ [new_line]" by (simp add: lock_line_def entry_text_def)
  ultimately show ?case by simp
qed simp

lemma lock_text_inject:
  assumes "plain_lock l" "plain_lock m" "lock_text l = lock_text m"
  shows "(l :: lockfile) = m"
proof -
  let ?h = "\<lambda>l :: lockfile. ''# kai-os lockfile (root: '' @ lf_root l @ '')''"
  have read: "split_on new_line (lock_text k) = ?h k # map entry_text (lf_entries k) @ [[]]"
    if "plain_lock k" for k :: lockfile
  proof -
    have "list_all (\<lambda>e. new_line \<notin> set (le_name e) \<and> new_line \<notin> set (le_integrity e)) (lf_entries k)"
      "new_line \<notin> set (?h k)" using that by (auto simp: plain_lock_def list_all_iff)
    from split_lock_lines [OF this(1)] split_on_append [OF this(2)] show ?thesis
      by (simp add: lock_text_def)
  qed
  have "?h l = ?h m" "map entry_text (lf_entries l) = map entry_text (lf_entries m)"
    using read [OF assms(1)] read [OF assms(2)] assms(3) by simp_all
  moreover from this(2) have "lf_entries l = lf_entries m"
  proof (rule map_inj_on)
    show "inj_on entry_text (set (lf_entries l) \<union> set (lf_entries m))"
      using assms(1,2) by (auto simp: plain_lock_def list_all_iff intro!: inj_onI entry_text_inject)
  qed
  ultimately show ?thesis by simp
qed

text \<open>
  A lockfile that names the root, packages and versions of a verified one is verified only when it is
  that lockfile: every integrity is compared.
\<close>

lemma lock_verify_same:
  assumes "lock_verify l r" "lf_root m = lf_root l"
    and "map (\<lambda>e. (le_name e, le_version e)) (lf_entries m) = map (\<lambda>e. (le_name e, le_version e)) (lf_entries l)"
  shows "lock_verify m r \<longleftrightarrow> (m :: lockfile) = l"
proof
  assume m: "lock_verify m r"
  have len: "length (lf_entries m) = length (lf_entries l)" using assms(3) by (rule map_eq_imp_length_eq)
  have "lf_entries m ! i = lf_entries l ! i" if i: "i < length (lf_entries m)" for i
  proof -
    have key: "le_name (lf_entries m ! i) = le_name (lf_entries l ! i)"
      "le_version (lf_entries m ! i) = le_version (lf_entries l ! i)"
      using arg_cong [OF assms(3), of "\<lambda>xs. xs ! i"] i len by simp_all
    have "lf_entries m ! i \<in> set (lf_entries m)" "lf_entries l ! i \<in> set (lf_entries l)"
      using i len by simp_all
    then have "integrity_of r (le_name (lf_entries m ! i)) (le_version (lf_entries m ! i)) =
        Some (le_integrity (lf_entries m ! i))"
      "integrity_of r (le_name (lf_entries l ! i)) (le_version (lf_entries l ! i)) =
        Some (le_integrity (lf_entries l ! i))"
      using m assms(1) unfolding lock_verify_def list_all_iff by (auto split: option.splits)
    with key show ?thesis by simp
  qed
  then have "lf_entries m = lf_entries l" using len by (simp add: list_eq_iff_nth_eq)
  with assms(2) show "m = l" by simp
qed (simp add: assms(1))

lemma lock_from_plan_root [simp]: "lf_root (lock_from_plan root plan) = root"
  by (simp add: lock_from_plan_def)

lemma lock_from_plan_entries:
  "sorted (map le_name (lf_entries (lock_from_plan root plan)))"
  "mset (map (\<lambda>e. (le_name e, le_version e, le_integrity e)) (lf_entries (lock_from_plan root plan))) =
   mset (map (\<lambda>p. (rp_name p, rp_version p, rp_integrity p)) (plan_packages plan))"
  by (simp_all add: lock_from_plan_def multiset.map_comp comp_def)

section \<open>Properties\<close>



text \<open>The provision is needed: a second publish with the same content but other dependencies is
  accepted without being stored, so the order of the two decides what the package depends on.\<close>

theorem publish_order_matters:
  defines "a \<equiv> (\<lparr>pm_name = ''a'', pm_version = sv 0, pm_deps = []\<rparr>, [])"
    and "a' \<equiv> (\<lparr>pm_name = ''a'', pm_version = sv 0, pm_deps = [\<lparr>dep_name = ''b'', dep_req = Exact (sv 0)\<rparr>]\<rparr>, [])"
  shows "snd (pkg_pub D (fst (pkg_pub D new_pkg_registry a)) a') = Inr () \<and>
    is_ok (resolve (published (pkg_pub D) new_pkg_registry [a, a']) ''a'') \<and>
    \<not> is_ok (resolve (published (pkg_pub D) new_pkg_registry [a', a]) ''a'')"
proof -
  have "snd (pkg_pub D (fst (pkg_pub D new_pkg_registry a)) a') = Inr ()"
    by (simp add: a_def a'_def pkg_pub_def pkg_publish_def new_pkg_registry_def Let_def)
  moreover have "bm_get (pr_packages (published (pkg_pub D) new_pkg_registry [a, a'])) ''a'' =
      Some (bm_insert (sv 0) (pkg_item D a) bm_empty)"
    "bm_get (pr_packages (published (pkg_pub D) new_pkg_registry [a', a])) ''a'' =
      Some (bm_insert (sv 0) (pkg_item D a') bm_empty)"
    "bm_get (pr_packages (published (pkg_pub D) new_pkg_registry [a', a])) ''b'' = None"
    by (simp_all add: a_def a'_def get_pub new_pkg_registry_def bm_contains_def)
  ultimately show ?thesis
    by (simp add: resolve_def highest_def bm_keys_def resolve_inner.simps bm_contains_def entry_of_def
        pkg_item_def best_match_def a_def a'_def del: published_simps)
qed

end
