(* ===== verification/Models.thy ===== *)
theory Models imports Semver Publish_Once begin

text \<open>
  \<open>kai-os/ai/src/model_registry.rs\<close>: the registry of model manifests, which meets the same contract
  as the package registry.
\<close>

section \<open>The model registry\<close>

type_synonym model_version = "u32 semver"

type_synonym model_req = "u32 version_req"

fun mreq_matches :: "model_req \<Rightarrow> model_version \<Rightarrow> bool" where
  "mreq_matches (Exact e) v = (v = e)"
| "mreq_matches (Caret c) v = (v \<ge> c \<and> major v = major c)"

record model_manifest =
  mm_id :: string
  mm_version :: model_version
  mm_owner :: string
  mm_size :: u64
  mm_sha256 :: string

datatype registry_error =
    Duplicate_Id_Version string model_version
  | Unknown_Model string
  | No_Matching_Version string model_req

record model_registry =
  mr_models :: "(string, (model_version, model_manifest) bmap) bmap"

definition new_model_registry :: model_registry where
  "new_model_registry = \<lparr>mr_models = bm_empty\<rparr>"

definition mr_publish :: "model_registry \<Rightarrow> model_manifest \<Rightarrow> model_registry \<times> (registry_error + unit)" where
  "mr_publish r m =
     (let entry = (case bm_get (mr_models r) (mm_id m) of None \<Rightarrow> bm_empty | Some e \<Rightarrow> e);
          set_entry = (\<lambda>e. r\<lparr>mr_models := bm_insert (mm_id m) e (mr_models r)\<rparr>)
      in case bm_get entry (mm_version m) of
           Some existing \<Rightarrow>
             (set_entry entry,
              if mm_sha256 existing = mm_sha256 m then Inr ()
              else Inl (Duplicate_Id_Version (mm_id m) (mm_version m)))
         | None \<Rightarrow> (set_entry (bm_insert (mm_version m) m entry), Inr ()))"

definition mr_best_match :: "model_registry \<Rightarrow> string \<Rightarrow> model_req \<Rightarrow> registry_error + model_manifest" where
  "mr_best_match r i req =
     (case bm_get (mr_models r) i of
        None \<Rightarrow> Inl (Unknown_Model i)
      | Some versions \<Rightarrow>
          (case find (\<lambda>m. mreq_matches req (mm_version m)) (rev (bm_values versions)) of
             None \<Rightarrow> Inl (No_Matching_Version i req)
           | Some m \<Rightarrow> Inr m))"

definition mr_get :: "model_registry \<Rightarrow> string \<Rightarrow> model_version \<Rightarrow> registry_error + model_manifest" where
  "mr_get r i v =
     (case do { versions \<leftarrow> bm_get (mr_models r) i; bm_get versions v } of
        None \<Rightarrow> Inl (Unknown_Model i)
      | Some m \<Rightarrow> Inr m)"

definition model_count :: "model_registry \<Rightarrow> nat" where
  "model_count r = bm_len (mr_models r)"

definition versions_of :: "model_registry \<Rightarrow> string \<Rightarrow> model_version list" where
  "versions_of r i = (case bm_get (mr_models r) i of None \<Rightarrow> [] | Some v \<Rightarrow> bm_keys v)"

section \<open>The registry meets the contract\<close>

definition mr_lookup :: "model_registry \<Rightarrow> string \<times> model_version \<Rightarrow> model_manifest option" where
  "mr_lookup r k = do { versions \<leftarrow> bm_get (mr_models r) (fst k); bm_get versions (snd k) }"

definition mr_key :: "model_manifest \<Rightarrow> string \<times> model_version" where
  "mr_key m = (mm_id m, mm_version m)"

definition mr_pick :: "model_registry \<Rightarrow> string \<Rightarrow> (model_version \<Rightarrow> bool) \<Rightarrow> model_version option" where
  "mr_pick r i P = do {
     versions \<leftarrow> bm_get (mr_models r) i;
     map_option mm_version (find (\<lambda>m. P (mm_version m)) (rev (bm_values versions)))
   }"

text \<open>Every manifest is stored under its own id and version, and no model is without versions.\<close>

definition mr_ok :: "model_registry \<Rightarrow> bool" where
  "mr_ok r \<longleftrightarrow> (\<forall>k m. mr_lookup r k = Some m \<longrightarrow> mr_key m = k) \<and> (\<forall>i. bm_get (mr_models r) i \<noteq> Some bm_empty)"

lemma find_map: "find P (map f xs) = map_option f (find (\<lambda>x. P (f x)) xs)"
  by (induction xs) auto

lemma versions_keys:
  assumes "mr_ok r" "bm_get (mr_models r) i = Some versions"
  shows "map mm_version (bm_values versions) = bm_keys versions"
proof -
  have "mm_version m = v" if "bm_get versions v = Some m" for v m
  proof -
    have "mr_lookup r (i, v) = Some m" using that assms(2) by (simp add: mr_lookup_def)
    then have "mr_key m = (i, v)" using assms(1) by (simp add: mr_ok_def)
    then show ?thesis by (simp add: mr_key_def)
  qed
  then show ?thesis by (auto simp: bm_values_def bm_keys_def bm_get_iff)
qed

lemma mr_pick_keys:
  "mr_ok r \<Longrightarrow> bm_get (mr_models r) i = Some versions \<Longrightarrow> mr_pick r i P = find P (rev (bm_keys versions))"
  by (simp add: mr_pick_def find_map rev_map flip: versions_keys)

lemma mr_pick_unknown: "bm_get (mr_models r) i = None \<Longrightarrow> mr_pick r i P = None"
  by (simp add: mr_pick_def)

lemma mr_lookup_keys:
  "bm_get (mr_models r) i = Some versions \<Longrightarrow> mr_lookup r (i, v) \<noteq> None \<longleftrightarrow> v \<in> set (bm_keys versions)"
  by (auto simp: mr_lookup_def set_bm_keys)

lemma mr_lookup_unknown: "bm_get (mr_models r) i = None \<Longrightarrow> mr_lookup r (i, v) = None"
  by (simp add: mr_lookup_def)

lemma mr_lookup_publish:
  "mr_lookup (fst (mr_publish r m)) =
     (case mr_lookup r (mr_key m) of None \<Rightarrow> (mr_lookup r)(mr_key m \<mapsto> m) | Some _ \<Rightarrow> mr_lookup r)"
  by (auto simp: mr_lookup_def mr_key_def mr_publish_def Let_def fun_eq_iff split: option.splits)

lemma mr_ok_publish: "mr_ok r \<Longrightarrow> mr_ok (fst (mr_publish r m))"
proof -
  assume ok: "mr_ok r"
  have "mr_lookup (fst (mr_publish r m)) k = Some m' \<Longrightarrow> mr_key m' = k" for k m'
    using ok by (cases k) (auto simp: mr_lookup_publish mr_ok_def split: option.splits if_splits)
  moreover have "bm_get (mr_models (fst (mr_publish r m))) i \<noteq> Some bm_empty" for i
    using ok by (auto simp: mr_ok_def mr_publish_def Let_def split: option.splits)
  ultimately show ?thesis by (simp add: mr_ok_def)
qed

interpretation models: version_registry mr_publish mr_key id mm_sha256 mr_lookup mr_pick mr_ok
proof unfold_locales
  fix r m b i P v
  show "mr_lookup r (mr_key m) = None \<Longrightarrow> snd (mr_publish r m) = Inr () \<and>
      mr_lookup (fst (mr_publish r m)) = (mr_lookup r)(mr_key m \<mapsto> id m)"
    by (simp add: mr_lookup_publish) (auto simp: mr_publish_def mr_lookup_def mr_key_def Let_def split: option.splits)
  show "mr_lookup r (mr_key m) = Some b \<Longrightarrow> (snd (mr_publish r m) = Inr () \<longleftrightarrow> mm_sha256 b = mm_sha256 (id m)) \<and>
      mr_lookup (fst (mr_publish r m)) = mr_lookup r"
    by (simp add: mr_lookup_publish) (auto simp: mr_publish_def mr_lookup_def mr_key_def Let_def bind_eq_Some_conv
      split: if_splits)
  show "mr_ok r \<Longrightarrow> mr_ok (fst (mr_publish r m))" by (rule mr_ok_publish)
  show "mr_ok r \<Longrightarrow> mr_pick r i P = Some v \<longleftrightarrow> mr_lookup r (i, v) \<noteq> None \<and> P v \<and>
      (\<forall>w. mr_lookup r (i, w) \<noteq> None \<and> P w \<longrightarrow> w \<le> v)"
    by (cases "bm_get (mr_models r) i")
      (auto simp: mr_pick_keys mr_lookup_keys mr_lookup_unknown find_rev_ascending mr_pick_unknown
        simp del: not_None_eq)
  show "mr_ok r \<Longrightarrow> mr_pick r i P = None \<longleftrightarrow> (\<forall>w. mr_lookup r (i, w) \<noteq> None \<longrightarrow> \<not> P w)"
    by (cases "bm_get (mr_models r) i")
      (auto simp: mr_pick_keys mr_lookup_keys mr_lookup_unknown find_rev_None mr_pick_unknown
        simp del: not_None_eq)
qed

lemma mr_ok_new: "mr_ok new_model_registry"
  by (simp add: mr_ok_def mr_lookup_def new_model_registry_def)

lemma mr_eqI:
  assumes "mr_ok r" "mr_ok r'" "mr_lookup r = mr_lookup r'"
  shows "r = r'"
proof -
  have "mr_lookup r (n, v) = mr_lookup r' (n, v)" for n v using assms(3) by simp
  then have "mr_models r = mr_models r'"
    using assms(1,2) by (intro nested_eqI) (simp_all add: mr_ok_def mr_lookup_def)
  then show ?thesis by simp
qed

lemma mr_get_lookup: "mr_get r i v = (case mr_lookup r (i, v) of None \<Rightarrow> Inl (Unknown_Model i) | Some m \<Rightarrow> Inr m)"
  by (simp add: mr_get_def mr_lookup_def)

lemma mr_best_match_pick:
  assumes "mr_ok r"
  shows "mr_best_match r i q =
    (if versions_of r i = [] then Inl (Unknown_Model i)
     else case mr_pick r i (mreq_matches q) of
       None \<Rightarrow> Inl (No_Matching_Version i q)
     | Some v \<Rightarrow> Inr (the (mr_lookup r (i, v))))"
proof (cases "bm_get (mr_models r) i")
  case None
  then show ?thesis by (simp add: mr_best_match_def versions_of_def)
next
  case (Some versions)
  then have ne: "bm_keys versions \<noteq> []" using assms by (auto simp: mr_ok_def bm_keys_def)
  let ?f = "find (\<lambda>m. mreq_matches q (mm_version m)) (rev (bm_values versions))"
  have "mr_lookup r (i, mm_version m) = Some m" if "?f = Some m" for m
  proof -
    have "m \<in> set (bm_values versions)" using found [OF that] by simp
    then obtain v where v: "bm_get versions v = Some m" by (auto simp: set_bm_values)
    then have l: "mr_lookup r (i, v) = Some m" using Some by (simp add: mr_lookup_def)
    then have "mr_key m = (i, v)" using assms by (simp add: mr_ok_def)
    then show ?thesis using l by (simp add: mr_key_def)
  qed
  then show ?thesis using Some ne
    by (auto simp: mr_best_match_def mr_pick_def versions_of_def split: option.split)
qed

lemma versions_of_lookup: "v \<in> set (versions_of r i) \<longleftrightarrow> mr_lookup r (i, v) \<noteq> None"
  by (cases "bm_get (mr_models r) i") (auto simp: versions_of_def mr_lookup_def set_bm_keys)

text \<open>
  C34: The model registry. After publishing manifests in any order and any number of times, no two
  of them with the same id and version differing, a requirement selects the same manifest: the
  published one with the highest version that meets it. It keeps being what a query for its version
  returns, whatever is published later, and later selections never go below it. A selection fails
  only for an unknown model or when no published version meets the requirement.
\<close>

theorem model_selection:
  assumes "set ms = set ms'" "consistent mr_key id ms"
  shows "let r = published mr_publish new_model_registry ms;
             r' = published mr_publish new_model_registry ms' in
    mr_best_match r i q = mr_best_match r' i q \<and>
    (case mr_best_match r i q of
       Inl e \<Rightarrow>
         if versions_of r i = [] then e = Unknown_Model i
         else e = No_Matching_Version i q \<and> filter (mreq_matches q) (versions_of r i) = []
     | Inr m \<Rightarrow>
         m \<in> set ms \<and> mm_id m = i \<and> mreq_matches q (mm_version m) \<and>
         {v \<in> set (versions_of r i). mreq_matches q v \<and> mm_version m < v} = {} \<and>
         mr_get (published mr_publish r' later) i (mm_version m) = Inr m \<and>
         (\<exists>m'. mr_best_match (published mr_publish r' later) i q = Inr m' \<and> mm_version m \<le> mm_version m'))"
proof -
  define r where "r = published mr_publish new_model_registry ms"
  note ok = models.inv_published [OF mr_ok_new]
  have same: "published mr_publish new_model_registry ms' = r"
    unfolding r_def by (rule mr_eqI [OF ok ok]) (use models.order_free [OF assms] in simp)
  have r: "mr_ok r" unfolding r_def by (rule ok)
  have sel: "m \<in> set ms \<and> mm_id m = i \<and> mreq_matches q (mm_version m) \<and>
         {v \<in> set (versions_of r i). mreq_matches q v \<and> mm_version m < v} = {} \<and>
         mr_get (published mr_publish r later) i (mm_version m) = Inr m \<and>
         (\<exists>m'. mr_best_match (published mr_publish r later) i q = Inr m' \<and> mm_version m \<le> mm_version m')"
    if sel: "mr_best_match r i q = Inr m" for m
  proof -
    obtain v where v: "mr_pick r i (mreq_matches q) = Some v" "m = the (mr_lookup r (i, v))"
      using sel by (auto simp: mr_best_match_pick [OF r] split: if_splits option.splits)
    note best = models.best_Some [OF r, of i "mreq_matches q" v, THEN iffD1, OF v(1)]
    then have m: "mr_lookup r (i, v) = Some m" using v(2) by auto
    then have key: "mm_id m = i" "mm_version m = v" using r by (auto simp: mr_ok_def mr_key_def)
    have "mr_lookup new_model_registry (i, v) = None" by (simp add: mr_lookup_def new_model_registry_def)
    then have "find (\<lambda>m. mr_key m = (i, v)) ms = Some m"
      using m models.lookup_published [of new_model_registry ms "(i, v)"] by (simp add: r_def)
    then have "m \<in> set ms" using found by fast
    moreover have "mr_lookup (published mr_publish r later) (i, v) = Some m"
      by (rule models.immutable [OF m])
    moreover obtain w where w: "mr_pick (published mr_publish r later) i (mreq_matches q) = Some w" "v \<le> w"
      using models.best_grows [OF r v(1)] by blast
    moreover have "\<exists>m'. mr_best_match (published mr_publish r later) i q = Inr m' \<and> w = mm_version m'"
    proof -
      let ?r = "published mr_publish r later"
      have r': "mr_ok ?r" by (rule models.inv_published [OF r])
      have "mr_lookup ?r (i, w) \<noteq> None" using models.best_Some [OF r'] w(1) by blast
      then obtain m' where m': "mr_lookup ?r (i, w) = Some m'" by blast
      then have "versions_of ?r i \<noteq> []" using versions_of_lookup [of w ?r i] by force
      moreover have "mr_key m' = (i, w)" using r' m' by (simp add: mr_ok_def)
      ultimately show ?thesis
        by (simp add: mr_best_match_pick [OF r'] w(1) m' mr_key_def)
    qed
    ultimately show ?thesis using best key
      by (auto simp: versions_of_lookup mr_get_lookup simp del: not_None_eq)
  qed
  have err: "if versions_of r i = [] then e = Unknown_Model i
      else e = No_Matching_Version i q \<and> filter (mreq_matches q) (versions_of r i) = []"
    if "mr_best_match r i q = Inl e" for e
    using that models.best_None [OF r, of i "mreq_matches q"]
    by (auto simp: mr_best_match_pick [OF r] filter_empty_conv versions_of_lookup
        split: option.splits if_splits simp del: not_None_eq)
  show ?thesis unfolding Let_def same r_def [symmetric]
    using sel err by (auto split: sum.split)
qed

definition demo_model :: "model_version \<Rightarrow> model_manifest" where
  "demo_model v = \<lparr>mm_id = ''m'', mm_version = v, mm_owner = ''o'', mm_size = 1, mm_sha256 = ''h''\<rparr>"

lemma model_selection_witness:
  "mr_best_match (published mr_publish new_model_registry [demo_model (Semver 1 0 0), demo_model (Semver 1 2 0)]) ''m''
      (Caret (Semver 1 0 0)) =
   mr_best_match (published mr_publish new_model_registry [demo_model (Semver 1 2 0), demo_model (Semver 1 0 0)]) ''m''
      (Caret (Semver 1 0 0))"
proof -
  have "consistent mr_key id [demo_model (Semver 1 0 0), demo_model (Semver 1 2 0)]"
    by (auto simp: consistent_def demo_model_def mr_key_def)
  from model_selection [OF _ this, of "[demo_model (Semver 1 2 0), demo_model (Semver 1 0 0)]"] show ?thesis
    by (auto simp: Let_def)
qed

end
