(* ===== verification/Model_Cache.thy ===== *)
theory Model_Cache imports Models begin

text \<open>
  \<open>kai-os/ai/src/verified_cache.rs\<close>: the cache of artefacts that are checked against the SHA-256 of
  their manifest when they are stored and whenever they are loaded. Its specification is a bounded
  first-in first-out queue.
\<close>

section \<open>The code\<close>

type_synonym cache_key = "string \<times> model_version"

datatype cache_error =
    Hash_Mismatch string model_version string string
  | Unknown_Entry string model_version

record verified_model =
  vm_manifest :: model_manifest
  vm_bytes :: bytes

record verified_cache =
  vc_entries :: "(cache_key, model_manifest \<times> bytes) bmap"
  vc_order :: "cache_key list"
  vc_max :: nat

definition new_cache :: "nat \<Rightarrow> verified_cache" where
  "new_cache max_entries = \<lparr>vc_entries = bm_empty, vc_order = [], vc_max = max_entries\<rparr>"

definition evict :: "verified_cache \<Rightarrow> verified_cache" where
  "evict c =
     (if vc_max c \<le> bm_len (vc_entries c)
      then case vc_order c of
             [] \<Rightarrow> c
           | oldest # rest \<Rightarrow> c\<lparr>vc_entries := bm_remove oldest (vc_entries c), vc_order := rest\<rparr>
      else c)"

definition cache_put ::
  "digest \<Rightarrow> verified_cache \<Rightarrow> model_manifest \<Rightarrow> bytes \<Rightarrow> verified_cache \<times> (cache_error + unit)" where
  "cache_put D c m b =
     (let got = sha_hex D b in
      if got \<noteq> mm_sha256 m then (c, Inl (Hash_Mismatch (mm_id m) (mm_version m) (mm_sha256 m) got))
      else
        let key = (mm_id m, mm_version m);
            c1 = evict c;
            c2 = (if \<not> bm_contains (vc_entries c1) key then c1\<lparr>vc_order := vc_order c1 @ [key]\<rparr> else c1)
        in (c2\<lparr>vc_entries := bm_insert key (m, b) (vc_entries c2)\<rparr>, Inr ()))"

definition cache_get ::
  "digest \<Rightarrow> verified_cache \<Rightarrow> string \<Rightarrow> model_version \<Rightarrow> cache_error + verified_model" where
  "cache_get D c i v =
     (case bm_get (vc_entries c) (i, v) of
        None \<Rightarrow> Inl (Unknown_Entry i v)
      | Some (m, b) \<Rightarrow>
          let got = sha_hex D b in
          if got \<noteq> mm_sha256 m then Inl (Hash_Mismatch i v (mm_sha256 m) got)
          else Inr \<lparr>vm_manifest = m, vm_bytes = b\<rparr>)"

definition cache_len :: "verified_cache \<Rightarrow> nat" where
  "cache_len c = bm_len (vc_entries c)"

definition cache_is_empty :: "verified_cache \<Rightarrow> bool" where
  "cache_is_empty c = (bm_len (vc_entries c) = 0)"

text \<open>\<open>tamper_for_test\<close>: a flipped byte in the store.\<close>

definition cache_tamper :: "verified_cache \<Rightarrow> string \<Rightarrow> model_version \<Rightarrow> verified_cache \<times> bool" where
  "cache_tamper c i v =
     (case bm_get (vc_entries c) (i, v) of
        None \<Rightarrow> (c, False)
      | Some (m, []) \<Rightarrow> (c, False)
      | Some (m, x # b) \<Rightarrow>
          (c\<lparr>vc_entries := bm_insert (i, v) (m, xor x 0xFF # b) (vc_entries c)\<rparr>, True))"

section \<open>The queue\<close>

text \<open>
  The queue holds the artefacts in the order in which their keys entered. A store first drops the
  oldest when the queue is full, then replaces the artefact of its key in place or joins at the end.
\<close>

definition queue_store ::
  "nat \<Rightarrow> (cache_key \<times> model_manifest \<times> bytes) list \<Rightarrow> model_manifest \<Rightarrow> bytes \<Rightarrow>
   (cache_key \<times> model_manifest \<times> bytes) list" where
  "queue_store n q m b =
     (let q1 = (if n \<le> length q then tl q else q); k = (mm_id m, mm_version m)
      in if k \<in> fst ` set q1 then map (\<lambda>x. if fst x = k then (k, m, b) else x) q1 else q1 @ [(k, m, b)])"

definition queue_run ::
  "digest \<Rightarrow> nat \<Rightarrow> (cache_key \<times> model_manifest \<times> bytes) list \<Rightarrow> (model_manifest \<times> bytes) list \<Rightarrow>
   (cache_key \<times> model_manifest \<times> bytes) list" where
  "queue_run D n q xs =
     foldl (\<lambda>q (m, b). if sha_hex D b = mm_sha256 m then queue_store n q m b else q) q xs"

definition cache_run :: "digest \<Rightarrow> verified_cache \<Rightarrow> (model_manifest \<times> bytes) list \<Rightarrow> verified_cache" where
  "cache_run D c xs = foldl (\<lambda>c (m, b). fst (cache_put D c m b)) c xs"

definition holds_queue ::
  "digest \<Rightarrow> verified_cache \<Rightarrow> (cache_key \<times> model_manifest \<times> bytes) list \<Rightarrow> bool" where
  "holds_queue D c q \<longleftrightarrow>
     vc_order c = map fst q \<and> distinct (map fst q) \<and> bm_get (vc_entries c) = map_of q \<and>
     (\<forall>(k, m, b) \<in> set q. k = (mm_id m, mm_version m) \<and> sha_hex D b = mm_sha256 m) \<and>
     length q \<le> max 1 (vc_max c)"

lemma holds_queue_len: "holds_queue D c q \<Longrightarrow> bm_len (vc_entries c) = length q"
proof -
  assume "holds_queue D c q"
  then have "distinct (map fst q)" "dom (bm_get (vc_entries c)) = set (map fst q)"
    by (simp_all add: holds_queue_def dom_map_of_conv_image_fst)
  then show ?thesis unfolding bm_len_card by (simp only: distinct_card length_map)
qed

lemma map_of_replace:
  assumes "k \<in> fst ` set q"
  shows "map_of (map (\<lambda>x. if fst x = k then (k, y) else x) q) = (map_of q)(k \<mapsto> y)"
proof
  fix j
  have "j \<noteq> k \<Longrightarrow> map_of (map (\<lambda>x. if fst x = k then (k, y) else x) q) j = map_of q j"
    by (induction q) auto
  moreover have "map_of (map (\<lambda>x. if fst x = k then (k, y) else x) q) k = Some y"
    using assms by (induction q) auto
  ultimately show "map_of (map (\<lambda>x. if fst x = k then (k, y) else x) q) j = ((map_of q)(k \<mapsto> y)) j"
    by simp
qed

lemma map_of_join: "k \<notin> fst ` set q \<Longrightarrow> map_of (q @ [(k, y)]) = (map_of q)(k \<mapsto> y)"
  by (induction q) (auto simp: fun_eq_iff map_add_def)

lemma map_fst_replace: "map fst (map (\<lambda>x. if fst x = k then (k, y) else x) q) = map fst q"
  by (induction q) auto

lemma evict_queue:
  assumes "holds_queue D c q"
  shows "holds_queue D (evict c) (if vc_max c \<le> length q then tl q else q) \<and> vc_max (evict c) = vc_max c"
proof (cases "vc_max c \<le> length q")
  case False
  then show ?thesis using assms holds_queue_len [OF assms] by (simp add: evict_def)
next
  case True
  show ?thesis
  proof (cases q)
    case Nil
    then show ?thesis using assms holds_queue_len [OF assms] True
      by (simp add: evict_def holds_queue_def)
  next
    case (Cons x xs)
    then have "fst x \<notin> dom (map_of xs)" using assms by (auto simp: holds_queue_def dom_map_of_conv_image_fst)
    then have "(map_of q)(fst x := None) = map_of xs" using Cons by (cases x) (auto simp: fun_eq_iff)
    then show ?thesis using assms holds_queue_len [OF assms] True Cons
      by (auto simp: evict_def holds_queue_def)
  qed
qed

lemma put_queue:
  assumes "holds_queue D c q"
  shows "holds_queue D (fst (cache_put D c m b)) (if sha_hex D b = mm_sha256 m then queue_store (vc_max c) q m b else q) \<and>
    vc_max (fst (cache_put D c m b)) = vc_max c"
proof (cases "sha_hex D b = mm_sha256 m")
  case False
  then show ?thesis using assms by (simp add: cache_put_def)
next
  case True
  let ?q = "if vc_max c \<le> length q then tl q else q" and ?k = "(mm_id m, mm_version m)"
  have ev: "holds_queue D (evict c) ?q" "vc_max (evict c) = vc_max c" using evict_queue [OF assms] by simp_all
  have len: "length ?q < max 1 (vc_max c)" using assms by (auto simp: holds_queue_def)
  have mem: "bm_contains (vc_entries (evict c)) ?k \<longleftrightarrow> ?k \<in> fst ` set ?q"
    using ev(1) by (auto simp: bm_contains_def holds_queue_def map_of_eq_None_iff)
  note h = ev(1) [unfolded holds_queue_def]
  define q1 where "q1 = ?q"
  note h = h [folded q1_def] and len = len [folded q1_def] and mem = mem [folded q1_def]
  have store: "queue_store (vc_max c) q m b =
      (if ?k \<in> fst ` set q1 then map (\<lambda>x. if fst x = ?k then (?k, m, b) else x) q1 else q1 @ [(?k, m, b)])"
    by (simp only: queue_store_def Let_def q1_def)
  show ?thesis
  proof (cases "?k \<in> fst ` set q1")
    case in_q: True
    then have put: "fst (cache_put D c m b) =
        (evict c)\<lparr>vc_entries := bm_insert ?k (m, b) (vc_entries (evict c))\<rparr>"
      using mem True by (simp add: cache_put_def Let_def)
    have "\<forall>(k, m', b') \<in> set (map (\<lambda>x. if fst x = ?k then (?k, m, b) else x) q1).
        k = (mm_id m', mm_version m') \<and> sha_hex D b' = mm_sha256 m'"
      using h True by auto
    then show ?thesis unfolding put store using h len in_q True ev(2)
      by (simp add: holds_queue_def map_fst_replace map_of_replace del: map_map)
  next
    case False
    then have put: "fst (cache_put D c m b) =
        (evict c)\<lparr>vc_order := vc_order (evict c) @ [?k], vc_entries := bm_insert ?k (m, b) (vc_entries (evict c))\<rparr>"
      using mem True by (simp add: cache_put_def Let_def)
    show ?thesis unfolding put store using h len False True ev(2)
      by (simp add: holds_queue_def map_of_join del: map_of_append)
  qed
qed

lemma run_queue:
  "holds_queue D c q \<Longrightarrow>
   holds_queue D (cache_run D c xs) (queue_run D (vc_max c) q xs) \<and> vc_max (cache_run D c xs) = vc_max c"
proof (induction xs arbitrary: c q)
  case (Cons x xs)
  obtain m b where x: "x = (m, b)" by (cases x)
  note put = put_queue [OF Cons.prems, of m b]
  show ?case
    using Cons.IH [OF put [THEN conjunct1]] put by (simp add: x cache_run_def queue_run_def)
qed (simp add: cache_run_def queue_run_def)

text \<open>
  C35: The cache is a bounded queue of verified artefacts. After any sequence of stores, those with a
  wrong hash refused among them, it holds exactly what the first-in first-out queue holds that
  takes the others, in its order: never more than \<open>max_entries\<close> (but one if that is 0). Every
  artefact it holds loads, byte for byte as it was stored; nothing else loads. And whatever the
  storage holds, even after corruption, a load that succeeds returns bytes with the manifest's hash.
\<close>

theorem cache_refines_queue:
  "let q = queue_run D n [] xs; c = cache_run D (new_cache n) xs in
   vc_order c = map fst q \<and> cache_len c = length q \<and> length q \<le> max 1 n \<and>
   cache_get D c i v =
     (case map_of q (i, v) of
        None \<Rightarrow> Inl (Unknown_Entry i v)
      | Some (m, b) \<Rightarrow> Inr \<lparr>vm_manifest = m, vm_bytes = b\<rparr>) \<and>
   (case cache_get D corrupted i v of
      Inl _ \<Rightarrow> True
    | Inr vm \<Rightarrow> sha_hex D (vm_bytes vm) = mm_sha256 (vm_manifest vm))"
proof -
  have "holds_queue D (new_cache n) []" by (simp add: holds_queue_def new_cache_def)
  from run_queue [OF this, of xs]
  have h: "holds_queue D (cache_run D (new_cache n) xs) (queue_run D n [] xs)"
    "vc_max (cache_run D (new_cache n) xs) = n"
    by (simp_all add: new_cache_def)
  then have "cache_get D (cache_run D (new_cache n) xs) i v =
     (case map_of (queue_run D n [] xs) (i, v) of
        None \<Rightarrow> Inl (Unknown_Entry i v)
      | Some (m, b) \<Rightarrow> Inr \<lparr>vm_manifest = m, vm_bytes = b\<rparr>)"
    by (force simp: cache_get_def holds_queue_def Let_def dest: map_of_SomeD split: option.split)
  moreover have "case cache_get D corrupted i v of Inl _ \<Rightarrow> True
      | Inr vm \<Rightarrow> sha_hex D (vm_bytes vm) = mm_sha256 (vm_manifest vm)"
    by (simp add: cache_get_def Let_def split: option.split)
  ultimately show ?thesis
    using h holds_queue_len [OF h(1)] by (simp add: Let_def holds_queue_def cache_len_def)
qed

text \<open>Replacing an artefact when the cache is full evicts the oldest one although nothing is added.\<close>

theorem replacement_evicts:
  assumes "sha_hex D b = mm_sha256 m" "sha_hex D b = mm_sha256 m'"
    and "(mm_id m, mm_version m) \<noteq> (mm_id m', mm_version m')"
  shows "map fst (queue_run D 2 [] [(m, b), (m', b)]) = [(mm_id m, mm_version m), (mm_id m', mm_version m')] \<and>
    map fst (queue_run D 2 [] [(m, b), (m', b), (m', b)]) = [(mm_id m', mm_version m')]"
  using assms by (auto simp: queue_run_def queue_store_def Let_def)

text \<open>
  Corruption of the storage is detected: flip a byte of an artefact the cache holds, and the next load
  of it fails with the hash found, unless SHA-256 gives the flipped bytes the same digest. No other
  entry is touched, and the entry stays.
\<close>

theorem tampering_detected:
  assumes "bm_get (vc_entries c) (i, v) = Some (m, x # b)" "mm_sha256 m = sha_hex D (x # b)"
    and "D (xor x 0xFF # b) \<noteq> D (x # b)"
  shows "\<exists>c'. cache_tamper c i v = (c', True) \<and>
    cache_get D c' i v = Inl (Hash_Mismatch i v (mm_sha256 m) (sha_hex D (xor x 0xFF # b))) \<and>
    (\<forall>j w. (j, w) \<noteq> (i, v) \<longrightarrow> cache_get D c' j w = cache_get D c j w) \<and> cache_len c' = cache_len c"
proof -
  let ?c = "c\<lparr>vc_entries := bm_insert (i, v) (m, xor x 0xFF # b) (vc_entries c)\<rparr>"
  have "dom (bm_get (vc_entries ?c)) = dom (bm_get (vc_entries c))" using assms(1) by auto
  then have "cache_len ?c = cache_len c" by (simp add: cache_len_def bm_len_card)
  moreover have "cache_get D ?c i v = Inl (Hash_Mismatch i v (mm_sha256 m) (sha_hex D (xor x 0xFF # b)))"
    using assms(2,3) by (simp add: cache_get_def sha_hex_def)
  moreover have "cache_tamper c i v = (?c, True)" using assms(1) by (simp add: cache_tamper_def)
  ultimately show ?thesis by (auto simp: cache_get_def)
qed

definition head_digest :: digest where
  "head_digest x = (case x of [] \<Rightarrow> replicate 32 0 | a # _ \<Rightarrow> a # replicate 31 0)"

definition held_model :: model_manifest where
  "held_model = (demo_model (Semver 1 0 0))\<lparr>mm_sha256 := sha_hex head_digest [1]\<rparr>"

lemma tampering_detected_witness:
  "cache_get head_digest (fst (cache_tamper (fst (cache_put head_digest (new_cache 4) held_model [1])) ''m'' (Semver 1 0 0)))
     ''m'' (Semver 1 0 0) =
   Inl (Hash_Mismatch ''m'' (Semver 1 0 0) (mm_sha256 held_model) (sha_hex head_digest [xor 1 0xFF]))"
proof -
  let ?c = "fst (cache_put head_digest (new_cache 4) held_model [1])"
  have m: "mm_id held_model = ''m''" "mm_version held_model = Semver 1 0 0"
    "mm_sha256 held_model = sha_hex head_digest [1]"
    by (simp_all add: held_model_def demo_model_def)
  then have get: "bm_get (vc_entries ?c) (''m'', Semver 1 0 0) = Some (held_model, [1])"
    by (simp add: cache_put_def new_cache_def evict_def Let_def)
  have "head_digest [xor 1 0xFF] \<noteq> head_digest [1]" by (simp add: head_digest_def)
  from tampering_detected [OF get m(3) this] show ?thesis by auto
qed

end
