(* ===== verification/Syncd.thy ===== *)
theory Syncd imports Wal_Recovery Transport begin

text \<open>
  \<open>kai-os/syncd/src/lib.rs\<close>: transfer of a whole state from a source node to a sink node, which
  rebuilds it, compares its root with the declared one, and persists it with a checkpoint of its
  own log. \<open>serde_json\<close> of the two messages is the parameter \<open>Y\<close>.
\<close>

section \<open>The messages\<close>

record sync_snapshot =
  sy_height :: u64
  sy_tip :: string
  sy_root :: string
  sy_entries :: "(string \<times> string) list"

record sync_ack =
  ack_root :: string

record sync_codec =
  sy_print :: "sync_snapshot \<Rightarrow> bytes option"
  sy_parse :: "bytes \<Rightarrow> sync_snapshot option"
  sy_print_ack :: "sync_ack \<Rightarrow> bytes option"
  sy_parse_ack :: "bytes \<Rightarrow> sync_ack option"

text \<open>What the code relies on: what was printed parses back.\<close>

definition sync_codec_ok :: "sync_codec \<Rightarrow> bool" where
  "sync_codec_ok Y \<longleftrightarrow>
     (\<forall>s b. sy_print Y s = Some b \<longrightarrow> sy_parse Y b = Some s) \<and>
     (\<forall>a b. sy_print_ack Y a = Some b \<longrightarrow> sy_parse_ack Y b = Some a)"

text \<open>\<open>SyncError::Io\<close> holds the printed text of an error of the log or of the serializer; here it
  holds the error.\<close>

datatype syncd_error =
    Sy_Io wal_error
  | Sy_Tcp tcp_error
  | Sy_Root_Mismatch string string
  | Sy_Ack_Mismatch string string

section \<open>The operations\<close>

definition snapshot_from_store :: "digest \<Rightarrow> state_store \<Rightarrow> u64 \<Rightarrow> string \<Rightarrow> sync_snapshot" where
  "snapshot_from_store D store height tip =
     \<lparr>sy_height = height, sy_tip = tip, sy_root = state_root D store,
      sy_entries = bm_entries (entries store)\<rparr>"

definition verify_snapshot :: "digest \<Rightarrow> sync_snapshot \<Rightarrow> syncd_error + state_store" where
  "verify_snapshot D snap =
     (let rebuilt = rebuild_store (sy_entries snap); computed = state_root D rebuilt in
      if computed \<noteq> sy_root snap then Inl (Sy_Root_Mismatch (sy_root snap) computed)
      else Inr rebuilt)"

definition receive_and_verify ::
  "digest \<Rightarrow> sync_codec \<Rightarrow> tcp_peer \<Rightarrow> tcp_peer \<times> (syncd_error + sync_snapshot)" where
  "receive_and_verify D Y peer =
     (case peer_receive peer of
        (peer', Inl e) \<Rightarrow> (peer', Inl (Sy_Tcp e))
      | (peer', Inr b) \<Rightarrow>
          (peer',
           case sy_parse Y b of
             None \<Rightarrow> Inl (Sy_Root_Mismatch ''unparsebar'' ''-'')
           | Some snap \<Rightarrow>
               (case verify_snapshot D snap of Inl e \<Rightarrow> Inl e | Inr _ \<Rightarrow> Inr snap)))"

text \<open>The store is replaced before the checkpoint is written.\<close>

definition persist_verified ::
  "profile \<Rightarrow> digest \<Rightarrow> wal_codec \<Rightarrow> snap_codec \<Rightarrow> write_outcome \<Rightarrow> write_outcome \<Rightarrow> fs \<Rightarrow>
   persistent_state \<Rightarrow> sync_snapshot \<Rightarrow> (fs \<times> persistent_state \<times> (syncd_error + unit)) option" where
  "persist_verified p D C SC w sw f ps snap =
     (case verify_snapshot D snap of
        Inl e \<Rightarrow> Some (f, ps, Inl e)
      | Inr store \<Rightarrow> do {
          (f', ps', r) \<leftarrow> pst_checkpoint p D C SC w sw f (ps\<lparr>pst_store := store\<rparr>)
            (sy_height snap) (sy_tip snap) (pst_hint ps);
          Some (f', ps', map_sum Sy_Io id r)
        })"

definition send_and_await_ack ::
  "digest \<Rightarrow> sync_codec \<Rightarrow> nat option \<Rightarrow> tcp_peer \<Rightarrow> state_store \<Rightarrow> u64 \<Rightarrow> string \<Rightarrow>
   tcp_peer \<times> (syncd_error + unit)" where
  "send_and_await_ack D Y fails peer store height tip =
     (case sy_print Y (snapshot_from_store D store height tip) of
        None \<Rightarrow> (peer, Inl (Sy_Io (Wal_Io Serde_Failed)))
      | Some msg \<Rightarrow>
          (case tcp_send fails peer msg of
             (peer', Inl e) \<Rightarrow> (peer', Inl (Sy_Tcp e))
           | (peer', Inr _) \<Rightarrow>
               (case peer_receive peer' of
                  (peer'', Inl e) \<Rightarrow> (peer'', Inl (Sy_Tcp e))
                | (peer'', Inr b) \<Rightarrow>
                    (peer'',
                     case sy_parse_ack Y b of
                       None \<Rightarrow> Inl (Sy_Ack_Mismatch (state_root D store) ''unparsebar'')
                     | Some ack \<Rightarrow>
                         if ack_root ack \<noteq> state_root D store
                         then Inl (Sy_Ack_Mismatch (state_root D store) (ack_root ack))
                         else Inr ()))))"

section \<open>Lemmas\<close>

lemma verify_snapshot_iff:
  "verify_snapshot D snap = Inr st \<longleftrightarrow>
     st = rebuild_store (sy_entries snap) \<and> state_root D st = sy_root snap"
  by (auto simp: verify_snapshot_def Let_def)

lemma verify_snapshot_own [simp]: "verify_snapshot D (snapshot_from_store D st h t) = Inr st"
  by (simp add: verify_snapshot_def snapshot_from_store_def)

lemma receive_verified:
  "receive_and_verify D Y peer = (peer', Inr snap) \<Longrightarrow> \<exists>st. verify_snapshot D snap = Inr st"
  by (auto simp: receive_and_verify_def split: prod.splits sum.splits option.splits)

lemma receive_sent:
  assumes "sync_codec_ok Y" "sy_print Y (snapshot_from_store D st h t) = Some msg"
    and "length msg \<le> MAX_FRAME" "concat cs = frame msg @ rest" "[] \<notin> set cs"
  obtains peer where "receive_and_verify D Y (from_stream (map Read cs)) =
      (peer, Inr (snapshot_from_store D st h t))" "tp_sent peer = []"
proof -
  obtain peer where "peer_receive (from_stream (map Read cs)) = (peer, Inr msg)" "tp_sent peer = []"
    by (rule peer_receive_frame [OF assms(4,3,5)])
  then show thesis using assms(1,2) by (intro that) (auto simp: receive_and_verify_def sync_codec_ok_def)
qed

lemma peer_receive_from:
  "tp_buf p = [] \<Longrightarrow> tp_reads p = map Read cs \<Longrightarrow>
   snd (peer_receive p) = snd (peer_receive (from_stream (map Read cs)))"
  by (simp add: peer_receive_def from_stream_def split: option.split)

lemma send_acked:
  assumes "sync_codec_ok Y" "sy_print Y (snapshot_from_store D st h t) = Some msg"
    and "sy_print_ack Y \<lparr>ack_root = state_root D st\<rparr> = Some ack" "length ack \<le> MAX_FRAME"
    and "concat cs = frame ack @ rest" "[] \<notin> set cs"
  obtains peer where
    "send_and_await_ack D Y None (from_stream (map Read cs)) st h t = (peer, Inr ())"
    "tp_sent peer = frame msg"
proof -
  let ?p = "fst (tcp_send None (from_stream (map Read cs)) msg)"
  obtain q where "peer_receive (from_stream (map Read cs)) = (q, Inr ack)"
    by (rule peer_receive_frame [OF assms(5,4,6)])
  moreover have "tp_buf ?p = []" "tp_reads ?p = map Read cs"
    by (simp_all add: tcp_send_def from_stream_def)
  ultimately have r: "snd (peer_receive ?p) = Inr ack" using peer_receive_from by simp
  have "tp_sent (fst (peer_receive ?p)) = frame msg"
    by (simp add: peer_receive_sent) (simp add: tcp_send_def from_stream_def)
  moreover have "tcp_send None (from_stream (map Read cs)) msg = (?p, Inr ())"
    by (simp add: tcp_send_def)
  moreover have "sy_parse_ack Y ack = Some \<lparr>ack_root = state_root D st\<rparr>"
    using assms(1,3) by (simp add: sync_codec_ok_def)
  ultimately show thesis using r assms(2)
    by (intro that [of "fst (peer_receive ?p)"]) (auto simp: send_and_await_ack_def split: prod.split)
qed

text \<open>What recovery makes of a checkpoint.\<close>

lemma last_marker_snoc [simp]: "last_marker (ops @ [Wal_Checkpoint h t r]) = Some (h, t, r)"
  by (simp add: last_marker_def is_marker_def)

lemma after_marker_snoc [simp]: "after_marker (ops @ [Wal_Checkpoint h t r]) = Suc (length ops)"
  by (simp add: after_marker_def rposition_def is_marker_def)

end
