(* ===== verification/Sync_Node.thy ===== *)
theory Sync_Node imports Syncd begin

text \<open>
  \<open>kai-os/syncd/src/bin/kai-sync-node.rs\<close>: the two programs of a state transfer. What the operating
  system does (outcomes of writes, connections, what is read from them) is an argument; the lines
  the program prints are values, with the printed error kept as the error.
\<close>

section \<open>Arguments\<close>

text \<open>\<open>{i:04}\<close> pads a number with zeros on the left.\<close>

definition pad4 :: "nat \<Rightarrow> string" where
  "pad4 i = replicate (4 - length (show_nat i)) CHR ''0'' @ show_nat i"

definition deterministic_txs :: "u64 \<Rightarrow> tx list" where
  "deterministic_txs n =
     map (\<lambda>i. Tx_Set (''node/tx-'' @ pad4 i) (''value-'' @ pad4 i)) [0 ..< unat n]"

record node_args =
  na_role :: string
  na_dir :: string
  na_addr :: "string option"
  na_peer :: "string option"
  na_apply :: u64
  na_retries :: u32
  na_delay :: u64

definition or_empty :: "string option \<Rightarrow> string" where
  "or_empty v = (case v of None \<Rightarrow> [] | Some s \<Rightarrow> s)"

definition number_of :: "string option \<Rightarrow> 'a::len word" where
  "number_of v = (case v of None \<Rightarrow> 0 | Some s \<Rightarrow> (case parse_word s of None \<Rightarrow> 0 | Some n \<Rightarrow> n))"

definition take_arg :: "node_args \<Rightarrow> string \<Rightarrow> string option \<Rightarrow> node_args" where
  "take_arg a flag v =
     (if flag = ''--role'' then a\<lparr>na_role := or_empty v\<rparr>
      else if flag = ''--dir'' then a\<lparr>na_dir := or_empty v\<rparr>
      else if flag = ''--addr'' then a\<lparr>na_addr := v\<rparr>
      else if flag = ''--peer'' then a\<lparr>na_peer := v\<rparr>
      else if flag = ''--apply'' then a\<lparr>na_apply := number_of v\<rparr>
      else if flag = ''--retries'' then a\<lparr>na_retries := number_of v\<rparr>
      else if flag = ''--delay-ms'' then a\<lparr>na_delay := number_of v\<rparr>
      else a)"

text \<open>The loop steps over two words at a time, whatever the first of them is.\<close>

fun args_loop :: "node_args \<Rightarrow> string list \<Rightarrow> node_args" where
  "args_loop a [] = a"
| "args_loop a [flag] = take_arg a flag None"
| "args_loop a (flag # v # argv) = args_loop (take_arg a flag (Some v)) argv"

definition parse_args :: "string list \<Rightarrow> node_args" where
  "parse_args argv =
     args_loop \<lparr>na_role = [], na_dir = [], na_addr = None, na_peer = None, na_apply = 0,
       na_retries = 0, na_delay = 0\<rparr> argv"

text \<open>\<open>Path::join\<close> of a relative name, with Unix paths.\<close>

definition path_join :: "string \<Rightarrow> string \<Rightarrow> string" where
  "path_join dir name =
     (if dir = [] \<or> last dir = CHR ''/'' then dir @ name else dir @ ''/'' @ name)"

section \<open>The source\<close>

datatype node_line =
    Boot_Failed wal_error
  | Bind_Failed
  | Applied string
  | No_Peer
  | Sync_Failed nat syncd_error
  | Connect_Failed nat
  | Sync_Ok string
  | Listen string
  | Verify_Failed syncd_error
  | Usage

definition NODE_TIP :: string where
  "NODE_TIP = ''kai-sync-node''"

text \<open>The transactions, each with the outcome of its log write; \<open>Inl\<close> is the error that ends the run.\<close>

fun source_apply ::
  "profile \<Rightarrow> digest \<Rightarrow> wal_codec \<Rightarrow> fs \<Rightarrow> persistent_state \<Rightarrow> (tx \<times> write_outcome) list \<Rightarrow>
   (fs \<times> persistent_state \<times> (wal_error + unit)) option" where
  "source_apply p D C f ps [] = Some (f, ps, Inr ())"
| "source_apply p D C f ps ((tx, w) # txs) = do {
     (f', ps', r) \<leftarrow> pst_apply p D C w f ps tx;
     case r of Inl e \<Rightarrow> Some (f', ps', Inl e) | Inr _ \<Rightarrow> source_apply p D C f' ps' txs
   }"

text \<open>
  One attempt to reach the peer: no connection, or a connection with the outcome of its write and
  the reads that follow. The result is the lines, what was written to the connections, and the exit code.
\<close>

datatype attempt = No_Connection | Connection "nat option" "read_result list"

text \<open>How an attempt comes about: from the results of connecting and of setting the socket up.\<close>

definition dial :: "bool \<Rightarrow> bool list \<Rightarrow> nat option \<Rightarrow> read_result list \<Rightarrow> attempt" where
  "dial connected options fails reads =
     (case tcp_connect connected options reads of
        Inl _ \<Rightarrow> No_Connection
      | Inr _ \<Rightarrow> Connection fails reads)"

fun source_attempts ::
  "digest \<Rightarrow> sync_codec \<Rightarrow> state_store \<Rightarrow> (nat \<times> attempt) list \<Rightarrow> node_line list \<times> bytes list \<times> nat" where
  "source_attempts D Y store [] = ([], [], 1)"
| "source_attempts D Y store ((i, No_Connection) # later) =
     (let (ls, sent, code) = source_attempts D Y store later in (Connect_Failed i # ls, sent, code))"
| "source_attempts D Y store ((i, Connection fails reads) # later) =
     (case send_and_await_ack D Y fails (from_stream reads) store 1 NODE_TIP of
        (peer, Inr _) \<Rightarrow> ([Sync_Ok (state_root D store)], [tp_sent peer], 0)
      | (peer, Inl e) \<Rightarrow>
          let (ls, sent, code) = source_attempts D Y store later
          in (Sync_Failed i e # ls, tp_sent peer # sent, code))"

text \<open>What the operating system does during a run.\<close>

record node_env =
  ne_writes :: "nat \<Rightarrow> write_outcome"
  ne_marker :: write_outcome
  ne_snapshot :: write_outcome
  ne_attempts :: "nat \<Rightarrow> attempt"

definition source_run ::
  "profile \<Rightarrow> digest \<Rightarrow> wal_codec \<Rightarrow> snap_codec \<Rightarrow> sync_codec \<Rightarrow> node_env \<Rightarrow> node_args \<Rightarrow> string \<Rightarrow>
   fs \<Rightarrow> persistent_state \<Rightarrow> (fs \<times> persistent_state \<times> node_line list \<times> bytes list \<times> nat) option" where
  "source_run p D C SC Y env a state_path f ps = do {
     let txs = deterministic_txs (na_apply a);
     (f1, ps1, r) \<leftarrow> source_apply p D C f ps (zip txs (map (ne_writes env) [0 ..< length txs]));
     case r of
       Inl e \<Rightarrow> Some (f1, ps1, [Boot_Failed e], [], 2)
     | Inr _ \<Rightarrow> do {
         (f2, ps2, c) \<leftarrow> pst_checkpoint p D C SC (ne_marker env) (ne_snapshot env) f1 ps1 1 NODE_TIP state_path;
         case c of
           Inl e \<Rightarrow> Some (f2, ps2, [Boot_Failed e], [], 2)
         | Inr _ \<Rightarrow>
             let applied = Applied (state_root D (pst_store ps2)) in
             (case na_peer a of
                None \<Rightarrow> Some (f2, ps2, [applied, No_Peer], [], 1)
              | Some _ \<Rightarrow>
                  let (ls, sent, code) = source_attempts D Y (pst_store ps2)
                        (map (\<lambda>i. (i, ne_attempts env i)) [0 ..< Suc (unat (na_retries a))])
                  in Some (f2, ps2, applied # ls, sent, code))
       }
   }"

section \<open>The sink\<close>

text \<open>
  An incoming connection: accepting it or setting it up fails, or it is accepted with the reads it
  will give, the outcomes of the log write and the snapshot write, and that of sending the ack.
\<close>

datatype incoming =
    Accept_Failed
  | Setup_Failed
  | Accepted "read_result list" write_outcome write_outcome "nat option"

definition pick_up ::
  "bool \<Rightarrow> bool list \<Rightarrow> read_result list \<Rightarrow> write_outcome \<Rightarrow> write_outcome \<Rightarrow> nat option \<Rightarrow> incoming" where
  "pick_up accepted options reads w sw fails =
     (if \<not> accepted then Accept_Failed
      else case socket_setup options reads of Inl _ \<Rightarrow> Setup_Failed | Inr _ \<Rightarrow> Accepted reads w sw fails)"

text \<open>The body of the loop: the lines, the bytes sent, and whether the program ends.\<close>

fun sink_serve ::
  "profile \<Rightarrow> digest \<Rightarrow> wal_codec \<Rightarrow> snap_codec \<Rightarrow> sync_codec \<Rightarrow> fs \<Rightarrow> persistent_state \<Rightarrow> incoming \<Rightarrow>
   (fs \<times> persistent_state \<times> node_line list \<times> bytes \<times> bool) option" where
  "sink_serve p D C SC Y f ps Accept_Failed = Some (f, ps, [], [], False)"
| "sink_serve p D C SC Y f ps Setup_Failed = Some (f, ps, [], [], False)"
| "sink_serve p D C SC Y f ps (Accepted reads w sw fails) =
     (case receive_and_verify D Y (from_stream reads) of
        (peer, Inl e) \<Rightarrow> Some (f, ps, [Verify_Failed e], tp_sent peer, False)
      | (peer, Inr snap) \<Rightarrow> do {
          (f', ps', r) \<leftarrow> persist_verified p D C SC w sw f ps snap;
          case r of
            Inl e \<Rightarrow> Some (f', ps', [Verify_Failed e], tp_sent peer, False)
          | Inr _ \<Rightarrow>
              let root = state_root D (pst_store ps');
                  ack = (case sy_print_ack Y \<lparr>ack_root = root\<rparr> of None \<Rightarrow> [] | Some b \<Rightarrow> b)
              in (case tcp_send fails peer ack of
                    (peer', Inl _) \<Rightarrow> Some (f', ps', [], tp_sent peer', False)
                  | (peer', Inr _) \<Rightarrow> Some (f', ps', [Sync_Ok root], tp_sent peer', True))
        })"

text \<open>
  The loop over the connections so far, with what was written to each; \<open>incoming()\<close> never ends, so
  that without a success the sink is still listening (no exit code).
\<close>

fun sink_loop ::
  "profile \<Rightarrow> digest \<Rightarrow> wal_codec \<Rightarrow> snap_codec \<Rightarrow> sync_codec \<Rightarrow> fs \<Rightarrow> persistent_state \<Rightarrow> incoming list \<Rightarrow>
   (fs \<times> persistent_state \<times> node_line list \<times> bytes list \<times> nat option) option" where
  "sink_loop p D C SC Y f ps [] = Some (f, ps, [], [], None)"
| "sink_loop p D C SC Y f ps (c # cs) = do {
     (f', ps', ls, out, done) \<leftarrow> sink_serve p D C SC Y f ps c;
     if done then Some (f', ps', ls, [out], Some 0)
     else do {
       (f'', ps'', ls', outs, code) \<leftarrow> sink_loop p D C SC Y f' ps' cs;
       Some (f'', ps'', ls @ ls', out # outs, code)
     }
   }"

section \<open>The program\<close>

record sink_env =
  se_addr :: "string option"
  se_incoming :: "incoming list"

text \<open>
  The result is the files, the lines printed, the bytes written to each connection, and the exit
  code. The address the sink binds to is an argument of the operating system only.
\<close>

definition sync_node ::
  "profile \<Rightarrow> digest \<Rightarrow> wal_codec \<Rightarrow> snap_codec \<Rightarrow> sync_codec \<Rightarrow> node_env \<Rightarrow> sink_env \<Rightarrow> string list \<Rightarrow> fs \<Rightarrow>
   (fs \<times> node_line list \<times> bytes list \<times> nat option) option" where
  "sync_node p D C SC Y env se argv f = do {
     let a = parse_args argv;
     let state_path = path_join (na_dir a) ''state.json'';
     let log_path = path_join (na_dir a) ''wal.log'';
     (f0, b) \<leftarrow> pst_open p D C SC f state_path log_path;
     case b of
       Inl e \<Rightarrow> Some (f0, [Boot_Failed e], [], Some 2)
     | Inr ps \<Rightarrow>
         if na_role a = ''source'' then do {
           (f', _, ls, sent, code) \<leftarrow> source_run p D C SC Y env a state_path f0 ps;
           Some (f', ls, sent, Some code)
         }
         else if na_role a = ''sink'' then
           (case se_addr se of
              None \<Rightarrow> Some (f0, [Bind_Failed], [], Some 2)
            | Some addr \<Rightarrow> do {
                (f', _, ls, sent, code) \<leftarrow> sink_loop p D C SC Y f0 ps (se_incoming se);
                Some (f', Listen addr # ls, sent, code)
              })
         else Some (f0, [Usage], [], Some 2)
   }"

section \<open>The sink\<close>

text \<open>The state a connection offers: the one its snapshot restores, if its root is as declared.\<close>

fun offered :: "digest \<Rightarrow> sync_codec \<Rightarrow> incoming \<Rightarrow> state_store option" where
  "offered D Y (Accepted reads w sw fails) =
     (case receive_and_verify D Y (from_stream reads) of
        (_, Inl _) \<Rightarrow> None
      | (_, Inr snap) \<Rightarrow> Some (rebuild_store (sy_entries snap)))"
| "offered D Y _ = None"

definition is_sync_ok :: "node_line \<Rightarrow> bool" where
  "is_sync_ok l = (case l of Sync_Ok _ \<Rightarrow> True | _ \<Rightarrow> False)"

lemma checkpoint_keeps:
  "pst_checkpoint p D C SC w sw f ps h t q = Some (f', ps', r) \<Longrightarrow>
   pst_store ps' = pst_store ps \<and> pst_hint ps' = pst_hint ps"
proof -
  assume cp: "pst_checkpoint p D C SC w sw f ps h t q = Some (f', ps', r)"
  then obtain f1 l x where "append_op p D C w f (pst_wal ps)
      (Wal_Checkpoint h t (state_root D (pst_store ps))) = Some (f1, l, x)"
    by (auto simp: pst_checkpoint_def bind_eq_Some_conv)
  with cp show ?thesis by (cases x) (auto simp: pst_checkpoint_def bind_eq_Some_conv)
qed

lemma persist_store:
  "verify_snapshot D snap = Inr st \<Longrightarrow> persist_verified p D C SC w sw f ps snap = Some (f', ps', r) \<Longrightarrow>
   pst_store ps' = st"
  by (auto simp: persist_verified_def bind_eq_Some_conv dest!: checkpoint_keeps)

lemma serve_offered:
  assumes "sink_serve p D C SC Y f ps c = Some (f', ps', ls, sent, over)"
  shows "case offered D Y c of
      None \<Rightarrow> f' = f \<and> ps' = ps \<and> \<not> over \<and> filter is_sync_ok ls = []
    | Some st \<Rightarrow> pst_store ps' = st \<and> ls = (if over then [Sync_Ok (state_root D st)] else ls) \<and>
        (over \<or> filter is_sync_ok ls = [])"
proof (cases c)
  case (Accepted reads w sw fails)
  obtain peer r where r: "receive_and_verify D Y (from_stream reads) = (peer, r)" by fastforce
  show ?thesis
  proof (cases r)
    case (Inl e)
    then show ?thesis using assms Accepted r by (auto simp: is_sync_ok_def)
  next
    case (Inr snap)
    then obtain st where v: "verify_snapshot D snap = Inr st" using receive_verified r by blast
    then have st: "st = rebuild_store (sy_entries snap)" by (simp add: verify_snapshot_iff)
    obtain f1 ps1 x where x: "persist_verified p D C SC w sw f ps snap = Some (f1, ps1, x)"
      using assms Accepted r Inr by (auto simp: bind_eq_Some_conv)
    have "pst_store ps1 = st" by (rule persist_store [OF v x])
    then show ?thesis
      using assms Accepted r Inr st x
      by (cases x) (auto simp: is_sync_ok_def Let_def split: sum.splits prod.splits)
  qed
qed (use assms in auto)

lemma loop_offered:
  "sink_loop p D C SC Y f ps cs = Some (f', ps', ls, outs, code) \<Longrightarrow>
   (f' = f \<and> ps' = ps \<or> Some (pst_store ps') \<in> offered D Y ` set cs) \<and>
   (list_all (\<lambda>c. offered D Y c = None) cs \<longrightarrow> f' = f \<and> ps' = ps \<and> code = None) \<and>
   (code = None \<and> filter is_sync_ok ls = [] \<or>
    code = Some 0 \<and> filter is_sync_ok ls = [Sync_Ok (state_root D (pst_store ps'))])"
proof (induction cs arbitrary: f ps ls outs)
  case (Cons c cs)
  then obtain f1 ps1 ls1 sent over where one:
    "sink_serve p D C SC Y f ps c = Some (f1, ps1, ls1, sent, over)"
    by (auto simp: bind_eq_Some_conv)
  note so = serve_offered [OF one]
  show ?case
  proof (cases over)
    case True
    then obtain st where "offered D Y c = Some st" using so by (auto split: option.splits)
    then show ?thesis using True so one Cons.prems by (auto simp: is_sync_ok_def image_iff)
  next
    case False
    then obtain ls2 outs2 where rest: "sink_loop p D C SC Y f1 ps1 cs = Some (f', ps', ls2, outs2, code)" "ls = ls1 @ ls2"
      using one Cons.prems by (auto simp: bind_eq_Some_conv)
    show ?thesis
    proof (cases "offered D Y c")
      case None
      then show ?thesis using Cons.IH [OF rest(1)] so False rest(2) by auto
    next
      case (Some st)
      then have "pst_store ps1 = st" "filter is_sync_ok ls1 = []" using so False by auto
      then show ?thesis using Cons.IH [OF rest(1)] Some rest(2) by (auto simp: image_iff)
    qed
  qed
qed simp

end
