(* ===== verification/Sync_Convergence.thy ===== *)
theory Sync_Convergence imports Sync_Node begin

text \<open>
  What the two programs of a state transfer promise together: the source and the sink end with the
  same durable state; a sink never holds a state it did not verify; and what a lost snapshot file
  costs.
\<close>

section \<open>Reopening after a sync\<close>

lemma open_from_base:
  assumes "wal_codec_ok C" "length rs < 2 ^ 64" "wal_at D C f l rs"
    and "recovery_base D SC f state_path (map wr_op rs) = Some (b, i)"
  shows "\<exists>ps. pst_open p D C SC f state_path (wal_path l) = Some (f, Inr ps) \<and>
    pst_store ps = foldl apply_op b (drop i (map wr_op rs))"
proof -
  have "wal_chain D C rs" "f (wal_path l) = Some (wal_file C rs)" using assms(3) by (simp_all add: wal_at_def)
  then show ?thesis
    using replay_file [of C D rs f "wal_path l" "[]" p] open_at [of C D rs f "wal_path l" "[]" p] assms(1,2,4)
    by (simp add: pst_open_def)
qed

lemma reopen_synced:
  assumes "wal_codec_ok C" "Suc (length rs) < 2 ^ 64"
    and "wal_at D C f l (rs @ [next_record D C rs (Wal_Checkpoint h t (state_root D st))])"
    and "load_snapshot_store D SC f state_path = Some (Inr st)"
  shows "\<exists>ps. pst_open p D C SC f state_path (wal_path l) = Some (f, Inr ps) \<and> pst_store ps = st"
proof -
  have "recovery_base D SC f state_path (map wr_op (rs @ [next_record D C rs (Wal_Checkpoint h t (state_root D st))])) =
      Some (st, Suc (length rs))"
    using assms(4) by (simp add: recovery_base_def)
  from open_from_base [OF assms(1) _ assms(3) this] show ?thesis using assms(2) by simp
qed

lemma reopen_lost:
  assumes "wal_codec_ok C" "Suc (length rs) < 2 ^ 64" "state_path \<noteq> wal_path l"
    and "wal_at D C f l (rs @ [next_record D C rs (Wal_Checkpoint h t r)])"
    and "load_snapshot_store D SC (f(state_path := c)) state_path = Some (Inl e)"
  shows "\<exists>ps. pst_open p D C SC (f(state_path := c)) state_path (wal_path l) = Some (f(state_path := c), Inr ps) \<and>
    pst_store ps = run_ops (map wr_op rs)"
proof -
  let ?rs = "rs @ [next_record D C rs (Wal_Checkpoint h t r)]"
  have "wal_at D C (f(state_path := c)) l ?rs" using wal_at_other [OF assms(4)] assms(3) by simp
  moreover have "recovery_base D SC (f(state_path := c)) state_path (map wr_op ?rs) = Some (new_store, 0)"
    using assms(5) by (simp add: recovery_base_def)
  ultimately show ?thesis
    using open_from_base [OF assms(1), of ?rs D "f(state_path := c)" l SC state_path new_store 0 p] assms(2)
    by (simp add: run_ops_def)
qed

text \<open>The sink takes over what a source sent, persists it and acknowledges it.\<close>

lemma serve_transfer:
  assumes "wal_codec_ok C" "snap_codec_ok SC" "sync_codec_ok Y"
    and "wal_at D C f (pst_wal ps) rs" "Suc (length rs) < 2 ^ 64" "pst_hint ps \<noteq> wal_path (pst_wal ps)"
    and "sy_print Y (snapshot_from_store D st h t) = Some msg" "length msg \<le> MAX_FRAME"
    and "sy_print_ack Y \<lparr>ack_root = state_root D st\<rparr> = Some ack"
    and "concat cs = frame msg" "[] \<notin> set cs"
  obtains f' ps' where
    "sink_serve p D C SC Y f ps (Accepted (map Read cs) Written Written None) =
       Some (f', ps', [Sync_Ok (state_root D st)], frame ack, True)"
    "pst_store ps' = st" "wal_path (pst_wal ps') = wal_path (pst_wal ps)"
    "wal_at D C f' (pst_wal ps') (rs @ [next_record D C rs (Wal_Checkpoint h t (state_root D st))])"
    "load_snapshot_store D SC f' (pst_hint ps) = Some (Inr st)"
    "last_verified_boundary D SC f' ps' = \<lparr>vb_height = h, vb_tip = t, vb_root = state_root D st\<rparr>"
proof -
  have "concat cs = frame msg @ []" using assms(10) by simp
  then obtain peer where peer: "receive_and_verify D Y (from_stream (map Read cs)) =
      (peer, Inr (snapshot_from_store D st h t))" "tp_sent peer = []"
    by (rule receive_sent [OF assms(3,7,8) _ assms(11)])
  let ?ps = "ps\<lparr>pst_store := st\<rparr>"
  have "wal_at D C f (pst_wal ?ps) rs" "pst_hint ps \<noteq> wal_path (pst_wal ?ps)" using assms(4,6) by simp_all
  then obtain f' ps' where cp:
    "pst_checkpoint p D C SC Written Written f ?ps h t (pst_hint ps) = Some (f', ps', Inr ())"
    "wal_at D C f' (pst_wal ps') (rs @ [next_record D C rs (Wal_Checkpoint h t (state_root D (pst_store ?ps)))])"
    "wal_path (pst_wal ps') = wal_path (pst_wal ?ps)" "pst_store ps' = pst_store ?ps" "pst_hint ps' = pst_hint ?ps"
    "load_snapshot_store D SC f' (pst_hint ps) = Some (Inr (pst_store ?ps))"
    "snapshot_meta SC f' (pst_hint ps) = Inr (h, t, state_root D (pst_store ?ps))"
    by (rule checkpoint_any [OF assms(1,2) _ assms(5)]) blast
  have h: "sy_height (snapshot_from_store D st h t) = h" "sy_tip (snapshot_from_store D st h t) = t"
    by (simp_all add: snapshot_from_store_def)
  have "persist_verified p D C SC Written Written f ps (snapshot_from_store D st h t) = Some (f', ps', Inr ())"
    by (simp add: persist_verified_def h cp(1))
  then show thesis using peer cp(2-7) assms(9)
    by (intro that [of f' ps']) (simp_all add: tcp_send_def last_verified_boundary_def)
qed

section \<open>The source\<close>

lemma source_applies:
  assumes "wal_codec_ok C"
  shows "log_holds D C path n f ps txs rs \<Longrightarrow> n + length us < 2 ^ 64 \<Longrightarrow>
    \<exists>f' ps' rs'. source_apply p D C f ps (map (\<lambda>tx. (tx, Written)) us) = Some (f', ps', Inr ()) \<and>
      log_holds D C path (n + length us) f' ps' (txs @ us) rs'"
proof (induction us arbitrary: n f ps txs rs)
  case (Cons u us)
  then have "Suc n < 2 ^ 64" by simp
  then obtain f1 ps1 rs1 where one: "pst_apply p D C Written f ps u = Some (f1, ps1, Inr (of_nat (Suc n)))"
    "log_holds D C path (Suc n) f1 ps1 (txs @ [u]) rs1"
    by (rule apply_holds [OF assms Cons.prems(1)])
  from Cons.IH [OF one(2)] Cons.prems(2) show ?case using one(1) by (simp del: of_nat_Suc)
qed auto

definition acked :: "digest \<Rightarrow> sync_codec \<Rightarrow> state_store \<Rightarrow> attempt \<Rightarrow> bool" where
  "acked D Y st x =
     (case x of
        No_Connection \<Rightarrow> False
      | Connection fails reads \<Rightarrow> is_ok (snd (send_and_await_ack D Y fails (from_stream reads) st 1 NODE_TIP)))"

lemma attempts_outcome:
  "source_attempts D Y st xs = (ls, sent, code) \<Longrightarrow>
   (if list_ex (acked D Y st \<circ> snd) xs
    then code = 0 \<and> filter is_sync_ok ls = [Sync_Ok (state_root D st)] \<and>
      length ls = Suc (length (takeWhile (Not \<circ> acked D Y st \<circ> snd) xs))
    else code = 1 \<and> filter is_sync_ok ls = [] \<and> length ls = length xs)"
proof (induction xs arbitrary: ls sent code)
  case (Cons x xs)
  obtain i y where x: "x = (i, y)" by (cases x)
  obtain ls' sent' code' where rest: "source_attempts D Y st xs = (ls', sent', code')" by (metis prod_cases3)
  note ih = Cons.IH [OF rest]
  show ?case
  proof (cases y)
    case No_Connection
    then show ?thesis using Cons.prems ih x rest by (auto simp: acked_def is_sync_ok_def split: if_splits)
  next
    case (Connection fails reads)
    obtain peer r where "send_and_await_ack D Y fails (from_stream reads) st 1 NODE_TIP = (peer, r)"
      by fastforce
    then show ?thesis using Cons.prems ih x rest Connection
      by (cases r) (auto simp: acked_def is_sync_ok_def split: if_splits)
  qed
qed simp

lemma partition_then_ack:
  assumes "\<forall>i < k. att i = No_Connection" "att k = Connection None (map Read cs)" "k \<le> m" "n \<le> k"
    and "send_and_await_ack D Y None (from_stream (map Read cs)) st 1 NODE_TIP = (peer, Inr ())"
  shows "source_attempts D Y st (map (\<lambda>i. (i, att i)) [n ..< Suc m]) =
    (map Connect_Failed [n ..< k] @ [Sync_Ok (state_root D st)], [tp_sent peer], 0)"
  using assms(4)
proof (induction "k - n" arbitrary: n)
  case 0
  then show ?case using assms by (simp add: upt_rec)
next
  case (Suc d)
  then have "[n ..< Suc m] = n # [Suc n ..< Suc m]" "[n ..< k] = n # [Suc n ..< k]" "att n = No_Connection"
    using assms(1,3) by (simp_all add: upt_rec)
  then show ?case using Suc.hyps(1) [of "Suc n"] Suc.hyps(2) by simp
qed

text \<open>What the source writes to the first connection it gets, whatever it reads from it.\<close>

lemma send_sends:
  "sy_print Y (snapshot_from_store D st h t) = Some msg \<Longrightarrow>
   tp_sent (fst (send_and_await_ack D Y None q st h t)) = tp_sent q @ frame msg"
proof -
  assume msg: "sy_print Y (snapshot_from_store D st h t) = Some msg"
  let ?q = "q\<lparr>tp_sent := tp_sent q @ frame msg\<rparr>"
  obtain q' x where "peer_receive ?q = (q', x)" by fastforce
  moreover from this have "tp_sent q' = tp_sent q @ frame msg" using peer_receive_sent [of ?q] by simp
  ultimately show ?thesis
    using msg by (cases x) (simp_all add: send_and_await_ack_def tcp_send_def)
qed

lemma partition_then_send:
  assumes "\<forall>i < k. att i = No_Connection" "att k = Connection None reads" "k \<le> m" "n \<le> k"
  shows "\<exists>ls later code. source_attempts D Y st (map (\<lambda>i. (i, att i)) [n ..< Suc m]) =
    (ls, tp_sent (fst (send_and_await_ack D Y None (from_stream reads) st 1 NODE_TIP)) # later, code)"
  using assms(4)
proof (induction "k - n" arbitrary: n)
  case 0
  obtain q x where "send_and_await_ack D Y None (from_stream reads) st 1 NODE_TIP = (q, x)" by fastforce
  moreover obtain ls later code where
    "source_attempts D Y st (map (\<lambda>i. (i, att i)) [Suc n ..< Suc m]) = (ls, later, code)"
    by (metis prod_cases3)
  moreover have "n = k" "[n ..< Suc m] = n # [Suc n ..< Suc m]" using 0 assms(3,4) by (simp_all add: upt_rec)
  ultimately show ?case using assms(2) by (cases x) simp_all
next
  case (Suc d)
  then have "[n ..< Suc m] = n # [Suc n ..< Suc m]" "att n = No_Connection"
    using assms(1,3) by (simp_all add: upt_rec)
  moreover obtain ls later code where "source_attempts D Y st (map (\<lambda>i. (i, att i)) [Suc n ..< Suc m]) =
      (ls, tp_sent (fst (send_and_await_ack D Y None (from_stream reads) st 1 NODE_TIP)) # later, code)"
    using Suc.hyps(1) [of "Suc n"] Suc.hyps(2) by fastforce
  ultimately show ?case by simp
qed

lemma source_run_ok:
  assumes "wal_codec_ok C" "snap_codec_ok SC" "state_path \<noteq> path"
    and "log_holds D C path 0 f ps [] []" "unat (na_apply a) + 1 < 2 ^ 64"
    and "ne_writes env = (\<lambda>_. Written)" "ne_marker env = Written" "ne_snapshot env = Written"
    and "na_peer a = Some peer" "st = apply_all new_store (deterministic_txs (na_apply a))"
    and "source_attempts D Y st (map (\<lambda>i. (i, ne_attempts env i)) [0 ..< Suc (unat (na_retries a))]) = (ls, sent, code)"
  obtains f' ps' rs where
    "source_run p D C SC Y env a state_path f ps =
       Some (f', ps', Applied (state_root D st) # ls, sent, code)"
    "wal_at D C f' (pst_wal ps') (rs @ [next_record D C rs (Wal_Checkpoint 1 NODE_TIP (state_root D st))])"
    "wal_path (pst_wal ps') = path" "Suc (length rs) < 2 ^ 64"
    "load_snapshot_store D SC f' state_path = Some (Inr st)"
proof -
  let ?txs = "deterministic_txs (na_apply a)"
  have "0 + length ?txs < 2 ^ 64" using assms(5) by (simp add: deterministic_txs_def)
  then obtain f1 ps1 rs where app:
    "source_apply p D C f ps (map (\<lambda>tx. (tx, Written)) ?txs) = Some (f1, ps1, Inr ())"
    "log_holds D C path (0 + length ?txs) f1 ps1 ([] @ ?txs) rs"
    using source_applies [OF assms(1,4), of ?txs p] by blast
  have z: "zip us (map (\<lambda>_. Written) [0 ..< length us]) = map (\<lambda>tx. (tx, Written)) us" for us :: "tx list"
    by (rule nth_equalityI) simp_all
  have lh: "wal_at D C f1 (pst_wal ps1) rs" "wal_path (pst_wal ps1) = path" "pst_store ps1 = st"
    "Suc (length rs) < 2 ^ 64"
    using app(2) assms(5,10) by (simp_all add: log_holds_def deterministic_txs_def)
  have "state_path \<noteq> wal_path (pst_wal ps1)" using assms(3) lh(2) by simp
  then obtain f' ps' where
    "pst_checkpoint p D C SC Written Written f1 ps1 1 NODE_TIP state_path = Some (f', ps', Inr ())"
    "wal_at D C f' (pst_wal ps') (rs @ [next_record D C rs (Wal_Checkpoint 1 NODE_TIP (state_root D (pst_store ps1)))])"
    "wal_path (pst_wal ps') = wal_path (pst_wal ps1)" "pst_store ps' = pst_store ps1" "pst_hint ps' = pst_hint ps1"
    "load_snapshot_store D SC f' state_path = Some (Inr (pst_store ps1))"
    by (rule checkpoint_any [OF assms(1,2) lh(1,4)]) blast
  then show thesis using app(1) lh assms(6-9,11) z [of ?txs]
    by (intro that [of f' ps' rs]) (simp_all add: source_run_def Let_def)
qed

section \<open>Programs\<close>

lemma serve_refused:
  "offered D Y c = None \<Longrightarrow>
   \<exists>ls sent. sink_serve p D C SC Y f ps c = Some (f, ps, ls, sent, False) \<and> filter is_sync_ok ls = []"
  by (cases c) (auto simp: is_sync_ok_def split: prod.splits sum.splits)

lemma loop_refused:
  "list_all (\<lambda>c. offered D Y c = None) cs \<Longrightarrow>
   sink_serve p D C SC Y f ps c = Some (f', ps', ls, sent, True) \<Longrightarrow>
   \<exists>before outs. sink_loop p D C SC Y f ps (cs @ [c]) = Some (f', ps', before @ ls, outs @ [sent], Some 0) \<and>
     filter is_sync_ok before = []"
proof (induction cs)
  case (Cons x cs)
  obtain ls1 sent1 where "sink_serve p D C SC Y f ps x = Some (f, ps, ls1, sent1, False)"
    "filter is_sync_ok ls1 = []"
    using serve_refused [of D Y x p C SC f ps] Cons.prems(1) by auto
  then show ?case using Cons by fastforce
qed (simp add: exI [of _ "[]"])

lemma paths_differ: "path_join d ''state.json'' \<noteq> path_join d ''wal.log''"
  by (simp add: path_join_def)

lemma fresh_node:
  assumes "f path = None"
  obtains ps where "pst_open p D C SC f state_path path = Some (f(path \<mapsto> []), Inr ps)"
    "log_holds D C path 0 (f(path \<mapsto> [])) ps [] []" "pst_hint ps = state_path"
  by (rule that [of "\<lparr>pst_store = new_store,
      pst_wal = \<lparr>wal_path = path, wal_seq = 0, wal_prev = WAL_GENESIS\<rparr>, pst_hint = state_path\<rparr>"])
    (use assms in \<open>simp_all add: pst_open_new log_holds_def wal_at_def\<close>)

text \<open>What the sink's directory and the source's directory restore.\<close>

definition restores :: "profile \<Rightarrow> digest \<Rightarrow> wal_codec \<Rightarrow> snap_codec \<Rightarrow> fs \<Rightarrow> string \<Rightarrow> state_store \<Rightarrow> bool" where
  "restores p D C SC f dir st =
     (case pst_open p D C SC f (path_join dir ''state.json'') (path_join dir ''wal.log'') of
        Some (_, Inr ps) \<Rightarrow> pst_store ps = st | _ \<Rightarrow> False)"

lemma source_program:
  assumes "wal_codec_ok C" "snap_codec_ok SC" "a = parse_args argv" "na_role a = ''source''"
    and "f (path_join (na_dir a) ''wal.log'') = None" "unat (na_apply a) + 1 < 2 ^ 64"
    and "ne_writes env = (\<lambda>_. Written)" "ne_marker env = Written" "ne_snapshot env = Written"
    and "na_peer a = Some peer" "st = apply_all new_store (deterministic_txs (na_apply a))"
    and "source_attempts D Y st (map (\<lambda>i. (i, ne_attempts env i)) [0 ..< Suc (unat (na_retries a))]) = (ls, sent, code)"
  obtains f' where
    "sync_node p D C SC Y env se argv f = Some (f', Applied (state_root D st) # ls, sent, Some code)"
    "restores p D C SC f' (na_dir a) st"
proof -
  let ?sp = "path_join (na_dir a) ''state.json''" and ?lp = "path_join (na_dir a) ''wal.log''"
  obtain ps where op: "pst_open p D C SC f ?sp ?lp = Some (f(?lp \<mapsto> []), Inr ps)"
    "log_holds D C ?lp 0 (f(?lp \<mapsto> [])) ps [] []"
    by (rule fresh_node [of f ?lp p D C SC ?sp, OF assms(5)])
  obtain f' ps' rs where run:
    "source_run p D C SC Y env a ?sp (f(?lp \<mapsto> [])) ps =
       Some (f', ps', Applied (state_root D st) # ls, sent, code)"
    "wal_at D C f' (pst_wal ps') (rs @ [next_record D C rs (Wal_Checkpoint 1 NODE_TIP (state_root D st))])"
    "wal_path (pst_wal ps') = ?lp" "Suc (length rs) < 2 ^ 64"
    "load_snapshot_store D SC f' ?sp = Some (Inr st)"
    by (rule source_run_ok [OF assms(1,2) paths_differ op(2) assms(6-12)])
  have "restores p D C SC f' (na_dir a) st"
    using reopen_synced [OF assms(1) run(4,2,5), of p] run(3) by (auto simp: restores_def)
  moreover have "sync_node p D C SC Y env se argv f = Some (f', Applied (state_root D st) # ls, sent, Some code)"
    using op(1) run(1) assms(3,4) by (simp add: sync_node_def Let_def)
  ultimately show thesis by (rule that [rotated])
qed

lemma sink_program:
  assumes "wal_codec_ok C" "snap_codec_ok SC" "sync_codec_ok Y" "a = parse_args argv" "na_role a = ''sink''"
    and "f (path_join (na_dir a) ''wal.log'') = None" "se_addr se = Some addr"
    and "se_incoming se = refused @ [Accepted (map Read cs) Written Written None]"
    and "list_all (\<lambda>c. offered D Y c = None) refused"
    and "sy_print Y (snapshot_from_store D st h t) = Some msg" "length msg \<le> MAX_FRAME"
    and "sy_print_ack Y \<lparr>ack_root = state_root D st\<rparr> = Some ack" "concat cs = frame msg" "[] \<notin> set cs"
  obtains f' ls outs where
    "sync_node p D C SC Y env se argv f = Some (f', ls, outs @ [frame ack], Some 0)"
    "filter is_sync_ok ls = [Sync_Ok (state_root D st)]"
    "restores p D C SC f' (na_dir a) st"
proof -
  let ?sp = "path_join (na_dir a) ''state.json''" and ?lp = "path_join (na_dir a) ''wal.log''"
  obtain ps where op: "pst_open p D C SC f ?sp ?lp = Some (f(?lp \<mapsto> []), Inr ps)"
    "log_holds D C ?lp 0 (f(?lp \<mapsto> [])) ps [] []" "pst_hint ps = ?sp"
    by (rule fresh_node [of f ?lp p D C SC ?sp, OF assms(6)])
  then have at: "wal_at D C (f(?lp \<mapsto> [])) (pst_wal ps) []" "wal_path (pst_wal ps) = ?lp"
    "pst_hint ps \<noteq> wal_path (pst_wal ps)"
    using paths_differ by (simp_all add: log_holds_def)
  have "Suc (length ([] :: wal_record list)) < 2 ^ 64" by simp
  then obtain f' ps' where serve:
    "sink_serve p D C SC Y (f(?lp \<mapsto> [])) ps (Accepted (map Read cs) Written Written None) =
       Some (f', ps', [Sync_Ok (state_root D st)], frame ack, True)"
    "pst_store ps' = st" "wal_path (pst_wal ps') = wal_path (pst_wal ps)"
    "wal_at D C f' (pst_wal ps') ([] @ [next_record D C [] (Wal_Checkpoint h t (state_root D st))])"
    "load_snapshot_store D SC f' (pst_hint ps) = Some (Inr st)"
    "last_verified_boundary D SC f' ps' = \<lparr>vb_height = h, vb_tip = t, vb_root = state_root D st\<rparr>"
    by (rule serve_transfer [OF assms(1-3) at(1) _ at(3) assms(10-14)])
  have "\<exists>qs. pst_open p D C SC f' (pst_hint ps) (wal_path (pst_wal ps')) = Some (f', Inr qs) \<and> pst_store qs = st"
    by (rule reopen_synced [OF assms(1) _ serve(4,5)]) simp
  then have "restores p D C SC f' (na_dir a) st"
    using serve(3) at(2) op(3) by (auto simp: restores_def)
  moreover obtain before outs where "sink_loop p D C SC Y (f(?lp \<mapsto> [])) ps (se_incoming se) =
      Some (f', ps', before @ [Sync_Ok (state_root D st)], outs @ [frame ack], Some 0)" "filter is_sync_ok before = []"
    using loop_refused [OF assms(9) serve(1)] assms(8) by auto
  ultimately show thesis using op(1) assms(4,5,7)
    by (intro that [of f' "Listen addr # before @ [Sync_Ok (state_root D st)]" outs])
      (simp_all add: sync_node_def Let_def is_sync_ok_def)
qed

section \<open>The codec of the examples\<close>

definition demo_sync_codec :: sync_codec where
  "demo_sync_codec =
     \<lparr>sy_print = \<lambda>s. Some (as_bytes (pack (show_word (sy_height s) # sy_tip s # sy_root s #
        concat (map (\<lambda>(k, v). [k, v]) (sy_entries s))))),
      sy_parse = \<lambda>b. (case unpack (of_bytes b) of
          Some (h # tip # root # es) \<Rightarrow>
            map_option (\<lambda>height. \<lparr>sy_height = height, sy_tip = tip, sy_root = root, sy_entries = pairs_of es\<rparr>)
              (parse_word h)
        | _ \<Rightarrow> None),
      sy_print_ack = \<lambda>a. Some (as_bytes (pack [ack_root a])),
      sy_parse_ack = \<lambda>b. (case unpack (of_bytes b) of Some [r] \<Rightarrow> Some \<lparr>ack_root = r\<rparr> | _ \<Rightarrow> None)\<rparr>"

lemma demo_sync_codec_ok: "sync_codec_ok demo_sync_codec"
  by (auto simp: sync_codec_ok_def demo_sync_codec_def)

text \<open>The messages of the examples are within the frame limit.\<close>

definition demo_msg :: "state_store \<Rightarrow> bytes" where
  "demo_msg st = the (sy_print demo_sync_codec (snapshot_from_store demo_digest st 1 NODE_TIP))"

definition demo_ack :: "state_store \<Rightarrow> bytes" where
  "demo_ack st = the (sy_print_ack demo_sync_codec \<lparr>ack_root = state_root demo_digest st\<rparr>)"

lemma demo_messages:
  "sy_print demo_sync_codec (snapshot_from_store demo_digest st 1 NODE_TIP) = Some (demo_msg st)"
  "sy_print_ack demo_sync_codec \<lparr>ack_root = state_root demo_digest st\<rparr> = Some (demo_ack st)"
  "length (demo_ack st) \<le> MAX_FRAME"
  "sum_list (map (\<lambda>f. 2 * length f + 1) (concat (map (\<lambda>(k, v). [k, v]) (bm_entries (entries st))))) \<le> 1000 \<Longrightarrow>
     length (demo_msg st) \<le> MAX_FRAME"
proof -
  show "sy_print demo_sync_codec (snapshot_from_store demo_digest st 1 NODE_TIP) = Some (demo_msg st)"
    "sy_print_ack demo_sync_codec \<lparr>ack_root = state_root demo_digest st\<rparr> = Some (demo_ack st)"
    by (simp_all add: demo_msg_def demo_ack_def demo_sync_codec_def)
  note root = length_state_root [OF digest32_demo, of st]
  show "length (demo_ack st) \<le> MAX_FRAME"
    using length_pack [of "[state_root demo_digest st]"] root
    by (simp add: demo_ack_def demo_sync_codec_def as_bytes_def MAX_FRAME_def)
  have one: "show_word (1 :: u64) = ''1''" by (simp add: show_word_def show_nat.simps digit_char_def)
  assume "sum_list (map (\<lambda>f. 2 * length f + 1) (concat (map (\<lambda>(k, v). [k, v]) (bm_entries (entries st))))) \<le> 1000"
  then show "length (demo_msg st) \<le> MAX_FRAME"
    using length_pack [of "''1'' # NODE_TIP # state_root demo_digest st #
        concat (map (\<lambda>(k, v). [k, v]) (bm_entries (entries st)))"] root
    by (simp add: demo_msg_def demo_sync_codec_def as_bytes_def MAX_FRAME_def snapshot_from_store_def one NODE_TIP_def)
qed

section \<open>Properties\<close>

text \<open>
  C5: Two nodes converge. A source started on an empty directory applies its transactions and
  checkpoints them; its first \<open>k\<close> attempts, within its retries, find no peer. A sink started on an
  empty directory is first offered any connections that carry no verified snapshot, and is then
  connected to the source: what the sink reads there is what the source program wrote to its first
  connection, and what the source reads there is what the sink program wrote to its last one, however
  TCP cuts both into reads. Then both programs return, print \<open>SYNC-OK\<close> with the root of that state and
  exit with 0, and restarting either of them on its directory restores that state.
\<close>

theorem two_nodes_converge:
  assumes "wal_codec_ok C" "snap_codec_ok SC" "sync_codec_ok Y"
    and "a = parse_args argv" "na_role a = ''source''" "na_peer a = Some peer"
    and "f (path_join (na_dir a) ''wal.log'') = None" "unat (na_apply a) + 1 < 2 ^ 64"
    and "ne_writes env = (\<lambda>_. Written)" "ne_marker env = Written" "ne_snapshot env = Written"
    and "k \<le> unat (na_retries a)" "\<forall>i < k. ne_attempts env i = No_Connection"
    and "ne_attempts env k = Connection None (map Read acks)"
    and "b = parse_args argv'" "na_role b = ''sink''" "g (path_join (na_dir b) ''wal.log'') = None"
    and "se_addr se = Some addr"
    and "se_incoming se = refused @ [Accepted (map Read chunks) Written Written None]"
    and "list_all (\<lambda>c. offered D Y c = None) refused"
    and "st = apply_all new_store (deterministic_txs (na_apply a))"
    and "sy_print Y (snapshot_from_store D st 1 NODE_TIP) = Some msg" "length msg \<le> MAX_FRAME"
    and "sy_print_ack Y \<lparr>ack_root = state_root D st\<rparr> = Some ack" "length ack \<le> MAX_FRAME"
    and "\<And>f' ls sent code. sync_node p D C SC Y env se' argv f = Some (f', ls, sent, code) \<Longrightarrow>
           concat chunks = hd sent" "[] \<notin> set chunks"
    and "\<And>g' ls sent code. sync_node p D C SC Y env' se argv' g = Some (g', ls, sent, code) \<Longrightarrow>
           concat acks = last sent" "[] \<notin> set acks"
  shows "\<exists>f' g' ls sent sent'. sync_node p D C SC Y env se' argv f =
       Some (f', Applied (state_root D st) # map Connect_Failed [0 ..< k] @ [Sync_Ok (state_root D st)], sent, Some 0) \<and>
     sync_node p D C SC Y env' se argv' g = Some (g', ls, sent', Some 0) \<and>
     filter is_sync_ok ls = [Sync_Ok (state_root D st)] \<and>
     restores p D C SC f' (na_dir a) st \<and> restores p D C SC g' (na_dir b) st"
proof -
  note source = source_program [where f = f, OF assms(1,2,4,5,7-11,6,21)]
  obtain ls0 later code0 where "source_attempts D Y st (map (\<lambda>i. (i, ne_attempts env i)) [0 ..< Suc (unat (na_retries a))]) =
      (ls0, tp_sent (fst (send_and_await_ack D Y None (from_stream (map Read acks)) st 1 NODE_TIP)) # later, code0)"
    using partition_then_send [OF assms(13,14,12) le0] by blast
  then obtain f0 where "sync_node p D C SC Y env se' argv f = Some (f0, Applied (state_root D st) # ls0,
      tp_sent (fst (send_and_await_ack D Y None (from_stream (map Read acks)) st 1 NODE_TIP)) # later, Some code0)"
    by (rule source)
  from assms(26) [OF this] have chunks: "concat chunks = frame msg"
    by (simp add: send_sends [OF assms(22)]) (simp add: from_stream_def)
  obtain g' ls outs where sink: "sync_node p D C SC Y env' se argv' g = Some (g', ls, outs @ [frame ack], Some 0)"
    "filter is_sync_ok ls = [Sync_Ok (state_root D st)]" "restores p D C SC g' (na_dir b) st"
    by (rule sink_program [where f = g, OF assms(1-3,15-20,22-24) chunks assms(27)])
  have "concat acks = frame ack @ []" using assms(28) [OF sink(1)] by simp
  then obtain q where "send_and_await_ack D Y None (from_stream (map Read acks)) st 1 NODE_TIP = (q, Inr ())"
    by (rule send_acked [OF assms(3,22,24,25) _ assms(29)])
  from partition_then_ack [OF assms(13,14,12) le0 this]
  have att: "source_attempts D Y st (map (\<lambda>i. (i, ne_attempts env i)) [0 ..< Suc (unat (na_retries a))]) =
      (map Connect_Failed [0 ..< k] @ [Sync_Ok (state_root D st)], [tp_sent q], 0)" .
  obtain f' where "sync_node p D C SC Y env se' argv f =
      Some (f', Applied (state_root D st) # map Connect_Failed [0 ..< k] @ [Sync_Ok (state_root D st)], [tp_sent q], Some 0)"
    "restores p D C SC f' (na_dir a) st"
    by (rule source [OF att])
  with sink show ?thesis by blast
qed

lemma two_nodes_converge_witness:
  "\<exists>st f' g' ls sent sent'.
     sync_node Checked demo_digest demo_wal_codec demo_snap_codec demo_sync_codec
       \<lparr>ne_writes = \<lambda>_. Written, ne_marker = Written, ne_snapshot = Written,
         ne_attempts = (\<lambda>_. No_Connection)(1 := Connection None [Read (frame (demo_ack st))])\<rparr>
       \<lparr>se_addr = None, se_incoming = []\<rparr>
       [''--role'', ''source'', ''--peer'', ''p'', ''--apply'', ''1'', ''--retries'', ''3''] Map.empty =
       Some (f', [Applied (state_root demo_digest st), Connect_Failed 0, Sync_Ok (state_root demo_digest st)], sent, Some 0) \<and>
     sync_node Checked demo_digest demo_wal_codec demo_snap_codec demo_sync_codec
       \<lparr>ne_writes = \<lambda>_. Written, ne_marker = Written, ne_snapshot = Written, ne_attempts = \<lambda>_. No_Connection\<rparr>
       \<lparr>se_addr = Some ''a'', se_incoming = [Accept_Failed, Accepted [Read (frame (demo_msg st))] Written Written None]\<rparr>
       [''--role'', ''sink''] Map.empty = Some (g', ls, sent', Some 0) \<and>
     restores Checked demo_digest demo_wal_codec demo_snap_codec g' [] st"
proof -
  let ?argv = "[''--role'', ''source'', ''--peer'', ''p'', ''--apply'', ''1'', ''--retries'', ''3'']"
  let ?argv' = "[''--role'', ''sink'']"
  let ?st = "apply_all new_store (deterministic_txs 1)"
  have args: "na_role (parse_args ?argv) = ''source''" "na_peer (parse_args ?argv) = Some ''p''"
    "na_apply (parse_args ?argv) = 1" "na_retries (parse_args ?argv) = 3" "na_dir (parse_args ?argv) = []"
    "na_role (parse_args ?argv') = ''sink''" "na_dir (parse_args ?argv') = []"
    by (simp_all add: parse_args_def take_arg_def or_empty_def number_of_def parse_word_def Let_def
        digit_value_def)
  have "bm_entries (entries ?st) = [(''node/tx-0000'', ''value-0000'')]"
    by (simp add: deterministic_txs_def pad4_def show_nat.simps digit_char_def numeral_3_eq_3)
  then have msg: "length (demo_msg ?st) \<le> MAX_FRAME" by (intro demo_messages(4)) simp
  let ?env = "\<lparr>ne_writes = \<lambda>_. Written, ne_marker = Written, ne_snapshot = Written,
      ne_attempts = (\<lambda>_. No_Connection)(1 := Connection None [Read (frame (demo_ack ?st))])\<rparr>"
  let ?env' = "\<lparr>ne_writes = \<lambda>_. Written, ne_marker = Written, ne_snapshot = Written, ne_attempts = \<lambda>_. No_Connection\<rparr>"
  let ?se = "\<lparr>se_addr = Some ''a'',
      se_incoming = [Accept_Failed, Accepted [Read (frame (demo_msg ?st))] Written Written None]\<rparr>"
  let ?source = "sync_node Checked demo_digest demo_wal_codec demo_snap_codec demo_sync_codec ?env
        \<lparr>se_addr = None, se_incoming = []\<rparr> ?argv Map.empty"
  let ?sink = "sync_node Checked demo_digest demo_wal_codec demo_snap_codec demo_sync_codec ?env' ?se ?argv' Map.empty"
  have wire: "concat [frame (demo_msg ?st)] = hd sent" if run: "?source = Some (f', ls, sent, code)" for f' ls sent code
  proof -
    obtain q x where q: "send_and_await_ack demo_digest demo_sync_codec None (from_stream [Read (frame (demo_ack ?st))])
        ?st 1 NODE_TIP = (q, x)" by fastforce
    have "\<forall>i < 1. ne_attempts ?env i = No_Connection" "ne_attempts ?env 1 = Connection None [Read (frame (demo_ack ?st))]"
      "1 \<le> unat (na_retries (parse_args ?argv))" "0 \<le> (1 :: nat)" by (simp_all add: args)
    from partition_then_send [OF this, of demo_digest demo_sync_codec ?st]
    obtain ls0 later code0 where att: "source_attempts demo_digest demo_sync_codec ?st
        (map (\<lambda>i. (i, ne_attempts ?env i)) [0 ..< Suc (unat (na_retries (parse_args ?argv)))]) =
        (ls0, tp_sent q # later, code0)"
      unfolding q fst_conv by blast
    obtain f0 where "?source = Some (f0, Applied (state_root demo_digest ?st) # ls0, tp_sent q # later, Some code0)"
      by (rule source_program [OF demo_wal_codec_ok demo_snap_codec_ok refl _ _ _ _ _ _ _ _ att, where f = Map.empty])
        (simp_all add: args)
    moreover have "tp_sent q = frame (demo_msg ?st)"
      using send_sends [OF demo_messages(1), of "from_stream [Read (frame (demo_ack ?st))]" ?st] q
      by (simp add: from_stream_def)
    ultimately show ?thesis using run by auto
  qed
  have reply: "concat [frame (demo_ack ?st)] = last sent" if run: "?sink = Some (g', ls, sent, code)" for g' ls sent code
  proof -
    have se: "se_addr ?se = Some ''a''"
      "se_incoming ?se = [Accept_Failed] @ [Accepted (map Read [frame (demo_msg ?st)]) Written Written None]"
      "list_all (\<lambda>c. offered demo_digest demo_sync_codec c = None) [Accept_Failed]"
      "concat [frame (demo_msg ?st)] = frame (demo_msg ?st)" "[] \<notin> set [frame (demo_msg ?st)]"
      "Map.empty (path_join (na_dir (parse_args ?argv')) ''wal.log'') = None"
      by simp_all
    obtain g0 ls0 outs where "?sink = Some (g0, ls0, outs @ [frame (demo_ack ?st)], Some 0)"
      by (rule sink_program [OF demo_wal_codec_ok demo_snap_codec_ok demo_sync_codec_ok refl args(6) se(6,1-3)
            demo_messages(1) msg demo_messages(2) se(4,5)])
    then show ?thesis using run by simp
  qed
  have "\<exists>f' g' ls sent sent'. ?source =
        Some (f', Applied (state_root demo_digest ?st) # map Connect_Failed [0 ..< 1] @ [Sync_Ok (state_root demo_digest ?st)], sent, Some 0) \<and>
      ?sink = Some (g', ls, sent', Some 0) \<and>
      filter is_sync_ok ls = [Sync_Ok (state_root demo_digest ?st)] \<and>
      restores Checked demo_digest demo_wal_codec demo_snap_codec f' (na_dir (parse_args ?argv)) ?st \<and>
      restores Checked demo_digest demo_wal_codec demo_snap_codec g' (na_dir (parse_args ?argv')) ?st"
    by (rule two_nodes_converge [where k = 1 and refused = "[Accept_Failed]" and chunks = "[frame (demo_msg ?st)]"
          and acks = "[frame (demo_ack ?st)]" and msg = "demo_msg ?st" and ack = "demo_ack ?st"
          and peer = "''p''" and addr = "''a''" and argv = ?argv and argv' = ?argv' and f = Map.empty and g = Map.empty
          and env = ?env and env' = ?env' and se = ?se and se' = "\<lparr>se_addr = None, se_incoming = []\<rparr>" and p = Checked,
          OF demo_wal_codec_ok demo_snap_codec_ok demo_sync_codec_ok refl args(1,2) _ _ _ _ _ _ _ _ refl args(6) _ _ _ _ _
            demo_messages(1) msg demo_messages(2,3) wire _ reply])
      (simp_all add: args)
  then show ?thesis by (auto simp: args)
qed

text \<open>
  C6: Verification instead of trust. Whatever bytes the connections carry, the sink ends with the
  state it had, or with one rebuilt from a received snapshot whose declared root is the root of
  that state; it prints \<open>SYNC-OK\<close> (and exits, with 0) only with the root of the state it holds; and
  if no connection carries a verified snapshot, its files and its state are unchanged and it is
  still listening.
\<close>

theorem sink_accepts_only_verified:
  assumes "sink_loop p D C SC Y f ps conns = Some (f', ps', ls, sent, code)"
  shows "(pst_store ps' = pst_store ps \<or>
      (\<exists>reads w sw fails peer snap. Accepted reads w sw fails \<in> set conns \<and>
         receive_and_verify D Y (from_stream reads) = (peer, Inr snap) \<and>
         pst_store ps' = rebuild_store (sy_entries snap) \<and> state_root D (pst_store ps') = sy_root snap)) \<and>
    (list_all (\<lambda>c. offered D Y c = None) conns \<longrightarrow> f' = f \<and> ps' = ps \<and> code = None) \<and>
    (code = None \<and> filter is_sync_ok ls = [] \<or>
     code = Some 0 \<and> filter is_sync_ok ls = [Sync_Ok (state_root D (pst_store ps'))])"
proof -
  have "\<exists>reads w sw fails peer snap. c = Accepted reads w sw fails \<and>
      receive_and_verify D Y (from_stream reads) = (peer, Inr snap) \<and>
      st = rebuild_store (sy_entries snap) \<and> state_root D st = sy_root snap"
    if "offered D Y c = Some st" for c st
    using that by (cases c)
      (auto simp: verify_snapshot_iff dest!: receive_verified split: prod.splits sum.splits)
  then have "Some (pst_store ps') \<in> offered D Y ` set conns \<Longrightarrow>
      \<exists>reads w sw fails peer snap. Accepted reads w sw fails \<in> set conns \<and>
        receive_and_verify D Y (from_stream reads) = (peer, Inr snap) \<and>
        pst_store ps' = rebuild_store (sy_entries snap) \<and> state_root D (pst_store ps') = sy_root snap"
    by (smt (verit) image_iff)
  then show ?thesis using loop_offered [OF assms] by blast
qed

lemma sink_accepts_only_verified_witness:
  "\<forall>f ps. \<exists>ls sent. sink_loop Checked demo_digest demo_wal_codec demo_snap_codec demo_sync_codec f ps
     [Setup_Failed, Accepted [Read [0, 0, 0, 1], Read [7]] Written Written None] = Some (f, ps, ls, sent, None) \<and>
   filter is_sync_ok ls = []"
proof (intro allI)
  fix f ps
  let ?cs = "[Setup_Failed, Accepted [Read [0, 0, 0, 1], Read [7]] Written Written None]"
  have "frame [7] = [0, 0, 0, 1, 7]" by (simp add: frame_def be_bytes32_def Let_def)
  then obtain peer where "peer_receive (from_stream (map Read [[0, 0, 0, 1], [7]])) = (peer, Inr [7])"
    by (rule_tac peer_receive_frame [of "[[0, 0, 0, 1], [7]]" "[7]" "[]"]) (simp_all add: MAX_FRAME_def)
  moreover have "sy_parse demo_sync_codec [7] = None"
    by (simp add: demo_sync_codec_def of_bytes_def unpack_def)
  ultimately have "receive_and_verify demo_digest demo_sync_codec (from_stream [Read [0, 0, 0, 1], Read [7]]) =
      (peer, Inl (Sy_Root_Mismatch ''unparsebar'' ''-''))"
    by (simp add: receive_and_verify_def)
  then have refused: "list_all (\<lambda>c. offered demo_digest demo_sync_codec c = None) ?cs"
    and loop: "\<exists>f' ps' ls sent code. sink_loop Checked demo_digest demo_wal_codec demo_snap_codec demo_sync_codec f ps ?cs =
      Some (f', ps', ls, sent, code)" by simp_all
  then show "\<exists>ls sent. sink_loop Checked demo_digest demo_wal_codec demo_snap_codec demo_sync_codec f ps ?cs =
      Some (f, ps, ls, sent, None) \<and> filter is_sync_ok ls = []" using sink_accepts_only_verified [of Checked demo_digest demo_wal_codec demo_snap_codec
      demo_sync_codec f ps ?cs] by blast
qed

text \<open>
  C39: The synced state is only in the snapshot file. A sink that reported a sync holds the state of
  the source, but its log only has the marker: if the snapshot file (which is never synced to disk)
  is missing or does not load, the restart succeeds silently with the operations of its own log,
  without anything it was sent.
\<close>

theorem synced_state_needs_snapshot_file:
  assumes "wal_codec_ok C" "snap_codec_ok SC" "sync_codec_ok Y"
    and "wal_at D C f (pst_wal ps) rs" "Suc (length rs) < 2 ^ 64" "pst_hint ps \<noteq> wal_path (pst_wal ps)"
    and "sy_print Y (snapshot_from_store D st h t) = Some msg" "length msg \<le> MAX_FRAME"
    and "sy_print_ack Y \<lparr>ack_root = state_root D st\<rparr> = Some ack"
    and "concat cs = frame msg" "[] \<notin> set cs"
    and "\<And>g. load_snapshot_store D SC (g(pst_hint ps := c)) (pst_hint ps) = Some (Inl e)"
  shows "\<exists>f' ps' g ps''.
    sink_serve p D C SC Y f ps (Accepted (map Read cs) Written Written None) =
      Some (f', ps', [Sync_Ok (state_root D st)], frame ack, True) \<and>
    pst_store ps' = st \<and>
    pst_open p D C SC (f'(pst_hint ps := c)) (pst_hint ps) (wal_path (pst_wal ps)) = Some (g, Inr ps'') \<and>
    pst_store ps'' = apply_all new_store (op_txs (map wr_op rs))"
proof -
  obtain f' ps' where serve:
    "sink_serve p D C SC Y f ps (Accepted (map Read cs) Written Written None) =
       Some (f', ps', [Sync_Ok (state_root D st)], frame ack, True)"
    "pst_store ps' = st" "wal_path (pst_wal ps') = wal_path (pst_wal ps)"
    "wal_at D C f' (pst_wal ps') (rs @ [next_record D C rs (Wal_Checkpoint h t (state_root D st))])"
    "load_snapshot_store D SC f' (pst_hint ps) = Some (Inr st)"
    "last_verified_boundary D SC f' ps' = \<lparr>vb_height = h, vb_tip = t, vb_root = state_root D st\<rparr>"
    by (rule serve_transfer [OF assms(1-11)])
  have "pst_hint ps \<noteq> wal_path (pst_wal ps')" using assms(6) serve(3) by simp
  from reopen_lost [OF assms(1,5) this serve(4) assms(12), of p] show ?thesis
    using serve(1-3) by (auto simp: run_ops_txs)
qed

lemma synced_state_needs_snapshot_file_witness:
  "\<exists>st f ps f' ps' g ps''.
     sink_serve Checked demo_digest demo_wal_codec demo_snap_codec demo_sync_codec f ps
       (Accepted [Read (frame (demo_msg st))] Written Written None) =
       Some (f', ps', [Sync_Ok (state_root demo_digest st)], frame (demo_ack st), True) \<and>
     store_get (pst_store ps') ''a'' = Some ''1'' \<and>
     pst_open Checked demo_digest demo_wal_codec demo_snap_codec (f'(''snap'' := None)) ''snap'' ''wal'' =
       Some (g, Inr ps'') \<and>
     store_get (pst_store ps'') ''a'' = None"
proof -
  let ?st = "apply_tx new_store (Tx_Set ''a'' ''1'')"
  obtain ps where ps: "log_holds demo_digest demo_wal_codec ''wal'' 0 ([''wal'' \<mapsto> []]) ps [] []" "pst_hint ps = ''snap''"
    by (rule fresh_node [of Map.empty "''wal''" Checked demo_digest demo_wal_codec demo_snap_codec "''snap''"]) simp_all
  then have at: "wal_at demo_digest demo_wal_codec [''wal'' \<mapsto> []] (pst_wal ps) []" "wal_path (pst_wal ps) = ''wal''"
    by (simp_all add: log_holds_def)
  have msg: "length (demo_msg ?st) \<le> MAX_FRAME" by (rule demo_messages(4)) simp
  have lost: "load_snapshot_store demo_digest demo_snap_codec (g(''snap'' := None)) ''snap'' = Some (Inl Not_Found)" for g
    by (simp add: load_snapshot_store_def read_to_string_def)
  have "\<exists>f' ps' g ps''.
      sink_serve Checked demo_digest demo_wal_codec demo_snap_codec demo_sync_codec [''wal'' \<mapsto> []] ps
        (Accepted (map Read [frame (demo_msg ?st)]) Written Written None) =
        Some (f', ps', [Sync_Ok (state_root demo_digest ?st)], frame (demo_ack ?st), True) \<and>
      pst_store ps' = ?st \<and>
      pst_open Checked demo_digest demo_wal_codec demo_snap_codec (f'(pst_hint ps := None)) (pst_hint ps)
        (wal_path (pst_wal ps)) = Some (g, Inr ps'') \<and>
      pst_store ps'' = apply_all new_store (op_txs (map wr_op ([] :: wal_record list)))"
    by (rule synced_state_needs_snapshot_file [OF demo_wal_codec_ok demo_snap_codec_ok demo_sync_codec_ok at(1)
          _ _ demo_messages(1) msg demo_messages(2)]) (simp_all add: ps at lost)
  then obtain f' ps' g ps'' where
    "sink_serve Checked demo_digest demo_wal_codec demo_snap_codec demo_sync_codec [''wal'' \<mapsto> []] ps
        (Accepted [Read (frame (demo_msg ?st))] Written Written None) =
        Some (f', ps', [Sync_Ok (state_root demo_digest ?st)], frame (demo_ack ?st), True)"
    "pst_store ps' = ?st"
    "pst_open Checked demo_digest demo_wal_codec demo_snap_codec (f'(''snap'' := None)) ''snap'' ''wal'' =
       Some (g, Inr ps'')" "pst_store ps'' = new_store"
    using ps(2) at(2) by auto
  moreover have "store_get ?st ''a'' = Some ''1''" "store_get new_store ''a'' = None"
    by (simp_all add: store_get_def)
  ultimately show ?thesis by metis
qed

end
