(* ===== verification/Keyring.thy ===== *)
theory Keyring imports Peer_Security BTree_Map begin

text \<open>
  \<open>kai-os/keyring/src/keyring.rs\<close>: named Ed25519 keys. The signature scheme is the parameter \<open>G\<close> of
  \<open>Peer_Security\<close>; a signing key is its seed.
\<close>

section \<open>The code\<close>

datatype key_kind = Node_Identity | Agent_Signing

datatype keyring_error = Unknown_Key string | Key_Revoked string | Duplicate_Key string

record key_entry =
  ke_signing :: keypair
  ke_kind :: key_kind

record keyring =
  kr_keys :: "(string, key_entry) bmap"

definition new_keyring :: keyring where
  "new_keyring = \<lparr>kr_keys = bm_empty\<rparr>"

definition import_seed ::
  "sig_scheme \<Rightarrow> keyring \<Rightarrow> string \<Rightarrow> key_kind \<Rightarrow> bytes \<Rightarrow> keyring \<times> (keyring_error + bytes)" where
  "import_seed G r i kind seed =
     (if bm_contains (kr_keys r) i then (r, Inl (Duplicate_Key i))
      else
        let signing = \<lparr>kp_seed = seed\<rparr>; public = public_bytes G signing
        in (r\<lparr>kr_keys := bm_insert i \<lparr>ke_signing = signing, ke_kind = kind\<rparr> (kr_keys r)\<rparr>, Inr public))"

definition kr_list :: "sig_scheme \<Rightarrow> keyring \<Rightarrow> (string \<times> bytes \<times> key_kind) list" where
  "kr_list G r = map (\<lambda>(i, e). (i, public_bytes G (ke_signing e), ke_kind e)) (bm_entries (kr_keys r))"

definition public_key :: "sig_scheme \<Rightarrow> keyring \<Rightarrow> string \<Rightarrow> keyring_error + bytes" where
  "public_key G r i =
     (case bm_get (kr_keys r) i of
        Some e \<Rightarrow> Inr (public_bytes G (ke_signing e))
      | None \<Rightarrow> Inl (Unknown_Key i))"

definition kr_sign :: "sig_scheme \<Rightarrow> keyring \<Rightarrow> string \<Rightarrow> bytes \<Rightarrow> keyring_error + bytes" where
  "kr_sign G r i msg =
     (case bm_get (kr_keys r) i of
        Some e \<Rightarrow> Inr (kp_sign G (ke_signing e) msg)
      | None \<Rightarrow> Inl (Unknown_Key i))"

definition revoke :: "keyring \<Rightarrow> string \<Rightarrow> keyring \<times> (keyring_error + unit)" where
  "revoke r i =
     (r\<lparr>kr_keys := bm_remove i (kr_keys r)\<rparr>,
      case bm_get (kr_keys r) i of Some _ \<Rightarrow> Inr () | None \<Rightarrow> Inl (Unknown_Key i))"

definition rotate_key :: "sig_scheme \<Rightarrow> keyring \<Rightarrow> string \<Rightarrow> bytes \<Rightarrow> keyring \<times> (keyring_error + bytes)" where
  "rotate_key G r i new_seed =
     (case bm_get (kr_keys r) i of
        None \<Rightarrow> (r, Inl (Unknown_Key i))
      | Some e \<Rightarrow>
          let kind = ke_kind e;
              removed = bm_remove i (kr_keys r);
              signing = \<lparr>kp_seed = new_seed\<rparr>;
              public = public_bytes G signing
          in (r\<lparr>kr_keys := bm_insert i \<lparr>ke_signing = signing, ke_kind = kind\<rparr> removed\<rparr>, Inr public))"

definition kr_verify :: "sig_scheme \<Rightarrow> bytes \<Rightarrow> bytes \<Rightarrow> bytes \<Rightarrow> bool" where
  "kr_verify G public msg sig = sg_verify G public msg sig"

section \<open>Runs\<close>

datatype key_op = Import string key_kind bytes | Revoke string | Rotate string bytes

fun kr_step :: "sig_scheme \<Rightarrow> keyring \<Rightarrow> key_op \<Rightarrow> keyring" where
  "kr_step G r (Import i kind seed) = fst (import_seed G r i kind seed)"
| "kr_step G r (Revoke i) = fst (revoke r i)"
| "kr_step G r (Rotate i seed) = fst (rotate_key G r i seed)"

definition kr_run :: "sig_scheme \<Rightarrow> key_op list \<Rightarrow> keyring" where
  "kr_run G ops = foldl (kr_step G) new_keyring ops"

fun seed_ok :: "key_op \<Rightarrow> bool" where
  "seed_ok (Import i kind seed) = (length seed = 32)"
| "seed_ok (Rotate i seed) = (length seed = 32)"
| "seed_ok (Revoke i) = True"

text \<open>What became of a key id: the key and kind in force after the operations.\<close>

fun in_force :: "string \<Rightarrow> (bytes \<times> key_kind) option \<Rightarrow> key_op \<Rightarrow> (bytes \<times> key_kind) option" where
  "in_force i cur (Import j kind seed) = (if j = i \<and> cur = None then Some (seed, kind) else cur)"
| "in_force i cur (Revoke j) = (if j = i then None else cur)"
| "in_force i cur (Rotate j seed) = (if j = i then map_option (\<lambda>(_, kind). (seed, kind)) cur else cur)"

definition key_view :: "keyring \<Rightarrow> string \<Rightarrow> (bytes \<times> key_kind) option" where
  "key_view r i = map_option (\<lambda>e. (kp_seed (ke_signing e), ke_kind e)) (bm_get (kr_keys r) i)"

lemma key_view_step: "key_view (kr_step G r op) i = in_force i (key_view r i) op"
  by (cases op) (auto simp: key_view_def import_seed_def revoke_def rotate_key_def bm_contains_def Let_def
      split: option.split)

lemma key_view_run: "key_view (kr_run G ops) i = foldl (in_force i) None ops"
proof (induction ops rule: rev_induct)
  case (snoc op ops)
  then show ?case by (simp add: kr_run_def key_view_step)
qed (simp add: kr_run_def new_keyring_def key_view_def)

lemma in_force_seed:
  "list_all seed_ok ops \<Longrightarrow> foldl (in_force i) None ops = Some (seed, kind) \<Longrightarrow> length seed = 32"
proof (induction ops arbitrary: seed kind rule: rev_induct)
  case (snoc op ops)
  then show ?case by (cases op) (auto split: if_splits)
qed simp

lemma key_results:
  "kr_sign G r i msg =
     (case key_view r i of None \<Rightarrow> Inl (Unknown_Key i) | Some (seed, kind) \<Rightarrow> Inr (kp_sign G \<lparr>kp_seed = seed\<rparr> msg))"
  "public_key G r i =
     (case key_view r i of None \<Rightarrow> Inl (Unknown_Key i) | Some (seed, kind) \<Rightarrow> Inr (public_bytes G \<lparr>kp_seed = seed\<rparr>))"
  "(i, public, kind) \<in> set (kr_list G r) \<longleftrightarrow>
     (\<exists>seed. key_view r i = Some (seed, kind) \<and> public = public_bytes G \<lparr>kp_seed = seed\<rparr>)"
proof -
  show "(i, public, kind) \<in> set (kr_list G r) \<longleftrightarrow>
      (\<exists>seed. key_view r i = Some (seed, kind) \<and> public = public_bytes G \<lparr>kp_seed = seed\<rparr>)"
    unfolding kr_list_def key_view_def by (force simp: bm_get_iff public_bytes_def)
qed (simp_all add: kr_sign_def public_key_def key_view_def public_bytes_def kp_sign_def split: option.split)

section \<open>Property\<close>

text \<open>
  C38: The key in force. After any imports, revocations and rotations a key id signs exactly when a
  key is in force for it: imported and not revoked since, rotation replacing the seed but not the
  kind. The signature then verifies under the public key that the ring reports and lists for the id;
  otherwise signing, reporting and listing all fail closed. The list is sorted by id.
\<close>

theorem keyring_signs_key_in_force:
  assumes "sg_ok G" "list_all seed_ok ops"
  shows "let r = kr_run G ops in
    sorted_wrt (<) (map fst (kr_list G r)) \<and>
    (case foldl (in_force i) None ops of
       None \<Rightarrow>
         kr_sign G r i msg = Inl (Unknown_Key i) \<and> public_key G r i = Inl (Unknown_Key i) \<and>
         i \<notin> set (map fst (kr_list G r))
     | Some (seed, kind) \<Rightarrow>
         \<exists>sig public. kr_sign G r i msg = Inr sig \<and> public_key G r i = Inr public \<and>
           (i, public, kind) \<in> set (kr_list G r) \<and> public = public_bytes G \<lparr>kp_seed = seed\<rparr> \<and>
           length public = 32 \<and> length sig = 64 \<and> kr_verify G public msg sig)"
proof -
  let ?r = "kr_run G ops"
  have sorted: "sorted_wrt (<) (map fst (kr_list G ?r))"
    using ascending_bm_keys [of "kr_keys ?r"] by (simp add: kr_list_def bm_keys_def comp_def case_prod_beta)
  have "i \<in> set (map fst (kr_list G ?r)) \<longleftrightarrow> (\<exists>public kind. (i, public, kind) \<in> set (kr_list G ?r))"
    by force
  then have listed: "i \<in> set (map fst (kr_list G ?r)) \<longleftrightarrow> key_view ?r i \<noteq> None"
    by (auto simp: key_results(3))
  show ?thesis
  proof (cases "foldl (in_force i) None ops")
    case None
    then show ?thesis using sorted listed key_view_run [of G ops i] by (simp add: Let_def key_results)
  next
    case (Some x)
    obtain seed kind where x: "x = (seed, kind)" by (cases x)
    have "length seed = 32" using in_force_seed assms(2) Some x by simp
    then show ?thesis using sorted Some x key_view_run [of G ops i] assms(1)
      by (auto simp: Let_def key_results sg_ok_def kp_sign_def public_bytes_def kr_verify_def)
  qed
qed

lemma keyring_signs_key_in_force_witness:
  "let r = kr_run demo_sig [Import ''n'' Node_Identity (replicate 32 1), Rotate ''n'' (replicate 32 2),
       Import ''a'' Agent_Signing (replicate 32 3), Revoke ''a''] in
   kr_sign demo_sig r ''a'' [] = Inl (Unknown_Key ''a'') \<and>
   public_key demo_sig r ''n'' = Inr (public_bytes demo_sig \<lparr>kp_seed = replicate 32 2\<rparr>)"
proof -
  have "list_all seed_ok [Import ''n'' Node_Identity (replicate 32 1), Rotate ''n'' (replicate 32 2),
      Import ''a'' Agent_Signing (replicate 32 3), Revoke ''a'']" by simp
  note t = keyring_signs_key_in_force [OF demo_sig_ok this]
  show ?thesis using t [of "''a''" "[]"] t [of "''n''" "[]"] by (auto simp: Let_def)
qed

end
