(* ===== verification/Ai_Audit.thy ===== *)
theory Ai_Audit imports Hash_Chain begin

text \<open>
  \<open>kai-os/ai/src/audit.rs\<close>: the audit pipeline of the AI runtime, a hash chain in memory.
\<close>

definition AP_GENESIS :: string where
  "AP_GENESIS = replicate 64 CHR ''0''"

record ap_event =
  ap_seq :: u64
  ap_actor :: string
  ap_kind :: string
  ap_payload :: string
  ap_prev :: string
  ap_hash :: string

record audit_pipeline =
  ap_events :: "ap_event list"

definition new_pipeline :: audit_pipeline where
  "new_pipeline = \<lparr>ap_events = []\<rparr>"

definition ap_text :: "ap_event \<Rightarrow> string" where
  "ap_text e =
     show_word (ap_seq e) @ ''|'' @ ap_actor e @ ''|'' @ ap_kind e @ ''|'' @ ap_payload e @ ''|'' @ ap_prev e"

text \<open>A vector never holds \<open>2 ^ 64 - 1\<close> events, so the number cannot overflow.\<close>

definition ap_record ::
  "digest \<Rightarrow> audit_pipeline \<Rightarrow> string \<Rightarrow> string \<Rightarrow> string \<Rightarrow> audit_pipeline \<times> u64" where
  "ap_record D l actor kind payload =
     (let seq = of_nat (length (ap_events l)) + 1;
          prev = (if ap_events l = [] then AP_GENESIS else ap_hash (last (ap_events l)));
          h = sha_str D (show_word seq @ ''|'' @ actor @ ''|'' @ kind @ ''|'' @ payload @ ''|'' @ prev)
      in (l\<lparr>ap_events := ap_events l @
             [\<lparr>ap_seq = seq, ap_actor = actor, ap_kind = kind, ap_payload = payload, ap_prev = prev, ap_hash = h\<rparr>]\<rparr>,
          seq))"

fun ap_verify_loop :: "digest \<Rightarrow> nat \<Rightarrow> string \<Rightarrow> ap_event list \<Rightarrow> bool" where
  "ap_verify_loop D i prev [] = True"
| "ap_verify_loop D i prev (e # es) =
     (if ap_seq e \<noteq> of_nat i + 1 \<or> ap_prev e \<noteq> prev then False
      else if ap_hash e \<noteq> sha_str D (ap_text e) then False
      else ap_verify_loop D (i + 1) (ap_hash e) es)"

definition ap_verify :: "digest \<Rightarrow> audit_pipeline \<Rightarrow> bool" where
  "ap_verify D l = ap_verify_loop D 0 AP_GENESIS (ap_events l)"

definition by_kind :: "audit_pipeline \<Rightarrow> string \<Rightarrow> ap_event list" where
  "by_kind l kind = filter (\<lambda>e. ap_kind e = kind) (ap_events l)"

definition by_actor :: "audit_pipeline \<Rightarrow> string \<Rightarrow> ap_event list" where
  "by_actor l actor = filter (\<lambda>e. ap_actor e = actor) (ap_events l)"

section \<open>Lemmas\<close>

lemma ap_verify_loop_iff:
  "ap_verify_loop D i prev es \<longleftrightarrow>
     chain_from ap_seq ap_prev ap_hash i prev es \<and> (\<forall>e \<in> set es. ap_hash e = sha_str D (ap_text e))"
  by (induction es arbitrary: i prev) (auto simp: add.commute)

interpretation pipeline_chain: hash_chain ap_seq ap_prev ap_hash ap_text
proof
  fix e e' :: ap_event
  assume t: "ap_text e = ap_text e'"
  then have "show_word (ap_seq e) = show_word (ap_seq e')"
    unfolding ap_text_def by (metis append_Cons append_Nil bar_split bar_notin_show_word)
  then show "ap_seq e = ap_seq e'" by simp
  assume len: "length (ap_prev e) = 64" "length (ap_prev e') = 64"
  define X where "X x = show_word (ap_seq x) @ ''|'' @ ap_actor x @ ''|'' @ ap_kind x @ ''|'' @ ap_payload x @ ''|''"
    for x :: ap_event
  have "ap_text x = X x @ ap_prev x" for x by (simp add: ap_text_def X_def)
  with t have "X e @ ap_prev e = X e' @ ap_prev e'" by simp
  then show "ap_prev e = ap_prev e'" using len by (simp add: append_eq_append_conv)
qed

lemma ap_verify_new: "ap_verify D new_pipeline"
  by (simp add: ap_verify_def new_pipeline_def)

lemma ap_verify_record: "ap_verify D l \<Longrightarrow> ap_verify D (fst (ap_record D l actor kind payload))"
  by (auto simp: ap_verify_def ap_verify_loop_iff ap_record_def Let_def chain_tip_def ap_text_def add.commute)

text \<open>What a recorded event says, apart from its place in the chain.\<close>

definition ap_said :: "audit_pipeline \<Rightarrow> (string \<times> string \<times> string) list" where
  "ap_said l = map (\<lambda>e. (ap_actor e, ap_kind e, ap_payload e)) (ap_events l)"

lemma ap_said_simps [simp]:
  "ap_said new_pipeline = []"
  "ap_said (fst (ap_record D l actor kind payload)) = ap_said l @ [(actor, kind, payload)]"
  by (simp_all add: ap_said_def new_pipeline_def ap_record_def Let_def)

lemma ap_record_number: "snd (ap_record D l actor kind payload) = of_nat (Suc (length (ap_said l)))"
  by (simp add: ap_record_def ap_said_def Let_def add.commute)

end
