(* ===== verification/Ipc.thy ===== *)
theory Ipc imports Ai_Audit Replay_Guard begin

text \<open>
  \<open>kai-os/ai/src/ipc.rs\<close>: the gateway through which agents talk to the system. JSON values (crate
  \<open>serde_json\<close>) are a parameter: a type with the two operations the gateway uses.
\<close>

record 'j json_ops =
  js_has :: "'j \<Rightarrow> string \<Rightarrow> bool"
  js_print :: "'j \<Rightarrow> string option"

section \<open>The code\<close>

definition SCHEMAS :: "(string \<times> string list) list" where
  "SCHEMAS =
     [(''propose_tx'', [''action'', ''params'']),
      (''propose_decision'', [''topic'', ''recommendation'']),
      (''query_state'', [''key'']),
      (''register_model'', [''model_id'', ''version''])]"

record 'j ipc_message =
  im_from :: string
  im_type :: string
  im_seq :: u64
  im_payload :: 'j

datatype ipc_error =
    Unknown_Agent string
  | Capability_Denied string string
  | Ipc_Replay u64 u64
  | Schema_Violation string string

record delivery_receipt =
  dr_seq :: u64
  dr_audit_seq :: u64

record ipc_gateway =
  ig_capabilities :: "string \<rightharpoonup> string list"
  ig_last_seq :: "string \<rightharpoonup> u64"
  ig_audit :: audit_pipeline

definition new_gateway :: ipc_gateway where
  "new_gateway = \<lparr>ig_capabilities = Map.empty, ig_last_seq = Map.empty, ig_audit = new_pipeline\<rparr>"

definition gateway_name :: string where
  "gateway_name = ''ipc-gateway''"

definition register_agent :: "digest \<Rightarrow> ipc_gateway \<Rightarrow> string \<Rightarrow> string list \<Rightarrow> ipc_gateway" where
  "register_agent D g agent types =
     g\<lparr>ig_capabilities := (ig_capabilities g)(agent \<mapsto> types),
       ig_audit := fst (ap_record D (ig_audit g) gateway_name ''agent_registered'' agent)\<rparr>"

text \<open>The first missing field of the first schema of the type.\<close>

definition check_schema :: "'j json_ops \<Rightarrow> 'j ipc_message \<Rightarrow> ipc_error + unit" where
  "check_schema J m =
     (case find (\<lambda>s. fst s = im_type m) SCHEMAS of
        None \<Rightarrow> Inr ()
      | Some (_, required) \<Rightarrow>
          (case find (\<lambda>field. \<not> js_has J (im_payload m) field) required of
             None \<Rightarrow> Inr ()
           | Some field \<Rightarrow> Inl (Schema_Violation (im_type m) field)))"

definition last_seq_of :: "ipc_gateway \<Rightarrow> string \<Rightarrow> u64" where
  "last_seq_of g agent = (case ig_last_seq g agent of None \<Rightarrow> 0 | Some n \<Rightarrow> n)"

definition note_event :: "digest \<Rightarrow> ipc_gateway \<Rightarrow> string \<Rightarrow> string \<Rightarrow> string \<Rightarrow> ipc_gateway" where
  "note_event D g actor kind payload = g\<lparr>ig_audit := fst (ap_record D (ig_audit g) actor kind payload)\<rparr>"

definition ipc_deliver ::
  "digest \<Rightarrow> 'j json_ops \<Rightarrow> ipc_gateway \<Rightarrow> 'j ipc_message \<Rightarrow> ipc_gateway \<times> (ipc_error + delivery_receipt)" where
  "ipc_deliver D J g m =
     (case ig_capabilities g (im_from m) of
        None \<Rightarrow> (note_event D g gateway_name ''rejected_unknown_agent'' (im_from m), Inl (Unknown_Agent (im_from m)))
      | Some caps \<Rightarrow>
          if im_type m \<notin> set caps
          then (note_event D g gateway_name ''rejected_capability'' (im_from m @ ''|'' @ im_type m),
                Inl (Capability_Denied (im_from m) (im_type m)))
          else
            let last = last_seq_of g (im_from m) in
            if im_seq m \<le> last
            then (note_event D g gateway_name ''rejected_replay'' (im_from m @ ''|'' @ show_word (im_seq m)),
                  Inl (Ipc_Replay (im_seq m) last))
            else
              (case check_schema J m of
                 Inl e \<Rightarrow> (note_event D g gateway_name ''rejected_schema'' (im_from m @ ''|'' @ im_type m), Inl e)
               | Inr _ \<Rightarrow>
                   let g1 = g\<lparr>ig_last_seq := (ig_last_seq g)(im_from m \<mapsto> im_seq m)\<rparr>;
                       payload = (case js_print J (im_payload m) of None \<Rightarrow> [] | Some s \<Rightarrow> s)
                   in (note_event D g1 (im_from m) (im_type m) payload,
                       Inr \<lparr>dr_seq = im_seq m,
                             dr_audit_seq = snd (ap_record D (ig_audit g1) (im_from m) (im_type m) payload)\<rparr>)))"

section \<open>Lemmas\<close>

text \<open>The numbers are per agent: an instance of the replay guard with the agent as the channel.\<close>

interpretation ipc: replay_guard "ipc_deliver D J" im_from im_seq last_seq_of for D and J :: "'j json_ops"
proof unfold_locales
  fix g g' :: ipc_gateway and m :: "'j ipc_message" and v e
  show "ipc_deliver D J g m = (g', Inr v) \<Longrightarrow>
      last_seq_of g (im_from m) < im_seq m \<and> last_seq_of g' = (last_seq_of g)(im_from m := im_seq m)"
    by (auto simp: ipc_deliver_def Let_def note_event_def last_seq_of_def [abs_def] fun_eq_iff word_gt_0
        split: option.splits sum.splits if_splits)
  show "ipc_deliver D J g m = (g', Inl e) \<Longrightarrow> last_seq_of g' = last_seq_of g"
    by (auto simp: ipc_deliver_def Let_def note_event_def last_seq_of_def [abs_def]
        split: option.splits sum.splits if_splits)
qed

definition required_fields :: "string \<Rightarrow> string list" where
  "required_fields t = (case find (\<lambda>s. fst s = t) SCHEMAS of None \<Rightarrow> [] | Some s \<Rightarrow> snd s)"

lemma check_schema_ok: "check_schema J m = Inr () \<longleftrightarrow> list_all (js_has J (im_payload m)) (required_fields (im_type m))"
proof (cases "find (\<lambda>s. fst s = im_type m) SCHEMAS")
  case (Some s)
  show ?thesis
  proof (cases "find (\<lambda>field. \<not> js_has J (im_payload m) field) (snd s)")
    case None
    then have "\<forall>x \<in> set (snd s). js_has J (im_payload m) x" by (auto simp: find_None_iff)
    then show ?thesis using Some None
      by (simp add: check_schema_def required_fields_def list_all_iff case_prod_beta)
  next
    case f: (Some x)
    then have "x \<in> set (snd s)" "\<not> js_has J (im_payload m) x" by (auto simp: find_Some_iff)
    then show ?thesis using Some f
      by (auto simp: check_schema_def required_fields_def list_all_iff case_prod_beta)
  qed
qed (simp add: check_schema_def required_fields_def)

lemma deliver_caps: "ig_capabilities (fst (ipc_deliver D J g m)) = ig_capabilities g"
  by (auto simp: ipc_deliver_def Let_def note_event_def split: option.split sum.split)

lemma deliver_audit:
  "\<exists>actor kind payload. ig_audit (fst (ipc_deliver D J g m)) = fst (ap_record D (ig_audit g) actor kind payload) \<and>
     (is_ok (snd (ipc_deliver D J g m)) \<longrightarrow> (actor, kind) = (im_from m, im_type m))"
  by (auto simp: ipc_deliver_def Let_def note_event_def split: option.split sum.split)

lemma deliver_ok:
  "ipc_deliver D J g m = (g', Inr v) \<Longrightarrow>
   (case ig_capabilities g (im_from m) of None \<Rightarrow> False | Some ts \<Rightarrow> im_type m \<in> set ts) \<and>
   list_all (js_has J (im_payload m)) (required_fields (im_type m))"
  by (auto simp: ipc_deliver_def Let_def check_schema_ok [symmetric] split: option.splits sum.splits if_splits)

lemma final_audit:
  "ap_verify D (ig_audit g) \<Longrightarrow>
   ap_verify D (ig_audit (final (ipc_deliver D J) g ms)) \<and>
   length (ap_said (ig_audit (final (ipc_deliver D J) g ms))) = length (ap_said (ig_audit g)) + length ms"
proof (induction ms arbitrary: g)
  case (Cons m ms)
  obtain actor kind payload where "ig_audit (fst (ipc_deliver D J g m)) = fst (ap_record D (ig_audit g) actor kind payload)"
    using deliver_audit [of D J g m] by blast
  then show ?case
    using Cons.IH [of "fst (ipc_deliver D J g m)"] ap_verify_record [OF Cons.prems] by simp
qed simp

definition gateway_of :: "digest \<Rightarrow> (string \<times> string list) list \<Rightarrow> ipc_gateway" where
  "gateway_of D agents = foldl (\<lambda>g (a, ts). register_agent D g a ts) new_gateway agents"

lemma gateway_of_audit:
  "ap_verify D (ig_audit (gateway_of D agents)) \<and> length (ap_said (ig_audit (gateway_of D agents))) = length agents"
proof (induction agents rule: rev_induct)
  case (snoc x xs)
  then show ?case
    by (auto simp: gateway_of_def register_agent_def case_prod_beta intro: ap_verify_record)
qed (simp add: gateway_of_def new_gateway_def ap_verify_new)

section \<open>Property\<close>

text \<open>
  C36: The gateway denies by default and is audited. Whatever agents were registered and whatever
  messages arrive: each delivered message comes from a registered agent that may send its type and
  has all the fields of its schema; the numbers of each agent's delivered messages strictly
  increase; a delivered message is refused ever after. Every message, delivered or not, leaves
  exactly one event, and the audit chain always verifies.
\<close>

theorem ipc_gateway_guards:
  "let g = gateway_of D agents; g' = final (ipc_deliver D J) g ms; acc = accepted (ipc_deliver D J) g ms in
   list_all (\<lambda>m.
     (case ig_capabilities g (im_from m) of None \<Rightarrow> False | Some ts \<Rightarrow> im_type m \<in> set ts) \<and>
     list_all (js_has J (im_payload m)) (required_fields (im_type m)) \<and>
     \<not> is_ok (snd (ipc_deliver D J g' m))) acc \<and>
   sorted_wrt (<) (map im_seq (filter (\<lambda>m. im_from m = agent) acc)) \<and>
   ap_verify D (ig_audit g') \<and>
   length (ap_events (ig_audit g')) = length agents + length ms"
proof -
  let ?g = "gateway_of D agents" and ?acc = "accepted (ipc_deliver D J) (gateway_of D agents) ms"
  have "(case ig_capabilities ?g (im_from m) of None \<Rightarrow> False | Some ts \<Rightarrow> im_type m \<in> set ts) \<and>
      list_all (js_has J (im_payload m)) (required_fields (im_type m))" if "m \<in> set ?acc" for m
    using that
  proof (rule accepted_invariant [where P = "\<lambda>g. ig_capabilities g = ig_capabilities ?g", rotated 3])
    fix g m g' v assume "ig_capabilities g = ig_capabilities ?g" "ipc_deliver D J g m = (g', Inr v)"
    then show "(case ig_capabilities ?g (im_from m) of None \<Rightarrow> False | Some ts \<Rightarrow> im_type m \<in> set ts) \<and>
        list_all (js_has J (im_payload m)) (required_fields (im_type m))"
      using deliver_ok [of D J g m g' v] by simp
  qed (simp_all add: deliver_caps)
  moreover have "length (ap_events l) = length (ap_said l)" for l by (simp add: ap_said_def)
  ultimately show ?thesis
    using ipc.increasing [of agent D J ?g ms] ipc.replay_refused [of _ D J ?g ms] gateway_of_audit [of D agents]
      final_audit [of D ?g J ms]
    by (simp add: Let_def list_all_iff)
qed

end
