(* ===== verification/Proposals.thy ===== *)
theory Proposals imports Ipc BTree_Map begin

text \<open>
  \<open>kai-os/ai/src/proposal.rs\<close>: proposals of the AI, which are only registered and handed over, with
  their life cycle and its audit trail.
\<close>

section \<open>The code\<close>

datatype proposal_state = Proposed | Specified | Handed_To_VM

record 'j proposal =
  pp_id :: string
  pp_agent :: string
  pp_kind :: string
  pp_payload :: 'j
  pp_state :: proposal_state

datatype proposal_error = Unknown_Proposal string | Invalid_Transition proposal_state proposal_state

record 'j proposal_registry =
  ps_proposals :: "(string, 'j proposal) bmap"
  ps_audit :: audit_pipeline

definition new_proposals :: "'j proposal_registry" where
  "new_proposals = \<lparr>ps_proposals = bm_empty, ps_audit = new_pipeline\<rparr>"

definition proposal_id :: "digest \<Rightarrow> 'j json_ops \<Rightarrow> string \<Rightarrow> string \<Rightarrow> 'j \<Rightarrow> string" where
  "proposal_id D J agent kind payload =
     sha_str D (agent @ ''|'' @ kind @ ''|'' @ (case js_print J payload of None \<Rightarrow> [] | Some s \<Rightarrow> s))"

definition submit ::
  "digest \<Rightarrow> 'j json_ops \<Rightarrow> 'j proposal_registry \<Rightarrow> string \<Rightarrow> string \<Rightarrow> 'j \<Rightarrow> 'j proposal_registry \<times> string" where
  "submit D J r agent kind payload =
     (let i = proposal_id D J agent kind payload in
      (if \<not> bm_contains (ps_proposals r) i
       then r\<lparr>ps_proposals := bm_insert i
                \<lparr>pp_id = i, pp_agent = agent, pp_kind = kind, pp_payload = payload, pp_state = Proposed\<rparr>
                (ps_proposals r),
              ps_audit := fst (ap_record D (ps_audit r) agent ''proposal_submitted'' i)\<rparr>
       else r, i))"

definition pp_get :: "'j proposal_registry \<Rightarrow> string \<Rightarrow> 'j proposal option" where
  "pp_get r i = bm_get (ps_proposals r) i"

definition pp_all :: "'j proposal_registry \<Rightarrow> 'j proposal list" where
  "pp_all r = bm_values (ps_proposals r)"

definition registry_name :: string where
  "registry_name = ''proposal-registry''"

definition mark_specified ::
  "digest \<Rightarrow> 'j proposal_registry \<Rightarrow> string \<Rightarrow> 'j proposal_registry \<times> (proposal_error + unit)" where
  "mark_specified D r i =
     (case bm_get (ps_proposals r) i of
        None \<Rightarrow> (r, Inl (Unknown_Proposal i))
      | Some p \<Rightarrow>
          if pp_state p \<noteq> Proposed then (r, Inl (Invalid_Transition (pp_state p) Specified))
          else (r\<lparr>ps_proposals := bm_insert i (p\<lparr>pp_state := Specified\<rparr>) (ps_proposals r),
                  ps_audit := fst (ap_record D (ps_audit r) registry_name ''proposal_specified'' i)\<rparr>, Inr ()))"

definition mark_handed_to_vm ::
  "digest \<Rightarrow> 'j proposal_registry \<Rightarrow> string \<Rightarrow> 'j proposal_registry \<times> (proposal_error + unit)" where
  "mark_handed_to_vm D r i =
     (case bm_get (ps_proposals r) i of
        None \<Rightarrow> (r, Inl (Unknown_Proposal i))
      | Some p \<Rightarrow>
          if pp_state p \<noteq> Specified then (r, Inl (Invalid_Transition (pp_state p) Handed_To_VM))
          else (r\<lparr>ps_proposals := bm_insert i (p\<lparr>pp_state := Handed_To_VM\<rparr>) (ps_proposals r),
                  ps_audit := fst (ap_record D (ps_audit r) registry_name ''proposal_handed_to_vm'' i)\<rparr>, Inr ()))"

section \<open>Steps and the invariant\<close>

datatype 'j proposal_op = Op_Submit string string 'j | Op_Specify string | Op_Hand string

fun pp_step :: "digest \<Rightarrow> 'j json_ops \<Rightarrow> 'j proposal_registry \<Rightarrow> 'j proposal_op \<Rightarrow> 'j proposal_registry" where
  "pp_step D J r (Op_Submit a k p) = fst (submit D J r a k p)"
| "pp_step D J r (Op_Specify i) = fst (mark_specified D r i)"
| "pp_step D J r (Op_Hand i) = fst (mark_handed_to_vm D r i)"

definition pp_run :: "digest \<Rightarrow> 'j json_ops \<Rightarrow> 'j proposal_registry \<Rightarrow> 'j proposal_op list \<Rightarrow> 'j proposal_registry" where
  "pp_run D J r ops = foldl (pp_step D J) r ops"

definition trail :: "'j proposal_registry \<Rightarrow> string \<Rightarrow> string list" where
  "trail r i = map (\<lambda>x. fst (snd x)) (filter (\<lambda>x. snd (snd x) = i) (ap_said (ps_audit r)))"

fun stages :: "proposal_state option \<Rightarrow> string list" where
  "stages None = []"
| "stages (Some Proposed) = [''proposal_submitted'']"
| "stages (Some Specified) = [''proposal_submitted'', ''proposal_specified'']"
| "stages (Some Handed_To_VM) = [''proposal_submitted'', ''proposal_specified'', ''proposal_handed_to_vm'']"

definition state_of :: "'j proposal_registry \<Rightarrow> string \<Rightarrow> proposal_state option" where
  "state_of r i = map_option pp_state (pp_get r i)"

definition registry_ok :: "digest \<Rightarrow> 'j json_ops \<Rightarrow> 'j proposal_registry \<Rightarrow> bool" where
  "registry_ok D J r \<longleftrightarrow>
     ap_verify D (ps_audit r) \<and> (\<forall>i. trail r i = stages (state_of r i)) \<and>
     (\<forall>i p. pp_get r i = Some p \<longrightarrow> pp_id p = i \<and> i = proposal_id D J (pp_agent p) (pp_kind p) (pp_payload p))"

lemma registry_ok_new: "registry_ok D J new_proposals"
  by (simp add: registry_ok_def new_proposals_def ap_verify_new trail_def state_of_def pp_get_def)

lemma trail_record:
  "trail (r\<lparr>ps_proposals := m, ps_audit := fst (ap_record D (ps_audit r) a k i)\<rparr>) j =
     (if j = i then trail r i @ [k] else trail r j)"
  by (simp add: trail_def)

text \<open>All three operations that change something add a stage and its event.\<close>

lemma stage_step:
  assumes "registry_ok D J r" "stages (Some (pp_state p)) = stages (state_of r i) @ [k]"
    and "pp_id p = i" "i = proposal_id D J (pp_agent p) (pp_kind p) (pp_payload p)"
  shows "registry_ok D J
    (r\<lparr>ps_proposals := bm_insert i p (ps_proposals r), ps_audit := fst (ap_record D (ps_audit r) a k i)\<rparr>)"
  using assms
  by (auto simp: registry_ok_def trail_record state_of_def pp_get_def intro: ap_verify_record)

lemma registry_ok_step: "registry_ok D J r \<Longrightarrow> registry_ok D J (pp_step D J r op)"
proof (cases op)
  case (Op_Submit a k p)
  assume "registry_ok D J r"
  then show ?thesis using Op_Submit
    by (auto simp: submit_def Let_def bm_contains_def state_of_def pp_get_def intro!: stage_step)
next
  case (Op_Specify i)
  assume ok: "registry_ok D J r"
  then show ?thesis
  proof (cases "bm_get (ps_proposals r) i")
    case (Some p)
    then have "pp_id p = i" "i = proposal_id D J (pp_agent p) (pp_kind p) (pp_payload p)"
      using ok by (simp_all add: registry_ok_def pp_get_def)
    then show ?thesis using Some Op_Specify ok
      by (auto simp: mark_specified_def state_of_def pp_get_def intro!: stage_step)
  qed (simp add: Op_Specify mark_specified_def)
next
  case (Op_Hand i)
  assume ok: "registry_ok D J r"
  then show ?thesis
  proof (cases "bm_get (ps_proposals r) i")
    case (Some p)
    then have "pp_id p = i" "i = proposal_id D J (pp_agent p) (pp_kind p) (pp_payload p)"
      using ok by (simp_all add: registry_ok_def pp_get_def)
    then show ?thesis using Some Op_Hand ok
      by (auto simp: mark_handed_to_vm_def state_of_def pp_get_def intro!: stage_step)
  qed (simp add: Op_Hand mark_handed_to_vm_def)
qed

lemma registry_ok_run: "registry_ok D J r \<Longrightarrow> registry_ok D J (pp_run D J r ops)"
  unfolding pp_run_def by (induction ops arbitrary: r) (auto intro: registry_ok_step)

text \<open>A stage is never taken back.\<close>

lemma stages_grow_step: "\<exists>more. stages (state_of (pp_step D J r op) i) = stages (state_of r i) @ more"
proof (cases op)
  case (Op_Submit a k p)
  then show ?thesis
    by (auto simp: submit_def Let_def state_of_def pp_get_def bm_contains_def)
next
  case (Op_Specify j)
  then show ?thesis
    by (cases "bm_get (ps_proposals r) j") (auto simp: mark_specified_def state_of_def pp_get_def)
next
  case (Op_Hand j)
  then show ?thesis
    by (cases "bm_get (ps_proposals r) j") (auto simp: mark_handed_to_vm_def state_of_def pp_get_def)
qed

lemma stages_grow: "\<exists>more. stages (state_of (pp_run D J r ops) i) = stages (state_of r i) @ more"
proof (induction ops arbitrary: r)
  case (Cons op ops)
  obtain m1 where "stages (state_of (pp_step D J r op) i) = stages (state_of r i) @ m1"
    using stages_grow_step by blast
  moreover obtain m2 where "stages (state_of (pp_run D J (pp_step D J r op) ops) i) =
      stages (state_of (pp_step D J r op) i) @ m2"
    using Cons.IH by blast
  ultimately show ?case by (simp add: pp_run_def)
qed (simp add: pp_run_def)

section \<open>Properties\<close>

text \<open>
  C37: The life cycle of proposals and its audit trail. After any sequence of operations the audit
  chain verifies, and for every id the events that name it are exactly the stages its proposal went
  through, in order: none if there is no such proposal, then submitted, specified, handed over. No
  stage is skipped, repeated or taken back; every proposal is stored under the hash of its
  content; and a transition succeeds exactly from the stage before.
\<close>

theorem proposal_trail:
  "let r = pp_run D J new_proposals ops; r' = pp_run D J r later in
   ap_verify D (ps_audit r) \<and>
   trail r i = stages (state_of r i) \<and>
   take (length (stages (state_of r i))) (stages (state_of r' i)) = stages (state_of r i) \<and>
   (case pp_get r i of
      None \<Rightarrow> True
    | Some p \<Rightarrow> pp_id p = i \<and> i = proposal_id D J (pp_agent p) (pp_kind p) (pp_payload p)) \<and>
   (is_ok (snd (mark_specified D r i)) \<longleftrightarrow> state_of r i = Some Proposed) \<and>
   (is_ok (snd (mark_handed_to_vm D r i)) \<longleftrightarrow> state_of r i = Some Specified)"
proof -
  let ?r = "pp_run D J new_proposals ops"
  have "registry_ok D J ?r" by (rule registry_ok_run [OF registry_ok_new])
  moreover obtain m where "stages (state_of (pp_run D J ?r later) i) = stages (state_of ?r i) @ m"
    using stages_grow by blast
  moreover have "is_ok (snd (mark_specified D ?r i)) \<longleftrightarrow> state_of ?r i = Some Proposed"
    "is_ok (snd (mark_handed_to_vm D ?r i)) \<longleftrightarrow> state_of ?r i = Some Specified"
    by (auto simp: mark_specified_def mark_handed_to_vm_def state_of_def pp_get_def split: option.split)
  ultimately show ?thesis by (simp add: Let_def registry_ok_def split: option.split)
qed

text \<open>The hashed text joins agent and kind with a bar: a proposal of another agent can have the
  same id, and is then taken for a repetition and dropped, although its id is returned.\<close>

theorem proposal_shadowed:
  "let r = fst (submit D J new_proposals (a @ ''|'' @ b) k p) in
   submit D J r a (b @ ''|'' @ k) p = (r, snd (submit D J new_proposals (a @ ''|'' @ b) k p)) \<and>
   map_option pp_agent (pp_get r (snd (submit D J r a (b @ ''|'' @ k) p))) = Some (a @ ''|'' @ b)"
  by (simp add: Let_def submit_def proposal_id_def new_proposals_def bm_contains_def pp_get_def)

end
