(* ===== verification/Messages.thy ===== *)
theory Messages imports Lifecycle Keyring State_Store Runtime Proposals Watchdog Packages Peers Wal Transport begin

text \<open>
  The texts of the errors: the \<open>Display\<close> implementations of the crates. Strings are the bytes of
  UTF-8, so the letters beyond ASCII are written as their bytes. The text of an error of the
  operating system or of \<open>serde_json\<close> is the parameter \<open>io\<close>.
\<close>

definition a_umlaut :: string where "a_umlaut = [CHR 0xC3, CHR 0xA4]"
definition u_umlaut :: string where "u_umlaut = [CHR 0xC3, CHR 0xBC]"
definition em_dash :: string where "em_dash = [CHR 0xE2, CHR 0x80, CHR 0x94]"

definition in_quotes :: "string \<Rightarrow> string" where
  "in_quotes s = [CHR 0x27] @ s @ [CHR 0x27]"

fun debug_lstate :: "lstate \<Rightarrow> string" where
  "debug_lstate Init = ''Init''"
| "debug_lstate Boot = ''Boot''"
| "debug_lstate Running = ''Running''"
| "debug_lstate LDegraded = ''Degraded''"
| "debug_lstate Shutdown = ''Shutdown''"
| "debug_lstate Stopped = ''Stopped''"

definition show_lifecycle_error :: "lifecycle_error \<Rightarrow> string" where
  "show_lifecycle_error e =
     ''illegal lifecycle transition '' @ debug_lstate (le_from e) @ '' -> '' @ debug_lstate (le_to e)"

fun show_keyring_error :: "keyring_error \<Rightarrow> string" where
  "show_keyring_error (Unknown_Key i) = ''unknown key '' @ in_quotes i @ '' (fail-closed)''"
| "show_keyring_error (Key_Revoked i) = ''key '' @ in_quotes i @ '' revoked (fail-closed)''"
| "show_keyring_error (Duplicate_Key i) = ''key id '' @ in_quotes i @ '' already exists''"

fun show_sync_error :: "sync_error \<Rightarrow> string" where
  "show_sync_error (HeightGap e g) = ''height gap: expected '' @ show_word e @ '', got '' @ show_word g"
| "show_sync_error (Duplicate h) = ''duplicate block at height '' @ show_word h"
| "show_sync_error (Fork h k g) = ''fork at '' @ show_word h @ '': known '' @ k @ '', got '' @ g"
| "show_sync_error (PrevMismatch e g) = ''prev mismatch: expected '' @ e @ '', got '' @ g"
| "show_sync_error (RootMismatch c d) =
     ''state root mismatch: claimed '' @ c @ '', computed '' @ d @ '' (block NOT trusted)''"
| "show_sync_error (SnapshotHeightMismatch e g) =
     ''snapshot height mismatch: expected '' @ show_word e @ '', got '' @ show_word g"
| "show_sync_error (SnapshotRootMismatch c d) =
     ''snapshot root mismatch: claimed '' @ c @ '', computed '' @ d"

definition show_capability_error :: "string \<Rightarrow> string" where
  "show_capability_error e = ''capability invalid: '' @ e"

fun show_resource_error :: "resource_error \<Rightarrow> string" where
  "show_resource_error (Quota_Exceeded resource requested limit used) =
     resource @ '' quota exceeded: requested '' @ show_word requested @ '', used '' @ show_word used @
     '', limit '' @ show_word limit"
| "show_resource_error (Invalid_Free attempted current) =
     ''invalid free: attempted '' @ show_word attempted @ '', current '' @ show_word current @
     '' (kein Negativsaldo)''"

fun show_sandbox_error :: "sandbox_error \<Rightarrow> string" where
  "show_sandbox_error (Denied_Op reason) = ''DENIED: '' @ reason"
| "show_sandbox_error (Resource_Error e) = ''RESOURCE: '' @ show_resource_error e"

fun show_ipc_error :: "ipc_error \<Rightarrow> string" where
  "show_ipc_error (Unknown_Agent a) = ''unknown agent '' @ in_quotes a @ '' (deny by default)''"
| "show_ipc_error (Capability_Denied a t) =
     ''agent '' @ in_quotes a @ '' lacks capability for '' @ in_quotes t @ '' (deny by default)''"
| "show_ipc_error (Ipc_Replay seq newest) = ''ipc replay: seq '' @ show_word seq @ '' <= last '' @ show_word newest"
| "show_ipc_error (Schema_Violation t missing) =
     ''schema violation for '' @ in_quotes t @ '': missing field '' @ in_quotes missing @ '' (fail-closed)''"

fun debug_proposal_state :: "proposal_state \<Rightarrow> string" where
  "debug_proposal_state Proposed = ''Proposed''"
| "debug_proposal_state Specified = ''Specified''"
| "debug_proposal_state Handed_To_VM = ''HandedToVM''"

fun show_proposal_error :: "proposal_error \<Rightarrow> string" where
  "show_proposal_error (Unknown_Proposal i) = ''unknown proposal '' @ in_quotes i"
| "show_proposal_error (Invalid_Transition s t) =
     ''invalid proposal transition '' @ debug_proposal_state s @ '' -> '' @ debug_proposal_state t"

text \<open>What the derived \<open>Debug\<close> of a service state prints.\<close>

fun debug_state :: "service_state \<Rightarrow> string" where
  "debug_state Srv_Running = ''Running''"
| "debug_state Srv_Stale = ''Stale''"
| "debug_state Declared_Dead = ''DeclaredDead''"

fun show_watchdog_error :: "watchdog_error \<Rightarrow> string" where
  "show_watchdog_error (Unknown_Service s) = ''unknown service '' @ in_quotes s @ '' (fail-closed)''"
| "show_watchdog_error (Duplicate_Service s) = ''service '' @ in_quotes s @ '' already registered''"
| "show_watchdog_error (Illegal_Restart s st) =
     ''restart denied for '' @ in_quotes s @ '' in state '' @ debug_state st @ '' (only DeclaredDead)''"
| "show_watchdog_error (Illegal_Heartbeat s st) =
     ''heartbeat denied for '' @ in_quotes s @ '' in state '' @ debug_state st @
     '' (dead services need restart)''"

fun show_auth_error :: "auth_error \<Rightarrow> string" where
  "show_auth_error (Auth_Replay nonce newest) = ''replay: nonce '' @ show_word nonce @ '' <= last '' @ show_word newest"
| "show_auth_error (Wrong_Peer expected got) = ''wrong peer: expected '' @ expected @ '', got '' @ got"
| "show_auth_error Auth_Bad_Signature = ''signature verification failed''"

fun show_session_error :: "session_error \<Rightarrow> string" where
  "show_session_error (Sess_Replay seq newest) =
     ''session replay: seq '' @ show_word seq @ '' <= last '' @ show_word newest"
| "show_session_error (Wrong_Session expected got) =
     ''wrong session: expected '' @ expected @ '', got '' @ got"
| "show_session_error Sess_Bad_Signature = ''envelope signature invalid''"

definition show_pair :: "u32 \<times> u32 \<Rightarrow> string" where
  "show_pair v = ''('' @ show_word (fst v) @ '', '' @ show_word (snd v) @ '')''"

fun show_upgrade_error :: "upgrade_error \<Rightarrow> string" where
  "show_upgrade_error (Malformed_Support current mn) =
     ''unlogische Version-Unterstuetzung: min '' @ show_word mn @ '' > current '' @ show_word current"
| "show_upgrade_error (Incompatible ours theirs hint) =
     ''inkompatibel: wir '' @ show_pair ours @ '', gegenueber '' @ show_pair theirs"
| "show_upgrade_error (Unknown_Envelope_Version found supported) =
     ''Envelope-Version '' @ show_word found @ '' > unterstuetzt bis '' @ show_word supported @ '' '' @
     em_dash @ '' payload wird NICHT geparst''"
| "show_upgrade_error (Envelope_Too_Old found mn) =
     ''Envelope-Version '' @ show_word found @ '' < mindestens '' @ show_word mn"

definition show_parse_error :: "string \<Rightarrow> string" where
  "show_parse_error e = ''version parse error: '' @ e"

fun show_pkg_error :: "pkg_error \<Rightarrow> string" where
  "show_pkg_error (Duplicate_Name_Version name v) =
     ''publish denied: '' @ name @ ''@'' @ show_version v @ '' existiert (Immutabilit'' @ a_umlaut @ ''t)''"
| "show_pkg_error (Missing_Dependency name req) =
     ''dependency fehlt: '' @ name @ '' ('' @ show_req req @ '') (fail-closed)''"
| "show_pkg_error (Cycle_Detected name) =
     ''Abh'' @ a_umlaut @ ''ngigkeitszyklus '' @ u_umlaut @ ''ber '' @ in_quotes name @ '' (fail-closed)''"
| "show_pkg_error (Registry_Poisoned name) = ''Registry inkonsistent bei '' @ in_quotes name"

fun show_wal_error :: "(io_error \<Rightarrow> string) \<Rightarrow> wal_error \<Rightarrow> string" where
  "show_wal_error io (Wal_Io e) = ''WAL I/O: '' @ io e"
| "show_wal_error io (Chain_Broken line expected got) =
     ''WAL-Chain gebrochen (Zeile '' @ show_nat line @ ''): erwartet '' @ expected @ '', gefunden '' @ got"
| "show_wal_error io (Malformed_Record line) = ''WAL-Record unlesbar (Zeile '' @ show_nat line @ '')''"

text \<open>What the derived \<open>Debug\<close> of a transport error prints.\<close>

fun debug_transport_error :: "transport_error \<Rightarrow> string" where
  "debug_transport_error (Incomplete expected available) =
     ''Incomplete { expected: '' @ show_nat expected @ '', available: '' @ show_nat available @ '' }''"
| "debug_transport_error (Length_Mismatch declared actual) =
     ''LengthMismatch { declared: '' @ show_nat declared @ '', actual: '' @ show_nat actual @ '' }''"
| "debug_transport_error (Oversized declared limit) =
     ''Oversized { declared: '' @ show_nat declared @ '', limit: '' @ show_nat limit @ '' }''"

fun show_tcp_error :: "string \<Rightarrow> tcp_error \<Rightarrow> string" where
  "show_tcp_error io Tcp_Io = ''tcp io: '' @ io"
| "show_tcp_error io (Tcp_Frame e) = ''frame: '' @ debug_transport_error e"
| "show_tcp_error io Closed_Mid_Frame = ''verbindung mitten im Frame beendet''"

end
