(* ===== verification/Integration.thy ===== *)
theory Integration imports Messages Gossip begin

text \<open>
  \<open>kai-os/integration/src/lib.rs\<close>: the boot pipeline, which composes the crates in nine steps. Each
  step is a function of what it uses; \<open>boot\<close> runs them in the order of the code and stops at the
  first error. The outer \<open>None\<close> is a panic.
\<close>

section \<open>Configuration, report and errors\<close>

record boot_config =
  bc_node_seed :: bytes
  bc_agent_seed :: bytes
  bc_txs :: "tx list"

record boot_report =
  br_steps :: "(string \<times> string) list"

definition starts_with :: "string \<Rightarrow> string \<Rightarrow> bool" where
  "starts_with s t = (take (length t) s = t)"

definition report_ok :: "boot_report \<Rightarrow> bool" where
  "report_ok r = list_all (\<lambda>(_, detail). \<not> starts_with detail ''FAIL'') (br_steps r)"

record boot_error =
  be_step :: string
  be_detail :: string

definition boot_fail :: "string \<Rightarrow> string \<Rightarrow> boot_error + 'a" where
  "boot_fail step detail = Inl \<lparr>be_step = step, be_detail = ''FAIL: '' @ detail\<rparr>"

text \<open>\<open>map_err(fail step)?\<close> on an operation that returns its new state and a result, and on a plain result.\<close>

fun on_ok :: "'s \<times> ('e + 'v) \<Rightarrow> string \<Rightarrow> ('e \<Rightarrow> string) \<Rightarrow> ('s \<Rightarrow> 'v \<Rightarrow> boot_error + 'a) \<Rightarrow> boot_error + 'a" where
  "on_ok (s, Inl e) step text k = boot_fail step (text e)"
| "on_ok (s, Inr v) step text k = k s v"

fun continue_with :: "boot_error + 'a \<Rightarrow> ('a \<Rightarrow> boot_error + 'b) \<Rightarrow> boot_error + 'b" where
  "continue_with (Inl e) k = Inl e"
| "continue_with (Inr v) k = k v"

section \<open>The steps\<close>

definition no_callback :: "unit \<Rightarrow> lstate \<Rightarrow> lstate \<Rightarrow> unit" where
  "no_callback _ _ _ = ()"

definition boot_lifecycle :: "boot_error + unit lifecycle" where
  "boot_lifecycle =
     on_ok (transition no_callback (new_lifecycle ()) Boot) ''lifecycle'' show_lifecycle_error (\<lambda>l1 _.
     on_ok (transition no_callback l1 Running) ''lifecycle'' show_lifecycle_error (\<lambda>l2 _.
       if lc_current l2 \<noteq> Running
       then boot_fail ''lifecycle'' ''not RUNNING after transitions''
       else Inr l2))"

definition boot_keyring :: "sig_scheme \<Rightarrow> boot_config \<Rightarrow> boot_error + keyring" where
  "boot_keyring G cfg =
     on_ok (import_seed G new_keyring ''node-key'' Node_Identity (bc_node_seed cfg)) ''keyring'' show_keyring_error (\<lambda>r1 _.
     on_ok (import_seed G r1 ''agent-key'' Agent_Signing (bc_agent_seed cfg)) ''keyring'' show_keyring_error (\<lambda>r2 _. Inr r2))"

definition boot_state :: "digest \<Rightarrow> boot_config \<Rightarrow> state_store \<times> string" where
  "boot_state D cfg = (let s = apply_all new_store (bc_txs cfg) in (s, state_root D s))"

definition state_detail :: "state_store \<Rightarrow> string \<Rightarrow> string option" where
  "state_detail s root =
     map_option (\<lambda>short. show_nat (store_len s) @ '' entries, root '' @ short) (slice_to root 16)"

definition boot_snapshot :: "digest \<Rightarrow> state_store \<Rightarrow> string \<Rightarrow> boot_error + snapshot" where
  "boot_snapshot D s root =
     (let sn = snapshot_from_state D 1 ''genesis-0001'' s in
      on_ok ((), verify_against D sn 1 root) ''snapshot'' show_sync_error (\<lambda>_ _. Inr sn))"

definition boot_sandbox :: "profile \<Rightarrow> digest \<Rightarrow> (boot_error + resource_manager) option" where
  "boot_sandbox p D =
     (case cap_build [Cpu_Ms 100, Memory 1024] of
        Inl e \<Rightarrow> Some (boot_fail ''sandbox'' (show_capability_error e))
      | Inr caps \<Rightarrow>
          (case cap_validate caps of
             Inl e \<Rightarrow> Some (boot_fail ''sandbox'' (show_capability_error e))
           | Inr _ \<Rightarrow>
               map_option (\<lambda>r. on_ok r ''sandbox'' show_sandbox_error (\<lambda>m _. Inr m))
                 (sb_execute p D \<lparr>sb_id = ''vm-exec'', sb_capability = caps\<rparr> (Compute 50) new_manager)))"

text \<open>The JSON payload \<open>{"action": "transfer", "params": {...}}\<close> is the parameter \<open>payload\<close>.\<close>

definition boot_message :: "'j \<Rightarrow> 'j ipc_message" where
  "boot_message payload =
     \<lparr>im_from = ''kai-agent-1'', im_type = ''propose_tx'', im_seq = 1, im_payload = payload\<rparr>"

definition boot_ipc :: "digest \<Rightarrow> 'j json_ops \<Rightarrow> 'j \<Rightarrow> boot_error + ipc_gateway" where
  "boot_ipc D J payload =
     on_ok (ipc_deliver D J (register_agent D new_gateway ''kai-agent-1'' [''propose_tx'', ''query_state''])
         (boot_message payload)) ''ipc'' show_ipc_error (\<lambda>g _.
       if \<not> ap_verify D (ig_audit g)
       then boot_fail ''ipc'' ''audit chain broken after delivery''
       else Inr g)"

definition boot_proposal :: "digest \<Rightarrow> 'j json_ops \<Rightarrow> 'j \<Rightarrow> boot_error + 'j proposal_registry \<times> string" where
  "boot_proposal D J payload =
     (let (r0, i) = submit D J new_proposals ''kai-agent-1'' ''propose_tx'' payload in
      on_ok (mark_specified D r0 i) ''proposal'' show_proposal_error (\<lambda>r1 _.
      on_ok (mark_handed_to_vm D r1 i) ''proposal'' show_proposal_error (\<lambda>r2 _.
        if map_option pp_state (pp_get r2 i) \<noteq> Some Handed_To_VM
        then boot_fail ''proposal'' ''not HandedToVM after lifecycle''
        else Inr (r2, i))))"

definition boot_signature :: "sig_scheme \<Rightarrow> keyring \<Rightarrow> string \<Rightarrow> boot_error + bytes" where
  "boot_signature G ring i =
     on_ok ((), kr_sign G ring ''node-key'' (as_bytes i)) ''signature'' show_keyring_error (\<lambda>_ sig.
     on_ok ((), public_key G ring ''node-key'') ''signature'' show_keyring_error (\<lambda>_ public.
       if \<not> kr_verify G public (as_bytes i) sig
       then boot_fail ''signature'' ''handoff signature does not verify''
       else Inr sig))"

definition BOOT_SERVICES :: "(string \<times> u64 \<times> u64) list" where
  "BOOT_SERVICES = [(''node-daemon'', 3, 5), (''vm-exec'', 2, 4), (''ai-runtime'', 3, 5)]"

fun register_services :: "watchdog \<Rightarrow> (string \<times> u64 \<times> u64) list \<Rightarrow> boot_error + watchdog" where
  "register_services w [] = Inr w"
| "register_services w ((svc, stale, dead) # later) =
     on_ok (wd_register w svc stale dead) ''health'' show_watchdog_error (\<lambda>w' _. register_services w' later)"

fun observe_services :: "watchdog \<Rightarrow> health_gossip \<Rightarrow> string list \<Rightarrow> boot_error + health_gossip" where
  "observe_services w g [] = Inr g"
| "observe_services w g (svc # later) =
     on_ok ((), wd_state w svc) ''health'' show_watchdog_error (\<lambda>_ s.
       observe_services w (go_observe g svc (status_of_service s) (wd_now w)) later)"

definition boot_health :: "boot_error + watchdog \<times> health_gossip" where
  "boot_health =
     continue_with (register_services (new_watchdog 0) BOOT_SERVICES) (\<lambda>w.
     continue_with (observe_services w (new_gossip ''self'') (map fst BOOT_SERVICES)) (\<lambda>g.
     on_ok ((), wd_state w ''node-daemon'') ''health'' show_watchdog_error (\<lambda>_ s.
       if s \<noteq> Srv_Running
       then boot_fail ''health'' ''node-daemon not Running after boot''
       else Inr (w, g))))"

definition show_boot_error :: "boot_error \<Rightarrow> string" where
  "show_boot_error e = ''boot failed at step '' @ in_quotes (be_step e) @ '': '' @ be_detail e"

section \<open>The pipeline\<close>

record 'j booted_system =
  bs_lifecycle :: "unit lifecycle"
  bs_keyring :: keyring
  bs_state :: state_store
  bs_snapshot :: snapshot
  bs_state_root :: string
  bs_watchdog :: watchdog
  bs_ipc :: ipc_gateway
  bs_proposals :: "'j proposal_registry"
  bs_proposal_id :: string
  bs_signature :: bytes
  bs_gossip :: health_gossip

text \<open>An error ends the boot; a result goes to the next step.\<close>

fun and_then :: "boot_error + 'a \<Rightarrow> ('a \<Rightarrow> (boot_error + 'b) option) \<Rightarrow> (boot_error + 'b) option" where
  "and_then (Inl e) k = Some (Inl e)"
| "and_then (Inr v) k = k v"

definition boot ::
  "profile \<Rightarrow> digest \<Rightarrow> sig_scheme \<Rightarrow> 'j json_ops \<Rightarrow> 'j \<Rightarrow> boot_config \<Rightarrow>
   (boot_error + 'j booted_system \<times> boot_report) option" where
  "boot p D G J payload cfg =
     and_then boot_lifecycle (\<lambda>lifecycle.
     and_then (boot_keyring G cfg) (\<lambda>ring.
     let (s, root) = boot_state D cfg in
     Option.bind (state_detail s root) (\<lambda>detail.
     and_then (boot_snapshot D s root) (\<lambda>sn.
     Option.bind (boot_sandbox p D) (\<lambda>sandbox.
     and_then sandbox (\<lambda>_.
     and_then (boot_ipc D J payload) (\<lambda>ipc.
     and_then (boot_proposal D J payload) (\<lambda>(proposals, i).
     Option.bind (slice_to i 16) (\<lambda>short.
     and_then (boot_signature G ring i) (\<lambda>sig.
     and_then boot_health (\<lambda>(watchdog, gossip).
       Some (Inr
         (\<lparr>bs_lifecycle = lifecycle, bs_keyring = ring, bs_state = s, bs_snapshot = sn,
           bs_state_root = root, bs_watchdog = watchdog, bs_ipc = ipc, bs_proposals = proposals,
           bs_proposal_id = i, bs_signature = sig, bs_gossip = gossip\<rparr>,
          \<lparr>br_steps =
            [(''lifecycle'', ''INIT->BOOT->RUNNING''),
             (''keyring'', ''node-key + agent-key imported (public only)''),
             (''state'', detail),
             (''snapshot'', ''verified against trusted root''),
             (''sandbox'', ''Compute(50ms) within capability''),
             (''ipc'', ''propose_tx delivered, schema + audit ok''),
             (''proposal'', short @ '' HandedToVM''),
             (''signature'', ''handoff signed by node-key, verified''),
             (''health'', ''3 services observed, gossip snapshot ready'')]\<rparr>)))))))))))))"

section \<open>Every step succeeds\<close>

lemma lifecycle_boots:
  "boot_lifecycle = Inr \<lparr>lc_current = Running, lc_history = [(Init, Boot), (Boot, Running)], lc_audit = ()\<rparr>"
  by (simp add: boot_lifecycle_def transition_def new_lifecycle_def)

lemma keyring_boots:
  "boot_keyring G cfg =
     Inr (kr_run G [Import ''node-key'' Node_Identity (bc_node_seed cfg), Import ''agent-key'' Agent_Signing (bc_agent_seed cfg)])"
  by (simp add: boot_keyring_def import_seed_def new_keyring_def bm_contains_def Let_def kr_run_def)

lemma snapshot_boots: "boot_snapshot D s (state_root D s) = Inr (snapshot_from_state D 1 ''genesis-0001'' s)"
  by (simp add: boot_snapshot_def Let_def snapshot_verifies)

lemma state_detail_some:
  assumes "digest32 D"
  obtains d where "state_detail s (state_root D s) = Some d" "\<not> starts_with d ''FAIL''"
proof -
  have "length (state_root D s) = 64" "ascii (state_root D s)"
    using hash_merkle_root [OF assms, of "entries s"] by (simp_all add: state_root_def hashes_def digest_text_parts)
  then have "slice_to (state_root D s) 16 = Some (take 16 (state_root D s))" by (simp add: slice_to_ascii)
  moreover have "\<not> starts_with (show_nat n @ t) ''FAIL''" for n t
  proof -
    obtain c cs where c: "show_nat n = c # cs" by (cases "show_nat n") auto
    then have "c \<noteq> CHR ''F''" using show_nat_code_range [of c n] by auto
    with c show ?thesis by (simp add: starts_with_def)
  qed
  ultimately show thesis by (intro that) (simp_all add: state_detail_def)
qed

lemma sandbox_boots: "\<exists>m. boot_sandbox p D = Some (Inr m)"
proof -
  let ?c = "foldl build_step cap_builder [Cpu_Ms 100, Memory 1024]"
  have "cap_validate ?c = Inr ()" by (simp add: cap_validate_def cap_builder_def)
  moreover have "add_ov p (0 :: u64) 50 = Some 50" by (simp add: add_ov_exact)
  ultimately show ?thesis
    by (simp add: boot_sandbox_def cap_build_def Let_def consume_cpu_def usage_new no_usage_def cap_builder_def
        cap_validate_def)
qed

lemma ipc_boots:
  assumes "js_has J payload ''action''" "js_has J payload ''params''"
  obtains g where "boot_ipc D J payload = Inr g" "ap_verify D (ig_audit g)"
    "\<not> is_ok (snd (ipc_deliver D J g (boot_message payload)))"
proof -
  let ?g = "gateway_of D [(''kai-agent-1'', [''propose_tx'', ''query_state''])]" and ?m = "boot_message payload"
  have "check_schema J ?m = Inr ()"
    using assms by (simp add: check_schema_ok required_fields_def SCHEMAS_def boot_message_def)
  then obtain g v where d: "ipc_deliver D J ?g ?m = (g, Inr v)"
    by (simp add: ipc_deliver_def gateway_of_def register_agent_def new_gateway_def last_seq_of_def boot_message_def Let_def)
  have "ap_verify D (ig_audit g)"
    using final_audit [of D ?g J "[?m]"] gateway_of_audit [of D] d by simp
  moreover have "boot_ipc D J payload = Inr g"
    using d \<open>ap_verify D (ig_audit g)\<close> by (simp add: boot_ipc_def gateway_of_def)
  moreover have "\<not> is_ok (snd (ipc_deliver D J g ?m))"
    using ipc.replay_refused [of ?m D J ?g "[?m]"] d by simp
  ultimately show thesis using that by blast
qed

lemma proposal_boots:
  obtains r where
    "boot_proposal D J payload = Inr (r, proposal_id D J ''kai-agent-1'' ''propose_tx'' payload)"
    "registry_ok D J r" "state_of r (proposal_id D J ''kai-agent-1'' ''propose_tx'' payload) = Some Handed_To_VM"
proof -
  let ?i = "proposal_id D J ''kai-agent-1'' ''propose_tx'' payload"
  let ?r = "pp_run D J new_proposals [Op_Submit ''kai-agent-1'' ''propose_tx'' payload, Op_Specify ?i, Op_Hand ?i]"
  have "boot_proposal D J payload = Inr (?r, ?i) \<and> state_of ?r ?i = Some Handed_To_VM"
    by (simp add: boot_proposal_def submit_def new_proposals_def bm_contains_def mark_specified_def
        mark_handed_to_vm_def pp_run_def pp_get_def state_of_def Let_def)
  moreover have "registry_ok D J ?r" by (rule registry_ok_run [OF registry_ok_new])
  ultimately show thesis by (intro that [of ?r]) simp_all
qed

lemma signature_boots:
  assumes "sg_ok G" "length (bc_node_seed cfg) = 32" "boot_keyring G cfg = Inr ring"
  shows "boot_signature G ring i = Inr (kp_sign G \<lparr>kp_seed = bc_node_seed cfg\<rparr> (as_bytes i)) \<and>
    kr_verify G (public_bytes G \<lparr>kp_seed = bc_node_seed cfg\<rparr>) (as_bytes i) (kp_sign G \<lparr>kp_seed = bc_node_seed cfg\<rparr> (as_bytes i))"
proof -
  have "key_view ring ''node-key'' = Some (bc_node_seed cfg, Node_Identity)"
    using assms(3) by (auto simp: keyring_boots key_view_run)
  moreover have "kr_verify G (public_bytes G \<lparr>kp_seed = bc_node_seed cfg\<rparr>) (as_bytes i)
      (kp_sign G \<lparr>kp_seed = bc_node_seed cfg\<rparr> (as_bytes i))"
    using assms(1,2) by (simp add: sg_ok_def kr_verify_def public_bytes_def kp_sign_def)
  ultimately show ?thesis by (simp add: boot_signature_def key_results)
qed

lemma health_boots:
  obtains w g where "boot_health = Inr (w, g)"
    "list_all (\<lambda>(svc, _). wd_state w svc = Inr Srv_Running) BOOT_SERVICES"
    "list_all (\<lambda>(svc, _). map_option nh_status (bm_get (reports_of g ''self'') svc) = Some Gs_Healthy) BOOT_SERVICES"
proof -
  have "case boot_health of Inl _ \<Rightarrow> False | Inr (w, g) \<Rightarrow>
      list_all (\<lambda>(svc, _). wd_state w svc = Inr Srv_Running) BOOT_SERVICES \<and>
      list_all (\<lambda>(svc, _). map_option nh_status (bm_get (reports_of g ''self'') svc) = Some Gs_Healthy) BOOT_SERVICES"
    by (simp add: boot_health_def BOOT_SERVICES_def new_watchdog_def wd_register_def bm_contains_def
        wd_state_def new_gossip_def go_observe_def reports_of_def)
  then show thesis by (auto split: sum.splits intro: that)
qed

section \<open>Property\<close>

definition BOOT_STEPS :: "string list" where
  "BOOT_STEPS = [''lifecycle'', ''keyring'', ''state'', ''snapshot'', ''sandbox'', ''ipc'', ''proposal'', ''signature'', ''health'']"

text \<open>
  C40: The boot. For every configuration the pipeline neither panics nor fails: it reports its nine
  steps in order, none with \<open>FAIL\<close>, in builds with and without overflow checks. The system it
  returns runs; its state is that of the transaction log and the snapshot restores it; the proposal
  went through all its stages, with a verifying audit trail, and is signed by the node key; the
  delivered message cannot be delivered again; and all services are running and reported healthy.
\<close>

theorem boot_succeeds:
  assumes "digest32 D" "sg_ok G" "length (bc_node_seed cfg) = 32"
    and "js_has J payload ''action''" "js_has J payload ''params''"
  shows "\<exists>sys report. boot p D G J payload cfg = Some (Inr (sys, report)) \<and>
    map fst (br_steps report) = BOOT_STEPS \<and> report_ok report \<and>
    lc_current (bs_lifecycle sys) = Running \<and>
    bs_state sys = apply_all new_store (bc_txs cfg) \<and> bs_state_root sys = state_root D (bs_state sys) \<and>
    snapshot_to_state (bs_snapshot sys) = bs_state sys \<and>
    trail (bs_proposals sys) (bs_proposal_id sys) = stages (Some Handed_To_VM) \<and>
    ap_verify D (ps_audit (bs_proposals sys)) \<and>
    kr_verify G (public_bytes G \<lparr>kp_seed = bc_node_seed cfg\<rparr>) (as_bytes (bs_proposal_id sys)) (bs_signature sys) \<and>
    ap_verify D (ig_audit (bs_ipc sys)) \<and>
    \<not> is_ok (snd (ipc_deliver D J (bs_ipc sys) (boot_message payload))) \<and>
    list_all (\<lambda>(svc, _). wd_state (bs_watchdog sys) svc = Inr Srv_Running \<and>
      map_option nh_status (bm_get (reports_of (bs_gossip sys) ''self'') svc) = Some Gs_Healthy) BOOT_SERVICES"
proof -
  let ?s = "apply_all new_store (bc_txs cfg)"
  let ?i = "proposal_id D J ''kai-agent-1'' ''propose_tx'' payload"
  obtain d where d: "state_detail ?s (state_root D ?s) = Some d" "\<not> starts_with d ''FAIL''"
    by (rule state_detail_some [OF assms(1)])
  obtain m where m: "boot_sandbox p D = Some (Inr m)" using sandbox_boots by blast
  obtain g where g: "boot_ipc D J payload = Inr g" "ap_verify D (ig_audit g)"
    "\<not> is_ok (snd (ipc_deliver D J g (boot_message payload)))"
    by (rule ipc_boots [OF assms(4,5)])
  obtain r where r: "boot_proposal D J payload = Inr (r, ?i)" "registry_ok D J r" "state_of r ?i = Some Handed_To_VM"
    by (rule proposal_boots)
  obtain w go where h: "boot_health = Inr (w, go)"
    "list_all (\<lambda>(svc, _). wd_state w svc = Inr Srv_Running) BOOT_SERVICES"
    "list_all (\<lambda>(svc, _). map_option nh_status (bm_get (reports_of go ''self'') svc) = Some Gs_Healthy) BOOT_SERVICES"
    by (rule health_boots)
  let ?ring = "kr_run G [Import ''node-key'' Node_Identity (bc_node_seed cfg), Import ''agent-key'' Agent_Signing (bc_agent_seed cfg)]"
  let ?sys = "\<lparr>bs_lifecycle = \<lparr>lc_current = Running, lc_history = [(Init, Boot), (Boot, Running)], lc_audit = ()\<rparr>,
      bs_keyring = ?ring, bs_state = ?s, bs_snapshot = snapshot_from_state D 1 ''genesis-0001'' ?s,
      bs_state_root = state_root D ?s, bs_watchdog = w, bs_ipc = g, bs_proposals = r, bs_proposal_id = ?i,
      bs_signature = kp_sign G \<lparr>kp_seed = bc_node_seed cfg\<rparr> (as_bytes ?i), bs_gossip = go\<rparr>"
  have short: "slice_to ?i 16 = Some (take 16 ?i)" using assms(1) by (simp add: slice_to_ascii proposal_id_def)
  have hand: "\<not> starts_with (take 16 ?i @ '' HandedToVM'') ''FAIL''"
  proof -
    have "length ?i = 64" using assms(1) by (simp add: proposal_id_def)
    moreover have "CHR ''F'' \<notin> set ?i" by (simp add: proposal_id_def sha_str_def sha_hex_def upper_notin_hex)
    ultimately show ?thesis by (cases ?i) (auto simp: starts_with_def)
  qed
  note sig = signature_boots [OF assms(2,3) keyring_boots, of ?i]
  let ?report = "\<lparr>br_steps = [(''lifecycle'', ''INIT->BOOT->RUNNING''),
       (''keyring'', ''node-key + agent-key imported (public only)''), (''state'', d),
       (''snapshot'', ''verified against trusted root''), (''sandbox'', ''Compute(50ms) within capability''),
       (''ipc'', ''propose_tx delivered, schema + audit ok''), (''proposal'', take 16 ?i @ '' HandedToVM''),
       (''signature'', ''handoff signed by node-key, verified''),
       (''health'', ''3 services observed, gossip snapshot ready'')]\<rparr>"
  have b: "boot p D G J payload cfg = Some (Inr (?sys, ?report))"
    by (simp add: boot_def lifecycle_boots keyring_boots boot_state_def snapshot_boots Let_def
        d(1) m g(1) r(1) h(1) sig short)
  have "report_ok ?report" using d(2) hand by (simp add: report_ok_def, simp add: starts_with_def)
  moreover have "map fst (br_steps ?report) = BOOT_STEPS" by (simp add: BOOT_STEPS_def)
  moreover have "trail r ?i = stages (Some Handed_To_VM)" "ap_verify D (ps_audit r)"
    using r(2,3) by (simp_all add: registry_ok_def)
  ultimately show ?thesis
    using g(2,3) h(2,3) sig
    by (intro exI [of _ ?sys] exI [of _ ?report]) (simp add: b snapshot_roundtrip list_all_iff case_prod_beta)
qed

lemma boot_succeeds_witness:
  "\<exists>sys report. boot Checked demo_digest demo_sig \<lparr>js_has = \<lambda>fs f. f \<in> set fs, js_print = \<lambda>fs. Some (concat fs)\<rparr>
     [''action'', ''params'']
     \<lparr>bc_node_seed = replicate 32 1, bc_agent_seed = replicate 32 2, bc_txs = [Tx_Set ''k'' ''v'']\<rparr> =
     Some (Inr (sys, report)) \<and> report_ok report \<and> store_get (bs_state sys) ''k'' = Some ''v''"
  using boot_succeeds [OF digest32_demo demo_sig_ok,
      of "\<lparr>bc_node_seed = replicate 32 1, bc_agent_seed = replicate 32 2, bc_txs = [Tx_Set ''k'' ''v'']\<rparr>"
        "\<lparr>js_has = \<lambda>fs f. f \<in> set fs, js_print = \<lambda>fs. Some (concat fs)\<rparr>" "[''action'', ''params'']" Checked]
  by (auto simp: store_get_def)

end
