(* ===== verification/Cli.thy ===== *)
theory Cli imports Messages Ai_Audit begin

text \<open>
  \<open>kai-os/cli/src\<close>: the commands, which only print what the other components report, and the
  dispatcher of the demo program.
\<close>

definition eol :: string where
  "eol = [CHR 0x0A]"

fun kind_str :: "key_kind \<Rightarrow> string" where
  "kind_str Node_Identity = ''node-identity''"
| "kind_str Agent_Signing = ''agent-signing''"

text \<open>What \<open>Debug\<close> prints of a byte array.\<close>

definition debug_bytes :: "bytes \<Rightarrow> string" where
  "debug_bytes bs = ''['' @ join '', '' (map show_word bs) @ '']''"

definition show_bool :: "bool \<Rightarrow> string" where
  "show_bool b = (if b then ''true'' else ''false'')"

definition status_line :: "string \<times> service_state \<times> u64 \<Rightarrow> string" where
  "status_line = (\<lambda>(i, s, restarts).
     ''  '' @ i @ '': '' @ debug_state s @ '' (restarts: '' @ show_word restarts @ '')'' @ eol)"

definition cmd_status :: "watchdog \<Rightarrow> u64 \<Rightarrow> string" where
  "cmd_status w tick =
     ''kai-os status (tick '' @ show_word tick @ '')'' @ eol @ concat (map status_line (wd_report w))"

definition key_line :: "string \<times> bytes \<times> key_kind \<Rightarrow> string" where
  "key_line = (\<lambda>(i, public, kind).
     ''  '' @ i @ '' ['' @ kind_str kind @ ''] '' @ debug_bytes public @ eol)"

definition cmd_keys_list :: "sig_scheme \<Rightarrow> keyring \<Rightarrow> string" where
  "cmd_keys_list G r =
     ''keyring (public information only):'' @ eol @ concat (map key_line (sort_key fst (kr_list G r)))"

definition cmd_state_root :: "digest \<Rightarrow> state_store \<Rightarrow> string" where
  "cmd_state_root D s =
     ''state-root: '' @ state_root D s @ '' ('' @ show_nat (store_len s) @ '' entries)'' @ eol"

definition event_line :: "ap_event \<Rightarrow> string" where
  "event_line e = ''  #'' @ show_word (ap_seq e) @ '' '' @ ap_actor e @ '' '' @ ap_kind e @ eol"

definition cmd_audit_report :: "digest \<Rightarrow> audit_pipeline \<Rightarrow> string" where
  "cmd_audit_report D l =
     ''audit: '' @ show_nat (length (ap_events l)) @ '' events, chain-ok: '' @ show_bool (ap_verify D l) @ eol @
     concat (map event_line (ap_events l))"

definition show_cli_error :: "string \<Rightarrow> string" where
  "show_cli_error e = ''kai-cli: '' @ e @ '' (fail-closed)''"

definition dispatch :: "string \<Rightarrow> string + string" where
  "dispatch cmd =
     (if cmd = ''status'' \<or> cmd = ''keys'' \<or> cmd = ''state'' \<or> cmd = ''audit''
      then Inr (''usage: kai '' @ cmd @ '' <args>'')
      else Inl (''unknown command '' @ [CHR 0x27] @ cmd @ [CHR 0x27]))"

text \<open>\<open>main\<close>: what goes to standard output and to standard error, and the exit code.\<close>

definition cli_main :: "string list \<Rightarrow> string \<times> string \<times> nat" where
  "cli_main args =
     (case dispatch (if length args < 2 then [] else args ! 1) of
        Inr out \<Rightarrow> (out, [], 0)
      | Inl e \<Rightarrow> ([], show_cli_error e @ eol, 1))"

section \<open>Lemmas\<close>

text \<open>The ring already lists its keys by id: the sort of the command changes nothing.\<close>

lemma sort_key_sorted: "sorted (map f xs) \<Longrightarrow> sort_key f xs = xs"
  by (induction xs) (auto simp: insort_is_Cons)

lemma keys_listed_in_order:
  "cmd_keys_list G r = ''keyring (public information only):'' @ eol @ concat (map key_line (kr_list G r))"
proof -
  have "map fst (kr_list G r) = bm_keys (kr_keys r)"
    by (simp add: kr_list_def bm_keys_def comp_def case_prod_beta)
  then have "sorted (map fst (kr_list G r))"
    using ascending_bm_keys [of "kr_keys r"] by (simp add: sorted_wrt_mono_rel [of _ "(<)" "(\<le>)"])
  then show ?thesis by (simp add: cmd_keys_list_def sort_key_sorted)
qed

text \<open>The program exits with 0 exactly for the four commands, and otherwise prints nothing but an error.\<close>

lemma cli_fails_closed:
  "case cli_main args of (out, err, code) \<Rightarrow>
     (code = 0 \<longleftrightarrow> 2 \<le> length args \<and> args ! 1 \<in> {''status'', ''keys'', ''state'', ''audit''}) \<and>
     (if code = 0 then err = [] \<and> out \<noteq> [] else code = 1 \<and> out = [] \<and> err \<noteq> [])"
  by (auto simp: cli_main_def dispatch_def show_cli_error_def)

end
