(* ===== verification/Snapshot_Sync.thy ===== *)
theory Snapshot_Sync imports Sync_Engine begin

text \<open>
  What \<open>sync.rs\<close> and \<open>snapshot.rs\<close> give together: a node that restores a verified snapshot and goes on
  with \<open>SyncEngine::new\<close>, which is documented as the engine with an existing verified start state. No
  operation of the crate puts the tip of the snapshot into the new engine.
\<close>

lemma run_of_chain:
  assumes "valid_chain D s (acc @ bs)" "length (acc @ bs) < 2 ^ 64"
  shows "sync_run p D (engine_of D s acc) bs = Some (engine_of D s (acc @ bs))"
  using assms
proof (induction bs arbitrary: acc)
  case (Cons b bs)
  have prefix: "valid_chain D s (us @ vs) \<Longrightarrow> valid_chain D s us" for us vs
    by (induction vs rule: rev_induct) (simp_all add: valid_chain_snoc flip: append_assoc)
  have whole: "valid_chain D s ((acc @ [b]) @ bs)" using Cons.prems(1) by simp
  have "valid_chain D s (acc @ [b])" by (rule prefix [OF whole])
  moreover have "valid_chain D s acc" using prefix Cons.prems(1) by blast
  ultimately have "apply_block p D (engine_of D s acc) b = Some (engine_of D s (acc @ [b]), Inr (block_hash D b))"
    using apply_block_ledger [of D s acc b p] Cons.prems(2) by simp
  then show ?case using Cons.IH [OF whole] Cons.prems(2) by simp
qed simp

lemma new_engine_gap:
  "blk_height b \<noteq> 1 \<Longrightarrow> apply_block p D (new_engine st) b = Some (new_engine st, Inl (HeightGap 1 (blk_height b)))"
  by (simp add: apply_block_def new_engine_def add_ov_def)

lemma new_engine_stuck:
  "\<forall>b \<in> set bs. blk_height b \<noteq> 1 \<Longrightarrow> sync_run p D (new_engine st) bs = Some (new_engine st)"
  by (induction bs) (simp_all add: new_engine_gap)

section \<open>Properties\<close>

text \<open>
  C11: A node that starts from a verified snapshot cannot follow the chain. Take the engine of a
  non-empty valid chain and a snapshot of its state. The snapshot verifies against the height and the
  root of the engine, with any tip hash in it, and restores the state. The blocks that extend the chain
  take the engine to the extended chain; the engine that \<open>SyncEngine::new\<close> makes from the restored
  state refuses every one of them as a gap above height 1, and stays where it is.
\<close>

theorem snapshot_node_is_stuck:
  assumes "valid_chain D s (acc @ bs)" "acc \<noteq> []" "length (acc @ bs) < 2 ^ 64"
    and "e = engine_of D s acc" "sn = snapshot_from_state D (tip_height e) tip (eng_state e)"
  shows "verify_against D sn (tip_height e) (engine_state_root D e) = Inr () \<and>
    snapshot_to_state sn = eng_state e \<and>
    sync_run p D e bs = Some (engine_of D s (acc @ bs)) \<and>
    sync_run p D (new_engine (snapshot_to_state sn)) bs = Some (new_engine (snapshot_to_state sn)) \<and>
    list_all (\<lambda>b. apply_block p D (new_engine (snapshot_to_state sn)) b =
      Some (new_engine (snapshot_to_state sn), Inl (HeightGap 1 (blk_height b)))) bs"
proof -
  have above: "blk_height b \<noteq> 1" if b: "b \<in> set bs" for b
  proof -
    have "chain_from blk_height blk_prev_hash (block_hash D) (0 + length acc) (chain_tip (block_hash D) GENESIS_PREV acc) bs"
      using assms(1) by (simp add: valid_chain_def chain_from_append)
    then obtain i where "length acc < i" "i \<le> length acc + length bs" "blk_height b = of_nat i"
      using chain_from_number [of blk_height blk_prev_hash "block_hash D" "0 + length acc"
          "chain_tip (block_hash D) GENESIS_PREV acc" bs b] b by auto
    moreover from this have "i \<noteq> 1" "i < 2 ^ 64" using assms(2,3) by (cases acc; simp)+
    ultimately show ?thesis using of_nat_inverse [of i "blk_height b"] by fastforce
  qed
  then show ?thesis
    using run_of_chain [OF assms(1,3), of p] new_engine_stuck [of bs p D] new_engine_gap [of _ p D]
    by (simp add: assms(4,5) engine_state_root_def snapshot_roundtrip snapshot_verifies list_all_iff)
qed

lemma snapshot_node_is_stuck_witness:
  "\<exists>b e. valid_chain demo_digest new_store [demo_block, b] \<and> e = engine_of demo_digest new_store [demo_block] \<and>
     apply_block Checked demo_digest (new_engine (eng_state e)) b =
       Some (new_engine (eng_state e), Inl (HeightGap 1 2)) \<and>
     sync_run Checked demo_digest e [b] = Some (engine_of demo_digest new_store [demo_block, b])"
proof -
  let ?b = "\<lparr>blk_height = 2, blk_prev_hash = block_hash demo_digest demo_block, blk_txs = [],
    blk_state_root = state_root demo_digest (ledger_state new_store [demo_block])\<rparr>"
  have "valid_chain demo_digest new_store ([demo_block] @ [?b])"
    using demo_block_valid by (subst valid_chain_snoc) simp
  moreover have "[demo_block] \<noteq> []" "length ([demo_block] @ [?b]) < 2 ^ 64" by simp_all
  ultimately show ?thesis
    using snapshot_node_is_stuck [of demo_digest new_store "[demo_block]" "[?b]" _ _ "[]" Checked, OF _ _ _ refl refl]
    by (intro exI [of _ ?b] exI [of _ "engine_of demo_digest new_store [demo_block]"]) (simp add: snapshot_roundtrip)
qed

end
