(* ===== verification/Rollback_Boundary.thy ===== *)
theory Rollback_Boundary imports Wal_Recovery begin

text \<open>
  The rollback of \<open>kai-os/state/src/wal.rs\<close>: \<open>PersistentState::last_verified_boundary\<close> names the state
  to return to. After a checkpoint it is the state of the checkpoint, whatever is applied later; but
  it reads the header of the snapshot file without the verification that recovery makes.
\<close>

section \<open>The snapshot path of a run\<close>

lemma append_op_elsewhere:
  "append_op p D C w f l op = Some (f', l', r) \<Longrightarrow> q \<noteq> wal_path l \<Longrightarrow> f' q = f q"
  by (auto simp: append_op_def fs_append_def Let_def bind_eq_Some_conv split: option.split_asm if_split_asm)

lemma pst_open_hint:
  assumes "pst_open p D C SC f state_path path = Some (f', Inr ps)"
  shows "pst_hint ps = state_path"
proof -
  obtain r where r: "(if f path \<noteq> None then wal_replay p D C f path else Some (Inr ([], 0, WAL_GENESIS))) = Some r"
    using assms by (auto simp: pst_open_def bind_eq_Some_conv simp del: not_None_eq)
  show ?thesis
  proof (cases r)
    case (Inr v)
    obtain ops s q where v: "v = (ops, s, q)" by (cases v)
    obtain base i g w where "recovery_base D SC f state_path ops = Some (base, i)" "wal_open p D C f path = Some (g, w)"
      using assms r by (auto simp: pst_open_def Inr v bind_eq_Some_conv simp del: not_None_eq)
    then show ?thesis using assms r by (cases w) (auto simp: pst_open_def Inr v simp del: not_None_eq)
  qed (use assms r in \<open>simp add: pst_open_def\<close>)
qed

lemma pst_apply_step:
  assumes "pst_apply p D C w f ps tx = Some (f', ps', r)"
  obtains l where "append_op p D C w f (pst_wal ps) (Wal_Apply tx) = Some (f', l, r)" "pst_hint ps' = pst_hint ps"
proof -
  obtain g l s where s: "append_op p D C w f (pst_wal ps) (Wal_Apply tx) = Some (g, l, s)"
    using assms by (auto simp: pst_apply_def wal_append_def bind_eq_Some_conv)
  then show thesis using assms by (cases s) (auto simp: pst_apply_def wal_append_def intro: that)
qed

lemma pst_checkpoint_hint:
  assumes "pst_checkpoint p D C SC w sw f ps h t q = Some (f', ps', r)"
  shows "pst_hint ps' = pst_hint ps"
proof -
  obtain g l s where s: "append_op p D C w f (pst_wal ps) (Wal_Checkpoint h t (state_root D (pst_store ps))) = Some (g, l, s)"
    using assms by (auto simp: pst_checkpoint_def bind_eq_Some_conv)
  then show ?thesis using assms by (cases s) (auto simp: pst_checkpoint_def bind_eq_Some_conv)
qed

lemma wal_run_hint: "wal_run p D C SC state_path path n f ps txs \<Longrightarrow> pst_hint ps = state_path"
  by (induction rule: wal_run.induct)
    (auto dest: pst_open_hint pst_checkpoint_hint elim: pst_apply_step)

text \<open>Applying transactions leaves the snapshot file, and so the boundary, alone.\<close>

lemma apply_keeps_boundary:
  assumes "pst_apply p D C w f ps tx = Some (f', ps', r)" "pst_hint ps \<noteq> wal_path (pst_wal ps)"
  shows "last_verified_boundary D SC f' ps' = last_verified_boundary D SC f ps"
proof -
  obtain l where "append_op p D C w f (pst_wal ps) (Wal_Apply tx) = Some (f', l, r)" "pst_hint ps' = pst_hint ps"
    using assms(1) by (rule pst_apply_step)
  then have "f' (pst_hint ps) = f (pst_hint ps)" using append_op_elsewhere assms(2) by blast
  then show ?thesis
    by (simp add: last_verified_boundary_def snapshot_meta_def read_to_string_def \<open>pst_hint ps' = pst_hint ps\<close>)
qed

section \<open>Properties\<close>

text \<open>
  After a checkpoint whose writes succeed, in a run of applies, checkpoints and restarts, the
  boundary is its height, its tip and the root of the acknowledged state; the snapshot file loads to
  that state; and a later apply, acknowledged or failed, does not move the boundary.
\<close>

theorem rollback_to_checkpoint:
  assumes "wal_run p D C SC state_path path n f ps txs" "Suc n < 2 ^ 64"
    and "wal_codec_ok C" "snap_codec_ok SC" "digest32 D" "sha_str D [] = EMPTY_ROOT"
    and "state_path \<noteq> path"
  shows "\<exists>f' ps'. pst_checkpoint p D C SC Written Written f ps h tip state_path = Some (f', ps', Inr ()) \<and>
    last_verified_boundary D SC f' ps' =
      \<lparr>vb_height = h, vb_tip = tip, vb_root = state_root D (apply_all new_store txs)\<rparr> \<and>
    load_snapshot_store D SC f' (pst_hint ps') = Some (Inr (apply_all new_store txs)) \<and>
    (\<forall>w tx f'' ps'' r. pst_apply p D C w f' ps' tx = Some (f'', ps'', r) \<longrightarrow>
       last_verified_boundary D SC f'' ps'' = last_verified_boundary D SC f' ps')"
proof -
  obtain rs where rs: "log_holds D C path n f ps txs rs"
    using wal_run_holds [OF assms(3-7,1)] assms(2) by auto
  then have at: "wal_at D C f (pst_wal ps) rs" "Suc (length rs) < 2 ^ 64" "state_path \<noteq> wal_path (pst_wal ps)"
    and st: "pst_store ps = apply_all new_store txs" and path: "wal_path (pst_wal ps) = path"
    using assms(2,7) by (auto simp: log_holds_def)
  note hint = wal_run_hint [OF assms(1)]
  obtain f' ps' where cp:
    "pst_checkpoint p D C SC Written Written f ps h tip state_path = Some (f', ps', Inr ())"
    "wal_path (pst_wal ps') = path" "pst_hint ps' = state_path"
    "load_snapshot_store D SC f' state_path = Some (Inr (apply_all new_store txs))"
    "snapshot_meta SC f' state_path = Inr (h, tip, state_root D (apply_all new_store txs))"
    by (rule checkpoint_any [OF assms(3,4) at, of p h tip]) (simp add: st hint path)
  moreover have "last_verified_boundary D SC f'' ps'' = last_verified_boundary D SC f' ps'"
    if "pst_apply p D C w f' ps' tx = Some (f'', ps'', r)" for w tx f'' ps'' r
    using apply_keeps_boundary [OF that] cp(2,3) assms(7) by simp
  ultimately show ?thesis by (simp add: last_verified_boundary_def) blast
qed

lemma rollback_to_checkpoint_witness:
  "\<exists>f ps f' ps'. pst_checkpoint Checked demo_digest demo_wal_codec demo_snap_codec Written Written f ps 7 ''tip''
       ''snap'' = Some (f', ps', Inr ()) \<and>
     last_verified_boundary demo_digest demo_snap_codec f' ps' =
       \<lparr>vb_height = 7, vb_tip = ''tip'', vb_root = state_root demo_digest (apply_all new_store [Tx_Set ''a'' ''1''])\<rparr>"
proof -
  obtain f ps rs where run:
    "wal_run Checked demo_digest demo_wal_codec demo_snap_codec ''snap'' ''wal'' 1 f ps [Tx_Set ''a'' ''1'']"
    by (rule demo_run)
  have "Suc 1 < 2 ^ 64" "''snap'' \<noteq> ''wal''" by simp_all
  from rollback_to_checkpoint [OF run this(1) demo_wal_codec_ok demo_snap_codec_ok digest32_demo
      sha_demo_empty this(2), of 7 "''tip''"]
  show ?thesis by blast
qed

text \<open>
  The boundary is not verified. Put any snapshot with a wrong root of at least sixteen characters
  into the snapshot file: loading it fails its verification and the restart rightly rebuilds the
  acknowledged state from the log, but the boundary it then reports is the header of that file.
\<close>

theorem boundary_not_verified:
  assumes "wal_run p D C SC state_path path n f ps txs" "n < 2 ^ 64"
    and "wal_codec_ok C" "snap_codec_ok SC" "digest32 D" "sha_str D [] = EMPTY_ROOT"
    and "state_path \<noteq> path" "utf8_ok raw" "sc_parse SC raw = Some snap"
    and "state_root D (to_store snap) \<noteq> ps_root snap" "ascii (ps_root snap)" "16 \<le> length (ps_root snap)"
  shows "(\<exists>msg. load_snapshot_store D SC (f(state_path \<mapsto> raw)) state_path = Some (Inl (Io_Other msg))) \<and>
    (\<exists>ps'. pst_open p D C SC (f(state_path \<mapsto> raw)) state_path path = Some (f(state_path \<mapsto> raw), Inr ps') \<and>
       pst_store ps' = apply_all new_store txs \<and>
       last_verified_boundary D SC (f(state_path \<mapsto> raw)) ps' =
         \<lparr>vb_height = ps_height snap, vb_tip = ps_tip snap, vb_root = ps_root snap\<rparr>)"
proof -
  let ?f = "f(state_path \<mapsto> raw)"
  obtain rs where rs: "log_holds D C path n f ps txs rs"
    using wal_run_holds [OF assms(3-7,1,2)] by blast
  then have "f path = Some (contents f path)" by (auto simp: log_holds_def wal_at_def contents_def)
  then have same: "f(path \<mapsto> contents f path @ [], state_path := Some raw) = ?f"
    using assms(7) by auto
  have load: "load_snapshot_store D SC ?f state_path =
      Some (Inl (Io_Other (load_verify_msg (take 16 (ps_root snap)))))"
    using assms(8-12) by (simp add: load_snapshot_store_def read_to_string_def Let_def slice_to_ascii)
  then have "snapshot_safe D SC ?f state_path txs" by (simp add: snapshot_safe_def)
  then obtain ps' where ps': "pst_open p D C SC ?f state_path path = Some (?f, Inr ps')"
    "pst_store ps' = apply_all new_store txs"
    using restart_holds [OF assms(3,5-7) rs assms(2), of "[]" SC "Some raw" p] unfolding same by blast
  have "last_verified_boundary D SC ?f ps' =
      \<lparr>vb_height = ps_height snap, vb_tip = ps_tip snap, vb_root = ps_root snap\<rparr>"
    using pst_open_hint [OF ps'(1)] assms(8,9)
    by (simp add: last_verified_boundary_def snapshot_meta_def read_to_string_def)
  with load ps' show ?thesis by blast
qed

definition forged_snapshot :: persisted_snapshot where
  "forged_snapshot = \<lparr>ps_height = 999, ps_tip = ''evil'', ps_root = replicate 64 CHR ''f'', ps_entries = bm_empty\<rparr>"

lemma boundary_not_verified_witness:
  "\<exists>f ps raw ps'. wal_run Checked demo_digest demo_wal_codec demo_snap_codec ''snap'' ''wal'' 1 f ps [Tx_Set ''a'' ''1''] \<and>
     pst_open Checked demo_digest demo_wal_codec demo_snap_codec (f(''snap'' \<mapsto> raw)) ''snap'' ''wal'' =
       Some (f(''snap'' \<mapsto> raw), Inr ps') \<and>
     vb_height (last_verified_boundary demo_digest demo_snap_codec (f(''snap'' \<mapsto> raw)) ps') = 999"
proof -
  obtain f ps rs where run:
    "wal_run Checked demo_digest demo_wal_codec demo_snap_codec ''snap'' ''wal'' 1 f ps [Tx_Set ''a'' ''1'']"
    by (rule demo_run)
  obtain raw where raw: "utf8_ok raw" "sc_parse demo_snap_codec raw = Some forged_snapshot"
    using demo_snap_codec_ok unfolding snap_codec_ok_def by blast
  have "state_root demo_digest (to_store forged_snapshot) = EMPTY_ROOT"
    by (simp add: state_root_def entries_to_store forged_snapshot_def merkle_root_def)
  moreover have "EMPTY_ROOT \<noteq> ps_root forged_snapshot"
    by (simp add: EMPTY_ROOT_def forged_snapshot_def numeral_eq_Suc)
  ultimately have bad: "state_root demo_digest (to_store forged_snapshot) \<noteq> ps_root forged_snapshot"
    "ascii (ps_root forged_snapshot)" "16 \<le> length (ps_root forged_snapshot)"
    by simp_all (simp_all add: forged_snapshot_def ascii_def)
  have "(1 :: nat) < 2 ^ 64" "''snap'' \<noteq> ''wal''" by simp_all
  from boundary_not_verified [OF run this(1) demo_wal_codec_ok demo_snap_codec_ok digest32_demo
      sha_demo_empty this(2) raw bad]
  show ?thesis using run by (fastforce simp: forged_snapshot_def)
qed

end
