(* ===== verification/Secure_Channel.thy ===== *)
theory Secure_Channel imports Transport Peer_Security Demo_Codec begin

text \<open>
  The layers of \<open>kai-os/network/src\<close> put together. The crate leaves that to its clients; the two ends
  here are the two threads of \<open>tcp_secure_session_handshake_over_the_wire\<close> in
  \<open>kai-os/network/tests/tcp_transport.rs\<close>, with any number of messages and every \<open>unwrap\<close>
  a failure: a challenge and its response authenticate the peer, the session signs every payload,
  \<open>serde_json\<close> prints the messages, and frames carry them over TCP. The peers are those of \<open>tcp.rs\<close>; what TCP does to the bytes on the
  way is left open (\<open>carries\<close>).
\<close>

section \<open>The two ends\<close>

text \<open>\<open>serde_json\<close> on the three messages; the code unwraps the result of printing.\<close>

record channel_codec =
  cc_challenge :: "challenge \<Rightarrow> bytes"
  cc_parse_challenge :: "bytes \<Rightarrow> challenge option"
  cc_response :: "challenge_response \<Rightarrow> bytes"
  cc_parse_response :: "bytes \<Rightarrow> challenge_response option"
  cc_envelope :: "signed_envelope \<Rightarrow> bytes"
  cc_parse_envelope :: "bytes \<Rightarrow> signed_envelope option"

definition channel_codec_ok :: "channel_codec \<Rightarrow> bool" where
  "channel_codec_ok C \<longleftrightarrow>
     (\<forall>c. cc_parse_challenge C (cc_challenge C c) = Some c) \<and>
     (\<forall>r. cc_parse_response C (cc_response C r) = Some r) \<and>
     (\<forall>m. cc_parse_envelope C (cc_envelope C m) = Some m)"

datatype channel_failure = Lost tcp_error | Unreadable | Not_Authentic auth_error

text \<open>The challenged end: receive the challenge, answer it, start the session it numbers.\<close>

definition accept_channel ::
  "sig_scheme \<Rightarrow> digest \<Rightarrow> channel_codec \<Rightarrow> keypair \<Rightarrow> bytes \<Rightarrow> tcp_peer \<Rightarrow>
   tcp_peer \<times> (channel_failure + secure_session)" where
  "accept_channel G D C key remote_public q =
     (case peer_receive q of
        (q1, Inl e) \<Rightarrow> (q1, Inl (Lost e))
      | (q1, Inr b) \<Rightarrow>
          (case cc_parse_challenge C b of
             None \<Rightarrow> (q1, Inl Unreadable)
           | Some c \<Rightarrow>
               (case tcp_send None q1 (cc_response C (respond G D c key)) of
                  (q2, Inl e) \<Rightarrow> (q2, Inl (Lost e))
                | (q2, Inr _) \<Rightarrow>
                    (q2, Inr (new_session (session_id D (ch_from c) (ch_to c) (ch_nonce c))
                       (ch_to c) (ch_from c) remote_public)))))"

text \<open>The challenging end, after it has sent the challenge.\<close>

definition confirm_channel ::
  "sig_scheme \<Rightarrow> digest \<Rightarrow> channel_codec \<Rightarrow> auth_registry \<Rightarrow> challenge \<Rightarrow> bytes \<Rightarrow> tcp_peer \<Rightarrow>
   tcp_peer \<times> auth_registry \<times> (channel_failure + secure_session)" where
  "confirm_channel G D C r c remote_public q =
     (case peer_receive q of
        (q1, Inl e) \<Rightarrow> (q1, r, Inl (Lost e))
      | (q1, Inr b) \<Rightarrow>
          (case cc_parse_response C b of
             None \<Rightarrow> (q1, r, Inl Unreadable)
           | Some resp \<Rightarrow>
               (case auth_verify G D r (c, resp, remote_public) of
                  (r', Inl e) \<Rightarrow> (q1, r', Inl (Not_Authentic e))
                | (r', Inr _) \<Rightarrow>
                    (q1, r', Inr (new_session (session_id D (ch_from c) (ch_to c) (ch_nonce c))
                       (ch_from c) (ch_to c) remote_public)))))"

text \<open>Receiving: what each of the next \<open>n\<close> frames turns into.\<close>

datatype channel_event = Transport_Failed tcp_error | Garbled | Answer "session_error + bytes"

fun channel_receive ::
  "sig_scheme \<Rightarrow> digest \<Rightarrow> channel_codec \<Rightarrow> nat \<Rightarrow> tcp_peer \<Rightarrow> secure_session \<Rightarrow>
   tcp_peer \<times> secure_session \<times> channel_event list" where
  "channel_receive G D C 0 q s = (q, s, [])"
| "channel_receive G D C (Suc n) q s =
     (case peer_receive q of
        (q1, Inl e) \<Rightarrow> map_prod id (map_prod id ((#) (Transport_Failed e))) (channel_receive G D C n q1 s)
      | (q1, Inr b) \<Rightarrow>
          (case cc_parse_envelope C b of
             None \<Rightarrow> map_prod id (map_prod id ((#) Garbled)) (channel_receive G D C n q1 s)
           | Some m \<Rightarrow>
               (case session_receive G D s m of
                  (s', r) \<Rightarrow> map_prod id (map_prod id ((#) (Answer r))) (channel_receive G D C n q1 s'))))"

section \<open>Bytes in flight\<close>

text \<open>
  What a peer has in its buffer and is still going to read, up to an end of the stream or an error;
  the reads may cut the bytes anywhere.
\<close>

definition carries :: "tcp_peer \<Rightarrow> bytes \<Rightarrow> bool" where
  "carries q bs \<longleftrightarrow>
     (\<exists>cs later. tp_reads q = map Read cs @ later \<and> [] \<notin> set cs \<and> tp_buf q @ concat cs = bs)"

lemma peer_receive_next:
  assumes "carries q (frame m @ rest)" "length m \<le> MAX_FRAME"
  obtains q' where "peer_receive q = (q', Inr m)" "carries q' rest" "tp_sent q' = tp_sent q"
proof -
  obtain cs later where q: "tp_reads q = map Read cs @ later" "[] \<notin> set cs"
    "tp_buf q @ concat cs = frame m @ rest"
    using assms(1) by (auto simp: carries_def)
  obtain buf cs' where step:
    "tcp_receive (tp_buf q) (map Read cs @ later @ [Read_Error]) = Some (buf, map Read cs' @ later @ [Read_Error], Inr m)"
    "buf @ concat cs' = rest" "[] \<notin> set cs'"
    using tcp_receive_frame [OF q(3) assms(2) q(2)] by blast
  then have "peer_receive q = (q\<lparr>tp_buf := buf, tp_reads := map Read cs' @ later @ [Read_Error]\<rparr>, Inr m)"
    by (simp add: peer_receive_def q(1))
  moreover have "carries (q\<lparr>tp_buf := buf, tp_reads := map Read cs' @ later @ [Read_Error]\<rparr>) rest"
    using step(2,3) by (auto simp: carries_def)
  ultimately show thesis by (rule that) simp
qed

lemma accept_channel_ok:
  assumes "channel_codec_ok C" "carries q (frame (cc_challenge C c) @ rest)"
    and "length (cc_challenge C c) \<le> MAX_FRAME"
  obtains q' where
    "accept_channel G D C key pk q =
       (q', Inr (new_session (session_id D (ch_from c) (ch_to c) (ch_nonce c)) (ch_to c) (ch_from c) pk))"
    "carries q' rest" "tp_sent q' = tp_sent q @ frame (cc_response C (respond G D c key))"
proof -
  obtain q1 where q1: "peer_receive q = (q1, Inr (cc_challenge C c))" "carries q1 rest" "tp_sent q1 = tp_sent q"
    using peer_receive_next [OF assms(2,3)] .
  let ?q = "q1\<lparr>tp_sent := tp_sent q1 @ frame (cc_response C (respond G D c key))\<rparr>"
  show thesis
    by (rule that [of ?q])
      (use q1 assms(1) in \<open>simp_all add: accept_channel_def channel_codec_ok_def tcp_send_def Let_def carries_def\<close>)
qed

lemma auth_verify_honest:
  assumes "sg_ok G" "length (kp_seed k) = 32" "last_nonce_of r (ch_to c) < ch_nonce c"
  shows "auth_verify G D r (c, respond G D c k, public_bytes G k) =
    (r\<lparr>ar_last := (ar_last r)(ch_to c \<mapsto> ch_nonce c)\<rparr>, Inr ())"
  using assms
  by (auto simp: auth_verify_def respond_def Let_def sg_ok_def kp_sign_def public_bytes_def verify_signature_def)

lemma confirm_channel_ok:
  assumes "sg_ok G" "length (kp_seed k) = 32" "channel_codec_ok C" "last_nonce_of r (ch_to c) < ch_nonce c"
    and "carries q (frame (cc_response C (respond G D c k)) @ rest)"
    and "length (cc_response C (respond G D c k)) \<le> MAX_FRAME"
  obtains q' where
    "confirm_channel G D C r c (public_bytes G k) q =
       (q', r\<lparr>ar_last := (ar_last r)(ch_to c \<mapsto> ch_nonce c)\<rparr>,
        Inr (new_session (session_id D (ch_from c) (ch_to c) (ch_nonce c)) (ch_from c) (ch_to c) (public_bytes G k)))"
    "carries q' rest"
proof -
  obtain q1 where "peer_receive q = (q1, Inr (cc_response C (respond G D c k)))" "carries q1 rest"
    using peer_receive_next [OF assms(5,6)] .
  then show thesis
    using assms(3) auth_verify_honest [OF assms(1,2,4), of D]
    by (intro that [of q1]) (simp_all add: confirm_channel_def channel_codec_ok_def)
qed

lemma channel_receive_frames:
  assumes "channel_codec_ok C"
  shows "carries q (concat (map (\<lambda>m. frame (cc_envelope C m)) ms) @ rest) \<Longrightarrow>
    \<forall>m \<in> set ms. length (cc_envelope C m) \<le> MAX_FRAME \<Longrightarrow>
    \<exists>q' s'. channel_receive G D C (length ms) q s =
      (q', s', map Answer (outcomes (session_receive G D) s ms)) \<and> carries q' rest"
proof (induction ms arbitrary: q s)
  case (Cons m ms)
  obtain q1 where q1: "peer_receive q = (q1, Inr (cc_envelope C m))"
    "carries q1 (concat (map (\<lambda>m. frame (cc_envelope C m)) ms) @ rest)"
    using peer_receive_next [of q "cc_envelope C m" "concat (map (\<lambda>m. frame (cc_envelope C m)) ms) @ rest"]
      Cons.prems by auto
  obtain s1 r where s1: "session_receive G D s m = (s1, r)" by (cases "session_receive G D s m")
  from Cons.IH [OF q1(2), of s1] Cons.prems(2) q1(1) s1 assms show ?case
    by (auto simp: channel_codec_ok_def)
qed simp

section \<open>Properties\<close>

text \<open>
  C21: The layers compose. The challenge, its response and the signed messages go over TCP as frames
  that may be cut anywhere, and whatever follows them. If the nonce is new to the registry, the keys
  belong to the ends and every message fits a frame, then the challenged end answers and starts the
  session, the challenging end accepts the answer and starts the matching session, sending any
  payloads succeeds, and the receiver hands out exactly the payloads sent, in order.
\<close>

theorem secure_channel_end_to_end:
  assumes "sg_ok G" "length (kp_seed ka) = 32" "length (kp_seed kb) = 32" "channel_codec_ok C"
    and "next_challenge p gen (peer_id_of G ka) (peer_id_of G kb) = Some (gen', c)"
    and "last_nonce_of reg (peer_id_of G kb) < ch_nonce c"
    and "sid = session_id D (peer_id_of G ka) (peer_id_of G kb) (ch_nonce c)"
    and "send_all p G D (new_session sid (peer_id_of G ka) (peer_id_of G kb) (public_bytes G kb)) ka xs =
           Some (sa, sent)" "Suc (length xs) < 2 ^ 64"
    and "carries qb (frame (cc_challenge C c) @ concat (map (\<lambda>m. frame (cc_envelope C m)) sent) @ rest_b)"
    and "carries qa (frame (cc_response C (respond G D c kb)) @ rest_a)"
    and "length (cc_challenge C c) \<le> MAX_FRAME" "length (cc_response C (respond G D c kb)) \<le> MAX_FRAME"
    and "\<forall>m \<in> set sent. length (cc_envelope C m) \<le> MAX_FRAME"
  shows "\<exists>qb1 sb qa1 reg' qb2 sb2.
    accept_channel G D C kb (public_bytes G ka) qb = (qb1, Inr sb) \<and>
    tp_sent qb1 = tp_sent qb @ frame (cc_response C (respond G D c kb)) \<and>
    confirm_channel G D C reg c (public_bytes G kb) qa =
      (qa1, reg', Inr (new_session sid (peer_id_of G ka) (peer_id_of G kb) (public_bytes G kb))) \<and>
    last_nonce_of reg' (peer_id_of G kb) = ch_nonce c \<and>
    channel_receive G D C (length xs) qb1 sb = (qb2, sb2, map (\<lambda>x. Answer (Inr x)) xs) \<and>
    carries qb2 rest_b"
proof -
  have c: "ch_from c = peer_id_of G ka" "ch_to c = peer_id_of G kb"
    using assms(5) by (auto simp: next_challenge_def bind_eq_Some_conv)
  let ?s = "new_session sid (peer_id_of G ka) (peer_id_of G kb) (public_bytes G kb)"
  let ?sb = "new_session sid (peer_id_of G kb) (peer_id_of G ka) (public_bytes G ka)"
  obtain sa' sent' where s: "send_all p G D ?s ka xs = Some (sa', sent')"
    "map (\<lambda>m. en_payload (se_envelope m)) sent' = xs" "\<forall>m \<in> set sent'. honest G D ka sid m"
    "map (\<lambda>m. en_seq (se_envelope m)) sent' = map of_nat [1 ..< 1 + length xs]"
    using send_all_honest [of ?s 1 xs p G D ka] assms(9) by (auto simp: new_session_def)
  then have sent: "sent' = sent" "length sent = length xs" using assms(8) by auto
  have seqs: "\<forall>q \<in> set (map of_nat [1 ..< 1 + length xs]). (0 :: u64) < q"
    using assms(9) by (auto simp: word_less_nat_alt unat_of_nat)
  have "outcomes (session_receive G D) ?sb sent = map (\<lambda>m. Inr (en_payload (se_envelope m))) sent"
  proof (rule receive_all_honest [OF assms(1,2)])
    show "sorted_wrt (<) (map (\<lambda>m. en_seq (se_envelope m)) sent)"
      unfolding s(4) [unfolded sent] using assms(9) by (intro sorted_seqs) simp
    have "\<forall>q \<in> set (map (\<lambda>m. en_seq (se_envelope m)) sent). 0 < q"
      unfolding s(4) [unfolded sent] by (rule seqs)
    then show "\<forall>m \<in> set sent. ss_last_remote ?sb < en_seq (se_envelope m)" by (simp add: new_session_def)
  qed (use s(3) sent in \<open>simp_all add: new_session_def\<close>)
  then have out: "map Answer (outcomes (session_receive G D) ?sb sent) = map (\<lambda>x. Answer (Inr x)) xs"
    using s(2) by (simp add: sent(1) comp_def flip: s(2))
  obtain qb1 where qb1: "accept_channel G D C kb (public_bytes G ka) qb = (qb1, Inr ?sb)"
    "carries qb1 (concat (map (\<lambda>m. frame (cc_envelope C m)) sent) @ rest_b)"
    "tp_sent qb1 = tp_sent qb @ frame (cc_response C (respond G D c kb))"
    using accept_channel_ok [OF assms(4,10,12), of G D kb "public_bytes G ka"] by (auto simp: c assms(7))
  obtain qa1 where qa1: "confirm_channel G D C reg c (public_bytes G kb) qa =
      (qa1, reg\<lparr>ar_last := (ar_last reg)(ch_to c \<mapsto> ch_nonce c)\<rparr>, Inr ?s)"
    using confirm_channel_ok [OF assms(1,3,4) _ assms(11,13)] assms(6) by (auto simp: c assms(7))
  obtain qb2 sb2 where "channel_receive G D C (length sent) qb1 ?sb =
      (qb2, sb2, map Answer (outcomes (session_receive G D) ?sb sent))" "carries qb2 rest_b"
    using channel_receive_frames [OF assms(4) qb1(2) assms(14)] by blast
  then show ?thesis
    using qb1 qa1 unfolding out sent(2) by (auto simp: last_nonce_of_def c)
qed

definition demo_channel_codec :: channel_codec where
  "demo_channel_codec =
     \<lparr>cc_challenge = \<lambda>c. as_bytes (pack [ch_from c, ch_to c, show_word (ch_nonce c)]),
      cc_parse_challenge = \<lambda>b. (case unpack (of_bytes b) of
          Some [a, b, n] \<Rightarrow> map_option (\<lambda>n. \<lparr>ch_from = a, ch_to = b, ch_nonce = n\<rparr>) (parse_word n)
        | _ \<Rightarrow> None),
      cc_response = \<lambda>r. as_bytes (pack [cr_from r, cr_to r, show_word (cr_nonce r), of_bytes (cr_signature r)]),
      cc_parse_response = \<lambda>b. (case unpack (of_bytes b) of
          Some [a, b, n, s] \<Rightarrow>
            map_option (\<lambda>n. \<lparr>cr_from = a, cr_to = b, cr_nonce = n, cr_signature = as_bytes s\<rparr>) (parse_word n)
        | _ \<Rightarrow> None),
      cc_envelope = \<lambda>m. as_bytes (pack [en_session (se_envelope m), show_word (en_seq (se_envelope m)),
          en_from (se_envelope m), of_bytes (en_payload (se_envelope m)), of_bytes (se_signature m)]),
      cc_parse_envelope = \<lambda>b. (case unpack (of_bytes b) of
          Some [i, n, a, x, s] \<Rightarrow>
            map_option (\<lambda>n. \<lparr>se_envelope = \<lparr>en_session = i, en_seq = n, en_from = a, en_payload = as_bytes x\<rparr>,
              se_signature = as_bytes s\<rparr>) (parse_word n)
        | _ \<Rightarrow> None)\<rparr>"

lemma demo_channel_codec_ok: "channel_codec_ok demo_channel_codec"
  by (auto simp: channel_codec_ok_def demo_channel_codec_def)

text \<open>Alice, Bob, and one message, read by Bob one byte at a time.\<close>

definition alice :: string where "alice = peer_id_of demo_sig demo_key"

definition bob_key :: keypair where "bob_key = \<lparr>kp_seed = replicate 32 9\<rparr>"

definition bob :: string where "bob = peer_id_of demo_sig bob_key"

definition alice_challenge :: challenge where
  "alice_challenge = \<lparr>ch_from = alice, ch_to = bob, ch_nonce = 1\<rparr>"

definition alice_message :: signed_envelope where
  "alice_message =
     (let env = \<lparr>en_session = session_id demo_digest alice bob 1, en_seq = 1, en_from = alice, en_payload = [1]\<rparr>
      in \<lparr>se_envelope = env, se_signature = kp_sign demo_sig demo_key (envelope_bytes demo_digest env)\<rparr>)"

definition byte_wise :: "bytes \<Rightarrow> tcp_peer" where
  "byte_wise bs = from_stream (map (\<lambda>b. Read [b]) bs)"

lemma carries_byte_wise: "carries (byte_wise bs) bs"
  unfolding carries_def byte_wise_def from_stream_def
  by (intro exI [of _ "map (\<lambda>b. [b]) bs"] exI [of _ "[]"]) (auto simp: comp_def)

lemma demo_lengths: "length (public_bytes demo_sig demo_key) = 32" "length (public_bytes demo_sig bob_key) = 32"
  "length (kp_sign demo_sig k m) = 64" "length alice = 64" "length bob = 64"
  "length (session_id demo_digest a b n) = 64"
  using digest32_demo
  by (simp_all add: public_bytes_def demo_sig_def demo_key_def bob_key_def kp_sign_def Let_def alice_def bob_def
      peer_id_of_def session_id_def digest32_def)

lemma demo_channel_sizes:
  "length (cc_challenge demo_channel_codec alice_challenge) \<le> MAX_FRAME"
  "length (cc_response demo_channel_codec (respond demo_sig demo_digest alice_challenge bob_key)) \<le> MAX_FRAME"
  "length (cc_envelope demo_channel_codec alice_message) \<le> MAX_FRAME"
proof -
  have short: "length (as_bytes (pack fs)) \<le> MAX_FRAME" if "sum_list (map (\<lambda>f. 2 * length f + 1) fs) \<le> 1000" for fs
    using length_pack [of fs] that by (simp add: as_bytes_def MAX_FRAME_def)
  have one: "length (show_word (1 :: u64)) = 1"
    unfolding show_word_def by (subst show_nat.simps) simp
  show "length (cc_challenge demo_channel_codec alice_challenge) \<le> MAX_FRAME"
    unfolding demo_channel_codec_def channel_codec.simps
    by (rule short) (simp add: alice_challenge_def demo_lengths one)
  show "length (cc_response demo_channel_codec (respond demo_sig demo_digest alice_challenge bob_key)) \<le> MAX_FRAME"
    unfolding demo_channel_codec_def channel_codec.simps
    by (rule short) (simp add: alice_challenge_def respond_def demo_lengths one of_bytes_def)
  show "length (cc_envelope demo_channel_codec alice_message) \<le> MAX_FRAME"
    unfolding demo_channel_codec_def channel_codec.simps
    by (rule short) (simp add: alice_message_def Let_def demo_lengths one of_bytes_def)
qed

lemma secure_channel_end_to_end_witness:
  "\<exists>qb1 sb qa1 reg' qb2 sb2.
    accept_channel demo_sig demo_digest demo_channel_codec bob_key (public_bytes demo_sig demo_key)
      (byte_wise (frame (cc_challenge demo_channel_codec alice_challenge) @
         frame (cc_envelope demo_channel_codec alice_message) @ [0])) = (qb1, Inr sb) \<and>
    confirm_channel demo_sig demo_digest demo_channel_codec new_registry alice_challenge
      (public_bytes demo_sig bob_key)
      (byte_wise (frame (cc_response demo_channel_codec
         (respond demo_sig demo_digest alice_challenge bob_key)))) =
      (qa1, reg', Inr (new_session (session_id demo_digest alice bob 1) alice bob (public_bytes demo_sig bob_key))) \<and>
    channel_receive demo_sig demo_digest demo_channel_codec 1 qb1 sb = (qb2, sb2, [Answer (Inr [1])])"
proof -
  have ch: "next_challenge Checked new_generator alice bob = Some (\<lparr>cg_last = 1\<rparr>, alice_challenge)"
    by (simp add: next_challenge_def new_generator_def alice_challenge_def add_ov_def)
  have new: "last_nonce_of new_registry bob < ch_nonce alice_challenge"
    by (simp add: last_nonce_of_def new_registry_def alice_challenge_def)
  let ?s = "new_session (session_id demo_digest alice bob 1) alice bob (public_bytes demo_sig bob_key)"
  have sent: "send_all Checked demo_sig demo_digest ?s demo_key [[1]] =
      Some (?s\<lparr>ss_next_local := 2\<rparr>, [alice_message])"
    by (simp add: session_send_def new_session_def add_ov_def alice_message_def Let_def)
  have "Suc (length [[1 :: u8]]) < 2 ^ 64" "length (kp_seed bob_key) = 32"
    "session_id demo_digest alice bob 1 = session_id demo_digest alice bob (ch_nonce alice_challenge)"
    by (simp_all add: bob_key_def alice_challenge_def)
  note result = secure_channel_end_to_end [OF demo_sig_ok length_demo_key this(2) demo_channel_codec_ok
      ch [unfolded alice_def bob_def] new [unfolded bob_def] this(3) [unfolded alice_def bob_def]
      sent [unfolded alice_def bob_def] this(1), folded alice_def bob_def]
  show ?thesis
    using result [where rest_b = "[0]" and rest_a = "[]", OF _ _ demo_channel_sizes(1,2)]
      demo_channel_sizes(3) carries_byte_wise by fastforce
qed

end
