(* ===== verification/Node_Texts.thy ===== *)
theory Node_Texts imports Messages Models Node_Main Sync_Node begin

text \<open>
  What the two daemons print: the \<open>Display\<close> texts of \<open>node/src\<close>, \<open>syncd/src/lib.rs\<close> and
  \<open>ai/src/model_registry.rs\<close>, the lines of \<open>kai-sync-node\<close> on its standard output, and what \<open>kai-os-node\<close>
  says when it refuses to boot. Texts of the operating system and of \<open>serde_json\<close> are parameters.
\<close>

section \<open>Errors and states\<close>

text \<open>The derived \<open>Debug\<close>, which \<open>Display\<close> uses.\<close>

fun show_health :: "health \<Rightarrow> string" where
  "show_health Healthy = ''Healthy''"
| "show_health Degraded = ''Degraded''"
| "show_health Unhealthy = ''Unhealthy''"

text \<open>\<open>io\<close> prints the error of the file, \<open>js\<close> is the text of the parser's error.\<close>

fun show_config_error :: "(io_error \<Rightarrow> string) \<Rightarrow> string \<Rightarrow> config_error \<Rightarrow> string" where
  "show_config_error io js (Cfg_Read e) = ''config read failed: '' @ io e"
| "show_config_error io js Cfg_Parse = ''config parse failed: '' @ js"
| "show_config_error io js (Cfg_Validation e) = ''config validation failed: '' @ e"

definition show_subsystem_error :: "string \<Rightarrow> string" where
  "show_subsystem_error e = ''subsystem error: '' @ e"

definition show_model_version :: "model_version \<Rightarrow> string" where
  "show_model_version v =
     show_word (major v) @ ''.'' @ show_word (minor v) @ ''.'' @ show_word (patch v)"

text \<open>\<open>SyncError::Io\<close> prints the error it wraps (\<open>io\<close>), \<open>SyncError::Tcp\<close> that of the transport.\<close>

fun show_syncd_error :: "(wal_error \<Rightarrow> string) \<Rightarrow> string \<Rightarrow> syncd_error \<Rightarrow> string" where
  "show_syncd_error io os (Sy_Io e) = ''io: '' @ io e"
| "show_syncd_error io os (Sy_Tcp e) = ''tcp: '' @ show_tcp_error os e"
| "show_syncd_error io os (Sy_Root_Mismatch declared computed) =
     ''root-mismatch: deklariert '' @ declared @ '', berechnet '' @ computed @ '' '' @ em_dash @ '' abgewiesen''"
| "show_syncd_error io os (Sy_Ack_Mismatch expected got) =
     ''ack-mismatch: erwartet '' @ expected @ '', erhalten '' @ got"

text \<open>\<open>ShutdownReport::to_json\<close>, with \<open>unwrap_or_default\<close> on the result of the printer.\<close>

definition report_to_json :: "(shutdown_report \<Rightarrow> string option) \<Rightarrow> shutdown_report \<Rightarrow> string" where
  "report_to_json print_report r = (case print_report r of None \<Rightarrow> [] | Some s \<Rightarrow> s)"

section \<open>The output of \<open>kai-sync-node\<close>\<close>

fun node_line_text :: "(wal_error \<Rightarrow> string) \<Rightarrow> string \<Rightarrow> node_line \<Rightarrow> string" where
  "node_line_text io os (Boot_Failed e) = ''BOOT-FAILED '' @ io e"
| "node_line_text io os Bind_Failed = ''BOOT-FAILED '' @ os"
| "node_line_text io os (Applied root) = ''APPLIED '' @ root"
| "node_line_text io os No_Peer = ''SYNC-FAILED kein --peer''"
| "node_line_text io os (Sync_Failed i e) =
     ''SYNC-FAILED versuch-'' @ show_nat i @ '': '' @ show_syncd_error io os e"
| "node_line_text io os (Connect_Failed i) =
     ''SYNC-FAILED connect-'' @ show_nat i @ '': '' @ show_tcp_error os Tcp_Io"
| "node_line_text io os (Sync_Ok root) = ''SYNC-OK '' @ root"
| "node_line_text io os (Listen addr) = ''LISTEN '' @ addr"
| "node_line_text io os (Verify_Failed e) = ''VERIFY-FAILED '' @ show_syncd_error io os e"
| "node_line_text io os Usage =
     ''USAGE --role source|sink --dir <d> [--peer a] [--addr a] [--apply n] [--retries r] [--delay-ms ms]''"

text \<open>\<open>say\<close>: a line and its end, flushed, so that a reader of the pipe sees every line.\<close>

definition say :: "string \<Rightarrow> string \<Rightarrow> string" where
  "say out line = out @ line @ newline"

definition sync_node_output :: "(wal_error \<Rightarrow> string) \<Rightarrow> string \<Rightarrow> node_line list \<Rightarrow> string" where
  "sync_node_output io os ls = foldl (\<lambda>out l. say out (node_line_text io os l)) [] ls"

section \<open>Refusals of \<open>kai-os-node\<close>\<close>

definition root_refusal :: string where
  "root_refusal =
     ''REFUSING BOOT: running as root (euid=0) and allow_root=false (fail-closed, KAI-CORE-RUNTIME-001 '' @
     [CHR 0xC2, CHR 0xA7] @ ''3)''"

text \<open>The line on the standard error when one of the three checks of \<open>run\<close> fails.\<close>

definition node_refusal ::
  "(io_error \<Rightarrow> string) \<Rightarrow> string \<Rightarrow> (string \<Rightarrow> node_config option) \<Rightarrow> fs \<Rightarrow> string \<Rightarrow> u32 \<Rightarrow> bool \<Rightarrow> string option" where
  "node_refusal io os parse f path euid mkdir_ok =
     (case cfg_from_file parse f path of
        Inl e \<Rightarrow> Some (''[kai-os-node] BOOT REFUSED: '' @ show_config_error io os e)
      | Inr c \<Rightarrow>
          if \<not> ensure_not_root (allow_root c) euid then Some (''[kai-os-node] '' @ root_refusal)
          else if \<not> mkdir_ok then Some (''[kai-os-node] audit init failed: '' @ os)
          else None)"

section \<open>Properties\<close>

text \<open>
  The tests and the operators read the outcome of a sync off the output. The first words tell the
  lines apart: two outputs agree on which lines report success and with which root, whatever the
  texts of the errors are, because no error text starts like a success.
\<close>

definition ok_root :: "string \<Rightarrow> string option" where
  "ok_root line = (if take 8 line = ''SYNC-OK '' then Some (drop 8 line) else None)"

theorem sync_ok_is_unmistakable:
  "ok_root (node_line_text io os l) = (case l of Sync_Ok root \<Rightarrow> Some root | _ \<Rightarrow> None)"
  by (cases l) (simp_all add: ok_root_def)

lemma sync_node_output_snoc:
  "sync_node_output io os (ls @ [l]) = sync_node_output io os ls @ node_line_text io os l @ newline"
  by (simp add: sync_node_output_def say_def)

text \<open>The output is the lines: it can be cut into them again, if no text of an error breaks a line.\<close>

theorem sync_node_output_lines:
  assumes "\<And>l. l \<in> set ls \<Longrightarrow> is_line (node_line_text io os l)"
  shows "buf_lines (sync_node_output io os ls) = map (node_line_text io os) ls"
proof -
  have "sync_node_output io os ls = unlines (map (node_line_text io os) ls) @ []"
    by (induction ls rule: rev_induct) (simp_all add: sync_node_output_snoc, simp add: sync_node_output_def)
  moreover have "\<forall>l \<in> set (map (node_line_text io os) ls). is_line l" using assms by auto
  ultimately show ?thesis using buf_lines_unlines [of "map (node_line_text io os) ls" "[]"] by simp
qed

text \<open>The daemon refuses aloud: it ends with code 2 before anything is set up exactly when it prints why.\<close>

theorem node_refuses_aloud:
  "node_refusal io os parse f path euid mkdir_ok \<noteq> None \<longleftrightarrow>
     node_main p D pr parse rj f path euid mkdir_ok handler_ok outs n = Some (Inl 2)"
proof (cases "cfg_from_file parse f path")
  case (Inr c)
  show ?thesis
    using Inr by (simp add: node_refusal_def node_main_def to_file_def)
qed (simp add: node_refusal_def node_main_def)

end
