(* ===== verification/Spec2Isabelle.thy ===== *)
theory Spec2Isabelle
  imports Sync_Engine Persistence Wal_Recovery Transport Peer_Security Peers Lifecycle Node_Audit
    Supervisor Node_Main Runtime Gossip Lockfile Model_Cache Sync_Convergence Integration Cli
    Snapshot_Sync Rollback_Boundary Secure_Channel Node_Texts
begin

text \<open>
  A verification development of KAI-OS, the Rust crates under \<open>src/kai-os\<close>.

  \<^bold>\<open>The program.\<close> KAI-OS is a node: a daemon that supervises subsystems (\<open>node\<close>); a key-value state
  with Merkle roots, snapshots, block synchronisation and a write-ahead log (\<open>state\<close>); peers that
  authenticate, frame and sign messages (\<open>network\<close>); a daemon that transfers a state to another node
  (\<open>syncd\<close>); sandboxes with capabilities and quotas (\<open>runtime\<close>); a watchdog and health gossip
  (\<open>health\<close>); a keyring (\<open>keyring\<close>); a package manager (\<open>pkg\<close>); a gateway, proposals and a model
  registry for AI agents (\<open>ai\<close>); the boot pipeline that composes them (\<open>integration\<close>); a command line
  (\<open>cli\<close>). The crates are libraries of state machines: operations on a struct that return a result.
  They interact by calls, by files and by messages, and all are deterministic by design.

  \<^bold>\<open>How the code is modelled.\<close> A struct is a record with a prefix of its own, an enum a datatype, an
  operation a function from the old state to the new state and the result; the constants keep the
  names of the functions where HOL leaves them free. \<open>u64\<close> and the like are words. A result type is
  \<open>error + value\<close>. Where Rust can panic, the result is an \<open>option\<close> and \<open>None\<close> is the panic: the profile
  parameter \<open>p\<close> says whether the build checks additions for overflow (\<open>Checked\<close>, a panic) or wraps
  (\<open>Wrapping\<close>), and a theorem over a variable \<open>p\<close> holds for both. Strings are byte strings, \<open>usize\<close>
  and lengths of vectors are natural numbers. \<open>BTreeMap\<close> is the ordered finite map \<open>bmap\<close>; a \<open>HashMap\<close>
  is a partial function, and where the code iterates over one the order is a parameter.

  \<^bold>\<open>Parameters.\<close> Code that is not in the repository is an argument: SHA-256 (\<open>D\<close>, with \<open>digest32\<close> for its
  length and \<open>collision_free\<close> for the absence of a collision among the strings named), Ed25519
  (\<open>G\<close>, with \<open>sg_ok\<close>), \<open>serde_json\<close> (a printer and a parser per type, with \<open>..._codec_ok\<close> for the round
  trip), what \<open>read\<close> and \<open>write\<close> of the operating system return (lists of reads, outcomes of writes),
  the clock and the signal handler. Each assumption has a concrete instance (\<open>demo_digest\<close>,
  \<open>demo_sig\<close>, the codecs over \<open>Demo_Codec\<close>) that the closed examples use.
\<close>

text \<open>
  \<^bold>\<open>The theories.\<close> Paths are relative to \<open>src/kai-os\<close>.

  Shared: \<open>Prelude\<close> (profiles, bytes, printing and parsing of numbers, digests, UTF-8; the collection
  \<open>print_simps\<close>), \<open>BTree_Map\<close> (the ordered map and the interface \<open>finite_map\<close>), \<open>Files\<close> (the file system,
  outcomes of writes, lines), \<open>Hash_Chain\<close> (the interface \<open>hash_chain\<close> of the four chained logs),
  \<open>Replay_Guard\<close> (the interface \<open>replay_guard\<close> of authentication, sessions and the agent gateway),
  \<open>Publish_Once\<close> (the interfaces \<open>publish_once\<close> and \<open>version_registry\<close> of the two registries),
  \<open>Demo_Codec\<close> (the codec of the examples), \<open>Messages\<close> (the texts of the errors).

  State (\<open>state/src\<close>): \<open>Merkle\<close> (\<open>merkle.rs\<close>: trees, proofs, what a root commits to), \<open>State_Store\<close>
  (\<open>state.rs\<close>, \<open>snapshot.rs\<close>), \<open>Sync_Engine\<close> (\<open>sync.rs\<close>: blocks, refined by a chain of valid blocks),
  \<open>Snapshot_Sync\<close> (\<open>sync.rs\<close>: \<open>SyncEngine::new\<close> on the state of a snapshot), \<open>Persistence\<close> (\<open>persistence.rs\<close>:
  snapshot files), \<open>Wal\<close> and \<open>Wal_Recovery\<close> (\<open>wal.rs\<close>: the log, recovery, runs with crashes),
  \<open>Rollback_Boundary\<close> (\<open>wal.rs\<close>: rollback to checkpoints).

  Network (\<open>network/src\<close>): \<open>Transport\<close> (\<open>transport.rs\<close>, \<open>tcp.rs\<close>), \<open>Peer_Security\<close> (\<open>peer.rs\<close>, \<open>auth.rs\<close>,
  \<open>session.rs\<close>), \<open>Secure_Channel\<close> (both together: two peers from the connection to the payload, composed as
  \<open>tests/tcp_transport.rs\<close> does), \<open>Peers\<close> (\<open>peer.rs\<close>, \<open>discovery.rs\<close>, \<open>upgrade.rs\<close>). State transfer
  (\<open>syncd/src\<close>): \<open>Syncd\<close> (\<open>lib.rs\<close>), \<open>Sync_Node\<close> (\<open>bin/kai-sync-node.rs\<close>; the result of a program holds the
  bytes it wrote to each connection), \<open>Sync_Convergence\<close> (what both ends promise when each reads what
  the other one wrote, over \<open>Wal_Recovery\<close> and \<open>Transport\<close>).

  Node (\<open>node/src\<close>): \<open>Lifecycle\<close> (\<open>lifecycle.rs\<close>, \<open>health.rs\<close>), \<open>Node_Audit\<close> (\<open>audit.rs\<close>), \<open>Supervisor\<close>
  (\<open>supervisor.rs\<close>, \<open>shutdown.rs\<close>; a \<open>Box<dyn Subsystem>\<close> is the interface \<open>subsystem\<close>, interpreted on the
  stub of the source), \<open>Node_Main\<close> (\<open>config.rs\<close>, \<open>lib.rs\<close>, \<open>main.rs\<close>: boot, loop and exit of the daemon), \<open>Node_Texts\<close> (what
  the daemons and the sync node print, errors of configuration and subsystems included).

  Runtime, health and keys: \<open>Runtime\<close> (\<open>runtime/src\<close>), \<open>Watchdog\<close> and \<open>Gossip\<close> (\<open>health/src\<close>), \<open>Keyring\<close>
  (\<open>keyring/src/keyring.rs\<close>). Packages (\<open>pkg/src\<close>): \<open>Semver\<close> (\<open>version.rs\<close>), \<open>Packages\<close> (\<open>manifest.rs\<close>,
  \<open>registry.rs\<close>), \<open>Lockfile\<close> (\<open>lockfile.rs\<close>). AI (\<open>ai/src\<close>): \<open>Models\<close> (\<open>model_registry.rs\<close>), \<open>Model_Cache\<close>
  (\<open>verified_cache.rs\<close>), \<open>Ai_Audit\<close> (\<open>audit.rs\<close>), \<open>Ipc\<close> (\<open>ipc.rs\<close>), \<open>Proposals\<close> (\<open>proposal.rs\<close>). Composition:
  \<open>Integration\<close> (\<open>integration/src/lib.rs\<close>), \<open>Cli\<close> (\<open>cli/src\<close>).
\<close>

text \<open>
  \<^bold>\<open>What is shown.\<close> Each theory ends with the properties of its component; the main ones:

  \<^item> Blocks: the engine accepts a block exactly when it extends the valid chain, any sequence of blocks
    leaves it in the state of a valid chain, and equal tips mean equal texts of the histories (equal
    blocks when no field holds a separator). A verified snapshot restores the trusted state.
  \<^item> Durability: acknowledged transactions survive crashes during an append, whatever part of the record
    reached the log, and any snapshot file; saved snapshots load back; progress of applies and
    checkpoints. Where the guarantee ends (a record torn inside a character, an append behind a torn
    tail, a failed append, a lost snapshot after a sync) is proved as well.
  \<^item> Commitment: the Merkle root binds the map, proofs are complete and sound, log tips and audit
    logs bind their histories, each relative to collisions among the strings hashed.
  \<^item> Messages: framing is exact, streams deliver messages however they are cut, the receiver accounts for
    every byte it reads whatever goes wrong, sessions, handshakes and the agent gateway accept nothing
    twice and only what is authorised, negotiation agrees on both sides, and two nodes that read what
    the other one writes converge on one durable state. Handshake, framing and sessions compose to a
    channel: what one peer sends the other receives.
  \<^item> Control: the boot of the supervisor is all or nothing, restart budgets hold, shutdown drains, the
    life cycle follows its table, the watchdog refines a monitor that only counts silence, gossip
    converges to the newest reports, sandboxes are booked exactly and deny by default.
  \<^item> Selection: dependency resolution terminates and is justified, lockfiles are reproducible, determined
    by their text and verified only with the integrities of the registry, model
    selection is independent of the publishing order, the model cache is a bounded queue.
  \<^item> Composition: the boot pipeline succeeds for every configuration; the daemon runs from boot to exit
    with a verifying audit log.

  \<^bold>\<open>Bounds.\<close> Loops over data recurse on it. The receive loop and the daemon's main loop recurse on the list
  of reads and on the number of rounds until the signal. The dependency resolution, which recurses on
  the graph, has a termination proof (the packages not on the current path). Only the sequence
  numbers bound a run: the theorems on logs and audits assume fewer than \<open>2 ^ 64\<close> records.

  \<^bold>\<open>Findings.\<close> Where the code does not do what its comments or tests say, the behaviour of the code is
  proved as a theorem of the component: unescaped separators in hashed texts (\<open>Merkle\<close>, \<open>Sync_Engine\<close>,
  \<open>Peer_Security\<close>, \<open>Node_Audit\<close>, \<open>Proposals\<close>), the log after a torn tail or a failed write and a log torn inside a
  character (\<open>Wal_Recovery\<close>), a snapshot from which a node cannot follow the chain, with a tip that is
  not verified (\<open>Snapshot_Sync\<close>), a checkpoint boundary that is taken on trust
  (\<open>Rollback_Boundary\<close>), refusals without a resync hint (\<open>Peers\<close>), reports of one tick of which
  the later is lost (\<open>Gossip\<close>), a panic on a short stored root (\<open>Persistence\<close>), unchecked additions
  (\<open>Runtime\<close>, \<open>Watchdog\<close>), later requirements ignored by the resolution (\<open>Packages\<close>), and others.

  \<^bold>\<open>Not modelled.\<close> Memory erasure of secrets, threads and sleeping, what socket options do to a
  connection, constructors and getters that only wrap a field, and the module lists of the crates.
  Outside the crates: tests, build files, packaging, workflows and documents. Left to do: more than two
  nodes that transfer state at once.
\<close>

end
